(* ===== verification/Prelude.thy ===== *)
theory Prelude
  imports Main "HOL-Library.Word" "HOL-Library.Code_Target_Nat"
begin

text \<open>
  Shared vocabulary of the development. A Go string or byte slice is a list of
  \<open>char\<close> (one \<open>char\<close> is one byte, so \<open>length\<close> is Go's \<open>len\<close>); a Go \<open>int\<close> is an
  \<open>int\<close> whose 64-bit range is written out where a conversion can leave it. The theory
  holds the parts of the packages \<open>strings\<close> and \<open>strconv\<close> that the program calls,
  with the facts about them that more than one component needs.
\<close>

named_theorems byte_class \<open>facts about bytes, digits and prefixes\<close>

type_synonym bytes = string

abbreviation byte :: "char \<Rightarrow> nat" where
  "byte c \<equiv> of_char c"

lemma byte_less_256 [simp]: "byte c < 256"
  by simp

lemma byte_eq_iff: "byte c = byte d \<longleftrightarrow> c = d"
  by simp

lemma char_of_byte: "n < 256 \<Longrightarrow> byte (char_of n) = n"
  by simp

section \<open>Package strings\<close>

fun hasPrefix :: "bytes \<Rightarrow> bytes \<Rightarrow> bool" where
  "hasPrefix s [] = True"
| "hasPrefix [] (p # ps) = False"
| "hasPrefix (c # cs) (p # ps) = (c = p \<and> hasPrefix cs ps)"

definition trimPrefix :: "bytes \<Rightarrow> bytes \<Rightarrow> bytes" where
  "trimPrefix s p = (if hasPrefix s p then drop (length p) s else s)"

fun indexByte :: "bytes \<Rightarrow> char \<Rightarrow> nat option" where
  "indexByte [] b = None"
| "indexByte (c # cs) b = (if c = b then Some 0 else map_option Suc (indexByte cs b))"

definition cutAt :: "bytes \<Rightarrow> char \<Rightarrow> bytes" where
  \<comment> \<open>\<open>if i := strings.IndexByte(s, b); i >= 0 { s = s[:i] }\<close>\<close>
  "cutAt s b = (case indexByte s b of None \<Rightarrow> s | Some i \<Rightarrow> take i s)"

lemma hasPrefix_iff: "hasPrefix s p \<longleftrightarrow> (\<exists>t. s = p @ t)"
  by (induction s p rule: hasPrefix.induct) auto

lemma hasPrefix_append [simp]: "hasPrefix (p @ t) p"
  by (auto simp: hasPrefix_iff)

lemma hasPrefix_length: "hasPrefix s p \<Longrightarrow> length p \<le> length s"
  by (auto simp: hasPrefix_iff)

lemma trimPrefix_append [simp]: "trimPrefix (p @ t) p = t"
  by (simp add: trimPrefix_def)

lemma indexByte_None_iff: "indexByte s b = None \<longleftrightarrow> b \<notin> set s"
  by (induction s) auto

lemma indexByte_SomeD:
  "indexByte s b = Some i \<Longrightarrow> i < length s \<and> s ! i = b \<and> b \<notin> set (take i s)"
proof (induction s arbitrary: i)
  case Nil
  then show ?case by simp
next
  case (Cons c s)
  then show ?case
    by (cases i) (auto split: if_splits)
qed

lemma indexByte_append_notin: "b \<notin> set s \<Longrightarrow> indexByte (s @ b # t) b = Some (length s)"
  by (induction s) auto

lemma cutAt_notin: "b \<notin> set s \<Longrightarrow> cutAt s b = s"
  by (simp add: cutAt_def indexByte_None_iff [symmetric])

lemma cutAt_append [simp]: "b \<notin> set s \<Longrightarrow> cutAt (s @ b # t) b = s"
  by (simp add: cutAt_def indexByte_append_notin)

lemma set_cutAt: "b \<notin> set (cutAt s b)"
  by (auto simp: cutAt_def indexByte_None_iff split: option.splits dest: indexByte_SomeD)

section \<open>Package strconv\<close>

fun splitByte :: "char \<Rightarrow> bytes \<Rightarrow> bytes list" where
  \<comment> \<open>\<open>strings.Split\<close> with a one-byte separator\<close>
  "splitByte b [] = [[]]"
| "splitByte b (c # cs) =
     (if c = b then [] # splitByte b cs
      else (case splitByte b cs of [] \<Rightarrow> [[c]] | l # ls \<Rightarrow> (c # l) # ls))"

definition is_digit :: "char \<Rightarrow> bool" where
  "is_digit c \<longleftrightarrow> 48 \<le> byte c \<and> byte c \<le> 57"

definition is_lower :: "char \<Rightarrow> bool" where
  "is_lower c \<longleftrightarrow> 97 \<le> byte c \<and> byte c \<le> 122"

definition is_upper :: "char \<Rightarrow> bool" where
  "is_upper c \<longleftrightarrow> 65 \<le> byte c \<and> byte c \<le> 90"

definition is_hex :: "char \<Rightarrow> bool" where
  "is_hex c \<longleftrightarrow> is_digit c \<or> (97 \<le> byte c \<and> byte c \<le> 102) \<or> (65 \<le> byte c \<and> byte c \<le> 70)"

declare is_digit_def [byte_class] is_lower_def [byte_class] is_upper_def [byte_class] is_hex_def [byte_class]

definition digit_val :: "char \<Rightarrow> nat option" where
  "digit_val c =
     (if is_digit c then Some (byte c - 48)
      else if is_lower c then Some (byte c - 87)
      else if is_upper c then Some (byte c - 55)
      else None)"

fun parse_uint_loop :: "nat \<Rightarrow> nat \<Rightarrow> nat \<Rightarrow> bytes \<Rightarrow> nat option" where
  "parse_uint_loop base maxVal n [] = Some n"
| "parse_uint_loop base maxVal n (c # cs) =
     (case digit_val c of
        None \<Rightarrow> None
      | Some d \<Rightarrow>
          if base \<le> d then None
          else if maxVal < n * base + d then None
          else parse_uint_loop base maxVal (n * base + d) cs)"

definition parseUint :: "bytes \<Rightarrow> nat \<Rightarrow> nat \<Rightarrow> nat option" where
  \<comment> \<open>\<open>strconv.ParseUint(s, base, bits)\<close> for an explicit base: None for either error\<close>
  "parseUint s base bits =
     (if s = [] then None else parse_uint_loop base (2 ^ bits - 1) 0 s)"

definition parseInt64 :: "bytes \<Rightarrow> int option" where
  \<comment> \<open>\<open>strconv.ParseInt(s, 10, 64)\<close>, which \<open>strconv.Atoi\<close> agrees with on a 64-bit platform\<close>
  "parseInt64 s =
     (case s of
        [] \<Rightarrow> None
      | c # cs \<Rightarrow>
          (let neg = (c = CHR ''-'');
               rest = (if c = CHR ''+'' \<or> c = CHR ''-'' then cs else s)
           in case parseUint rest 10 64 of
                None \<Rightarrow> None
              | Some un \<Rightarrow>
                  if \<not> neg \<and> 2 ^ 63 \<le> un then None
                  else if neg \<and> 2 ^ 63 < un then None
                  else Some (if neg then - int un else int un)))"

definition atoi :: "bytes \<Rightarrow> int option" where
  "atoi s = parseInt64 s"

definition digit_char :: "nat \<Rightarrow> char" where
  "digit_char d = char_of (48 + d)"

fun utoa :: "nat \<Rightarrow> bytes" where
  "utoa n = (if n < 10 then [digit_char n] else utoa (n div 10) @ [digit_char (n mod 10)])"

declare utoa.simps [simp del]

definition itoa :: "int \<Rightarrow> bytes" where
  "itoa i = (if i < 0 then CHR ''-'' # utoa (nat (- i)) else utoa (nat i))"

subsection \<open>Digits\<close>

definition digits_value :: "nat \<Rightarrow> nat \<Rightarrow> bytes \<Rightarrow> nat" where
  "digits_value base n s = foldl (\<lambda>a c. a * base + the (digit_val c)) n s"

lemma digits_value_Nil [simp]: "digits_value base n [] = n"
  by (simp add: digits_value_def)

lemma digits_value_Cons [simp]:
  "digits_value base n (c # s) = digits_value base (n * base + the (digit_val c)) s"
  by (simp add: digits_value_def)

lemma digits_value_append:
  "digits_value base n (s @ t) = digits_value base (digits_value base n s) t"
  by (simp add: digits_value_def)

lemma digits_value_mono: "1 \<le> base \<Longrightarrow> n \<le> digits_value base n s"
proof (induction s arbitrary: n)
  case Nil
  then show ?case by simp
next
  case (Cons c s)
  have "n \<le> n * base + the (digit_val c)"
    using Cons.prems by (simp add: trans_le_add1)
  also have "\<dots> \<le> digits_value base n (c # s)"
    using Cons by simp
  finally show ?case .
qed

lemma digit_val_digit: "is_digit c \<Longrightarrow> digit_val c = Some (byte c - 48)"
  by (simp add: digit_val_def)

lemma digit_val_less_10: "is_digit c \<Longrightarrow> the (digit_val c) < 10"
  by (auto simp: digit_val_def is_digit_def)

lemma digit_val_hex: "is_hex c \<Longrightarrow> \<exists>d < 16. digit_val c = Some d"
  by (auto simp: digit_val_def byte_class)

lemma digit_char_byte: "d < 10 \<Longrightarrow> byte (digit_char d) = 48 + d"
  by (simp add: digit_char_def)

lemma is_digit_digit_char [simp]: "d < 10 \<Longrightarrow> is_digit (digit_char d)"
  by (simp add: is_digit_def digit_char_byte)

lemma digit_val_digit_char [simp]: "d < 10 \<Longrightarrow> digit_val (digit_char d) = Some d"
  by (simp add: digit_val_digit digit_char_byte)

lemma digit_char_digit_val: "is_digit c \<Longrightarrow> digit_char (the (digit_val c)) = c"
  by (auto simp: digit_char_def digit_val_digit is_digit_def)

lemma parse_uint_loop_digits:
  assumes "1 \<le> base" and "list_all (\<lambda>c. \<exists>d < base. digit_val c = Some d) s"
  shows "parse_uint_loop base maxVal n s =
    (if n \<le> maxVal \<or> s = [] then
       (if s = [] \<or> digits_value base n s \<le> maxVal then Some (digits_value base n s) else None)
     else None)"
  using assms(2)
proof (induction s arbitrary: n)
  case Nil
  then show ?case by simp
next
  case (Cons c s)
  then obtain d where d: "digit_val c = Some d" "d < base" by auto
  have mono: "n * base + d \<le> digits_value base (n * base + d) s"
    using assms(1) by (rule digits_value_mono)
  have n: "n \<le> n * base + d"
    using assms(1) by (simp add: trans_le_add1)
  show ?case
    using Cons d mono n by (cases s) auto
qed

lemma parseUint_digits:
  assumes "1 \<le> base" and "list_all (\<lambda>c. \<exists>d < base. digit_val c = Some d) s" and "s \<noteq> []"
  shows "parseUint s base bits =
    (if digits_value base 0 s \<le> 2 ^ bits - 1 then Some (digits_value base 0 s) else None)"
  using assms by (simp add: parseUint_def parse_uint_loop_digits)

subsection \<open>Decimal printing and its inverse\<close>

lemma utoa_digits: "list_all is_digit (utoa n)"
  by (induction n rule: utoa.induct) (subst utoa.simps, simp)

lemma utoa_nonempty [simp]: "utoa n \<noteq> []"
  by (subst utoa.simps) simp

lemma digits_value_utoa: "digits_value 10 0 (utoa n) = n"
proof (induction n rule: utoa.induct)
  case (1 n)
  then show ?case
    by (subst utoa.simps) (auto simp: digits_value_append)
qed

lemma is_digit_val_less:
  "list_all is_digit s \<Longrightarrow> list_all (\<lambda>c. \<exists>d < 10. digit_val c = Some d) s"
  by (auto simp: list_all_iff digit_val_def is_digit_def)

lemma parseUint_utoa: "n \<le> 2 ^ bits - 1 \<Longrightarrow> parseUint (utoa n) 10 bits = Some n"
  by (simp add: parseUint_digits is_digit_val_less utoa_digits digits_value_utoa)

lemma utoa_hd_nonzero: "0 < n \<Longrightarrow> hd (utoa n) \<noteq> CHR ''0''"
proof (induction n rule: utoa.induct)
  case (1 n)
  show ?case
  proof (cases "n < 10")
    case True
    have "byte (digit_char n) \<noteq> byte (CHR ''0'')"
      using True 1(2) by (simp add: digit_char_byte)
    with True show ?thesis
      by (subst utoa.simps) (auto simp: byte_eq_iff)
  next
    case False
    with 1 show ?thesis
      by (subst utoa.simps) (simp add: hd_append)
  qed
qed

lemma digits_value_pos:
  assumes "is_digit c" and "c \<noteq> CHR ''0''"
  shows "0 < digits_value 10 0 (c # s)"
proof -
  have "byte c \<noteq> byte (CHR ''0'')"
    using assms(2) by (simp only: byte_eq_iff) simp
  then have "1 \<le> the (digit_val c)"
    using assms(1) by (auto simp: digit_val_digit is_digit_def)
  also have "\<dots> \<le> digits_value 10 (the (digit_val c)) s"
    by (rule digits_value_mono) simp
  finally show ?thesis by simp
qed

lemma utoa_digits_value:
  assumes "list_all is_digit s" and "s \<noteq> []" and "hd s \<noteq> CHR ''0''"
  shows "utoa (digits_value 10 0 s) = s"
  using assms
proof (induction s rule: rev_induct)
  case Nil
  then show ?case by simp
next
  case (snoc c s)
  have c: "the (digit_val c) < 10" "digit_char (the (digit_val c)) = c"
    using snoc.prems by (auto simp: digit_val_less_10 digit_char_digit_val)
  show ?case
  proof (cases s)
    case Nil
    then show ?thesis using c by (simp add: utoa.simps)
  next
    case (Cons a t)
    have "0 < digits_value 10 0 s"
      using snoc.prems Cons digits_value_pos [of a t] by simp
    moreover have "utoa (digits_value 10 0 s) = s"
      using snoc Cons by simp
    ultimately show ?thesis
      using c by (subst utoa.simps) (simp add: digits_value_append)
  qed
qed

lemma parseInt64_utoa: "n < 2 ^ 63 \<Longrightarrow> parseInt64 (utoa n) = Some (int n)"
proof -
  assume n: "n < 2 ^ 63"
  obtain c cs where u: "utoa n = c # cs" by (cases "utoa n") auto
  have "is_digit c" using utoa_digits [of n] u by simp
  then have "c \<noteq> CHR ''+'' \<and> c \<noteq> CHR ''-''" by (auto simp: is_digit_def)
  moreover have "parseUint (utoa n) 10 64 = Some n"
    by (rule parseUint_utoa) (use n in simp)
  ultimately show ?thesis using n u by (simp add: parseInt64_def)
qed

lemma parseInt64_itoa:
  assumes "- (2 ^ 63) \<le> i" and "i < 2 ^ 63"
  shows "parseInt64 (itoa i) = Some i"
proof (cases "i < 0")
  case True
  then have "parseUint (utoa (nat (- i))) 10 64 = Some (nat (- i))"
    using assms by (intro parseUint_utoa) (simp add: nat_le_iff)
  with True assms show ?thesis
    by (simp add: parseInt64_def itoa_def nat_less_iff)
next
  case False
  then show ?thesis
    using assms parseInt64_utoa [of "nat i"] by (simp add: itoa_def nat_less_iff)
qed

lemma parse_uint_loop_bound: "parse_uint_loop base maxVal n s = Some m \<Longrightarrow> n \<le> maxVal \<Longrightarrow> m \<le> maxVal"
  by (induction base maxVal n s rule: parse_uint_loop.induct) (auto split: option.splits if_splits)

lemma parseUint_bound:
  assumes "parseUint s base bits = Some m"
  shows "m < 2 ^ bits"
proof -
  have "m \<le> 2 ^ bits - 1"
    using assms parse_uint_loop_bound [of base "2 ^ bits - 1" 0 s m]
    by (simp add: parseUint_def split: if_splits)
  moreover have "(0::nat) < 2 ^ bits" by simp
  ultimately show ?thesis by linarith
qed

lemma parseInt64_range:
  "parseInt64 s = Some i \<Longrightarrow> - (2 ^ 63) \<le> i \<and> i < 2 ^ 63"
  by (auto simp: parseInt64_def Let_def split: list.splits option.splits if_splits)

section \<open>Package time\<close>

definition second :: int where
  \<comment> \<open>\<open>time.Second\<close>, a \<open>Duration\<close> in nanoseconds\<close>
  "second = 1000000000"

section \<open>Errors as values\<close>

definition ok_or :: "'e \<Rightarrow> 'a option \<Rightarrow> 'e + 'a" where
  "ok_or e x = (case x of None \<Rightarrow> Inl e | Some a \<Rightarrow> Inr a)"

lemma ok_or_Inr [simp]: "ok_or e x = Inr a \<longleftrightarrow> x = Some a"
  by (auto simp: ok_or_def split: option.splits)

lemma ok_or_Inl [simp]: "ok_or e x = Inl e' \<longleftrightarrow> x = None \<and> e' = e"
  by (auto simp: ok_or_def split: option.splits)

end
