(* ===== verification/Utf8.thy ===== *)
theory Utf8
  imports Prelude
begin

text \<open>
  Package \<open>unicode/utf8\<close> as the program uses it: \<open>utf8.Valid\<close>, the decoding that
  \<open>for _, r := range s\<close> performs (an invalid byte yields \<open>U+FFFD\<close> and consumes one
  byte) and \<open>utf8.EncodeRune\<close>. The facts relate loops over runes to loops over bytes.
\<close>

definition cont_byte :: "char \<Rightarrow> bool" where
  "cont_byte c \<longleftrightarrow> 128 \<le> byte c \<and> byte c \<le> 191"

definition runeError :: nat where
  "runeError = 65533"

definition utf8_seq :: "bytes \<Rightarrow> (nat \<times> nat) option" where
  \<comment> \<open>the rune and the width of a valid sequence at the head of the input\<close>
  "utf8_seq s =
     (case s of
        [] \<Rightarrow> None
      | a # t \<Rightarrow>
          (let x = byte a in
           if x < 128 then Some (x, 1)
           else if x < 194 then None
           else if x < 224 then
             (case t of
                b # _ \<Rightarrow>
                  if cont_byte b then Some ((x - 192) * 64 + (byte b - 128), 2) else None
              | _ \<Rightarrow> None)
           else if x < 240 then
             (case t of
                b # c # _ \<Rightarrow>
                  if (if x = 224 then 160 else 128) \<le> byte b
                     \<and> byte b \<le> (if x = 237 then 159 else 191) \<and> cont_byte c
                  then Some ((x - 224) * 4096 + (byte b - 128) * 64 + (byte c - 128), 3)
                  else None
              | _ \<Rightarrow> None)
           else if x < 245 then
             (case t of
                b # c # d # _ \<Rightarrow>
                  if (if x = 240 then 144 else 128) \<le> byte b
                     \<and> byte b \<le> (if x = 244 then 143 else 191) \<and> cont_byte c \<and> cont_byte d
                  then Some ((x - 240) * 262144 + (byte b - 128) * 4096
                             + (byte c - 128) * 64 + (byte d - 128), 4)
                  else None
              | _ \<Rightarrow> None)
           else None))"

lemma utf8_seq_width: "utf8_seq s = Some (r, w) \<Longrightarrow> 1 \<le> w \<and> w \<le> 4 \<and> w \<le> length s"
  by (auto simp: utf8_seq_def Let_def split: list.splits if_splits)

function runes :: "bytes \<Rightarrow> nat list" where
  "runes [] = []"
| "runes (a # t) =
     (case utf8_seq (a # t) of
        Some (r, w) \<Rightarrow> r # runes (drop (w - 1) t)
      | None \<Rightarrow> runeError # runes t)"
  by pat_completeness auto
termination
  by (relation "measure length") auto

function utf8Valid :: "bytes \<Rightarrow> bool" where
  "utf8Valid [] = True"
| "utf8Valid (a # t) =
     (case utf8_seq (a # t) of
        Some (r, w) \<Rightarrow> utf8Valid (drop (w - 1) t)
      | None \<Rightarrow> False)"
  by pat_completeness auto
termination
  by (relation "measure length") auto

definition validRune :: "nat \<Rightarrow> bool" where
  "validRune r \<longleftrightarrow> r < 55296 \<or> (57343 < r \<and> r \<le> 1114111)"

definition encodeRune :: "nat \<Rightarrow> bytes" where
  "encodeRune r0 =
     (let r = (if validRune r0 then r0 else runeError) in
      if r < 128 then [char_of r]
      else if r < 2048 then [char_of (192 + r div 64), char_of (128 + r mod 64)]
      else if r < 65536 then
        [char_of (224 + r div 4096), char_of (128 + r div 64 mod 64), char_of (128 + r mod 64)]
      else
        [char_of (240 + r div 262144), char_of (128 + r div 4096 mod 64),
         char_of (128 + r div 64 mod 64), char_of (128 + r mod 64)])"

section \<open>ASCII strings\<close>

definition ascii :: "bytes \<Rightarrow> bool" where
  "ascii s \<longleftrightarrow> list_all (\<lambda>c. byte c < 128) s"

lemma ascii_simps [simp]:
  "ascii []"
  "ascii (c # s) \<longleftrightarrow> byte c < 128 \<and> ascii s"
  "ascii (s @ t) \<longleftrightarrow> ascii s \<and> ascii t"
  by (auto simp: ascii_def)

lemma utf8_seq_ascii: "byte a < 128 \<Longrightarrow> utf8_seq (a # t) = Some (byte a, 1)"
  by (simp add: utf8_seq_def Let_def)

lemma runes_ascii_Cons: "byte a < 128 \<Longrightarrow> runes (a # t) = byte a # runes t"
  by (simp add: utf8_seq_ascii)

lemma runes_ascii: "ascii s \<Longrightarrow> runes s = map byte s"
  by (induction s) (auto simp: runes_ascii_Cons simp del: runes.simps(2))

lemma utf8Valid_ascii_Cons: "byte a < 128 \<Longrightarrow> utf8Valid (a # t) = utf8Valid t"
  by (simp add: utf8_seq_ascii)

lemma utf8Valid_ascii: "ascii s \<Longrightarrow> utf8Valid s"
  by (induction s) (auto simp: utf8Valid_ascii_Cons simp del: utf8Valid.simps(2))

lemma utf8_seq_high:
  assumes "utf8_seq (a # t) = Some (r, w)" and "128 \<le> byte a"
  shows "128 \<le> r"
  using assms by (auto simp: utf8_seq_def Let_def cont_byte_def split: list.splits if_splits)

lemma runes_all_ascii:
  assumes "list_all P (runes s)" and "\<And>r. P r \<Longrightarrow> r < 128"
  shows "ascii s"
  using assms(1)
proof (induction s)
  case Nil
  then show ?case by simp
next
  case (Cons a t)
  show ?case
  proof (cases "byte a < 128")
    case True
    then have "runes (a # t) = byte a # runes t" by (rule runes_ascii_Cons)
    with Cons True show ?thesis by simp
  next
    case False
    obtain r rs where rs: "runes (a # t) = r # rs" and "128 \<le> r"
    proof (cases "utf8_seq (a # t)")
      case None
      then show ?thesis using that by (simp add: runeError_def)
    next
      case (Some p)
      obtain r w where p: "p = (r, w)" by (cases p)
      then show ?thesis
        using that Some False utf8_seq_high [of a t r w] by simp
    qed
    with Cons.prems assms(2) have False by fastforce
    then show ?thesis ..
  qed
qed

text \<open>
  A loop over the runes of a string that accepts ASCII runes only is a loop over its
  bytes.
\<close>

lemma runes_all_iff_bytes:
  assumes "\<And>r. P r \<Longrightarrow> r < 128"
  shows "list_all P (runes s) \<longleftrightarrow> list_all (\<lambda>c. P (byte c)) s"
proof
  assume h: "list_all P (runes s)"
  then have "ascii s" using assms by (rule runes_all_ascii)
  with h show "list_all (\<lambda>c. P (byte c)) s"
    by (simp add: runes_ascii list_all_iff)
next
  assume h: "list_all (\<lambda>c. P (byte c)) s"
  then have "ascii s" using assms by (auto simp: ascii_def list_all_iff)
  with h show "list_all P (runes s)"
    by (simp add: runes_ascii list_all_iff)
qed

section \<open>Encoded runes are valid UTF-8\<close>

lemma split64: "n = 64 * (n div 64) + n mod 64" for n :: nat
  by simp

lemma div64_mult: "n div 64 div 64 = n div 4096" "n div 4096 div 64 = n div 262144" for n :: nat
  by (simp_all add: div_mult2_eq [symmetric])

lemma split4096: "n div 4096 * 4096 + n div 64 mod 64 * 64 + n mod 64 = n" for n :: nat
  using split64 [of n] split64 [of "n div 64"] unfolding div64_mult by linarith

lemma split262144:
  "n div 262144 * 262144 + n div 4096 mod 64 * 4096 + n div 64 mod 64 * 64 + n mod 64 = n"
  for n :: nat
  using split4096 [of n] split64 [of "n div 4096"] unfolding div64_mult by linarith

lemma utf8_seq3:
  assumes "e < 16" "b < 64" "c < 64" "e = 0 \<Longrightarrow> 32 \<le> b" "e = 13 \<Longrightarrow> b < 32"
  shows "utf8_seq (char_of (224 + e) # char_of (128 + b) # char_of (128 + c) # t)
    = Some (e * 4096 + b * 64 + c, 3)"
  using assms by (auto simp: utf8_seq_def Let_def char_of_byte cont_byte_def)

lemma utf8_seq4:
  assumes "e < 5" "b < 64" "c < 64" "d < 64" "e = 0 \<Longrightarrow> 16 \<le> b" "e = 4 \<Longrightarrow> b < 16"
  shows "utf8_seq (char_of (240 + e) # char_of (128 + b) # char_of (128 + c)
      # char_of (128 + d) # t) = Some (e * 262144 + b * 4096 + c * 64 + d, 4)"
  using assms by (auto simp: utf8_seq_def Let_def char_of_byte cont_byte_def)

lemma validRune_fix: "validRune (if validRune r then r else runeError)"
  by (simp add: validRune_def runeError_def)

lemma utf8_seq_encodeRune:
  "utf8_seq (encodeRune r @ t) =
     Some (if validRune r then r else runeError, length (encodeRune r))"
proof -
  define q where "q = (if validRune r then r else runeError)"
  have q: "validRune q" unfolding q_def by (rule validRune_fix)
  have enc: "encodeRune r = encodeRune q"
    using q by (simp add: encodeRune_def q_def)
  consider (one) "q < 128" | (two) "128 \<le> q" "q < 2048" | (three) "2048 \<le> q" "q < 65536"
    | (four) "65536 \<le> q" "q \<le> 1114111"
    using q by (fastforce simp: validRune_def)
  then have "utf8_seq (encodeRune q @ t) = Some (q, length (encodeRune q))"
  proof cases
    case one
    then show ?thesis
      using q by (simp add: encodeRune_def utf8_seq_def Let_def char_of_byte)
  next
    case two
    then have "194 \<le> 192 + q div 64" "192 + q div 64 < 224" by auto
    then show ?thesis
      using q two by (simp add: encodeRune_def utf8_seq_def Let_def char_of_byte cont_byte_def)
  next
    case three
    then have "q div 4096 < 16" by auto
    moreover have "q div 4096 * 4096 + q div 64 mod 64 * 64 + q mod 64 = q"
      by (rule split4096)
    moreover have "q div 4096 = 0 \<Longrightarrow> 32 \<le> q div 64 mod 64"
      using split64 [of "q div 64"] three by (simp add: div_mult2_eq [symmetric])
    moreover have "q div 64 mod 64 < 32" if "q div 4096 = 13"
    proof -
      have "q < 55296 \<or> 57343 < q" using q by (auto simp: validRune_def)
      then have "q div 64 < 864 \<or> 896 \<le> q div 64" by auto
      moreover have "q div 64 = 64 * 13 + q div 64 mod 64"
        using split64 [of "q div 64"] that by (simp add: div_mult2_eq [symmetric])
      moreover have "q div 64 mod 64 < 64" by simp
      ultimately show ?thesis by linarith
    qed
    ultimately show ?thesis
      using q three utf8_seq3 [of "q div 4096" "q div 64 mod 64" "q mod 64" t]
      by (simp add: encodeRune_def Let_def)
  next
    case four
    then have "q div 262144 < 5" by auto
    moreover have "q div 262144 * 262144 + q div 4096 mod 64 * 4096 + q div 64 mod 64 * 64
        + q mod 64 = q"
      by (rule split262144)
    moreover have "q div 262144 = 0 \<Longrightarrow> 16 \<le> q div 4096 mod 64"
    proof -
      assume "q div 262144 = 0"
      then have "q div 4096 div 64 = 0" by (simp add: div_mult2_eq [symmetric])
      then have "q div 4096 mod 64 = q div 4096" by simp
      then show ?thesis using four by simp
    qed
    moreover have "q div 262144 = 4 \<Longrightarrow> q div 4096 mod 64 < 16"
    proof -
      assume "q div 262144 = 4"
      then have "q div 4096 div 64 = 4" by (simp add: div_mult2_eq [symmetric])
      then have "q div 4096 = 256 + q div 4096 mod 64"
        using div_mult_mod_eq [of "q div 4096" 64] by simp
      moreover have "q div 4096 < 272" using four by simp
      ultimately show ?thesis by linarith
    qed
    ultimately show ?thesis
      using q four utf8_seq4 [of "q div 262144" "q div 4096 mod 64" "q div 64 mod 64" "q mod 64" t]
      by (simp add: encodeRune_def Let_def)
  qed
  then show ?thesis by (simp add: enc q_def)
qed

lemma encodeRune_nonempty [simp]: "encodeRune r \<noteq> []"
  by (simp add: encodeRune_def Let_def)

lemma utf8Valid_seq:
  assumes "utf8_seq s = Some (r, w)"
  shows "utf8Valid s = utf8Valid (drop w s)"
proof (cases s)
  case Nil
  then show ?thesis using assms by (simp add: utf8_seq_def)
next
  case (Cons a t)
  moreover have "1 \<le> w" using assms utf8_seq_width by blast
  ultimately show ?thesis using assms by (cases w) auto
qed

lemma utf8Valid_encodeRune [simp]: "utf8Valid (encodeRune r @ t) = utf8Valid t"
  using utf8Valid_seq [OF utf8_seq_encodeRune [of r t]] by simp

end
