(* ===== verification/Json_Scan.thy ===== *)
theory Json_Scan
  imports Utf8
begin

text \<open>
  The lexical level of \<open>encoding/json\<close>: the byte-at-a-time scanner (its step functions,
  its stack of open objects and arrays and its nesting limit), \<open>checkValid\<close>, the reading
  of one value by a \<open>Decoder\<close>, and the decoding of string, boolean and integer literals
  into Go values. A Go step function is a constructor of \<open>scan_step\<close>; \<open>scan1\<close>
  dispatches on it as the method value \<open>s.step\<close> does.
\<close>

datatype scan_code =
    ScanContinue | ScanBeginLiteral | ScanBeginObject | ScanObjectKey | ScanObjectValue
  | ScanEndObject | ScanBeginArray | ScanArrayValue | ScanEndArray | ScanSkipSpace
  | ScanEnd | ScanError

datatype parse_state = ParseObjectKey | ParseObjectValue | ParseArrayValue

datatype scan_step =
    BeginValueOrEmpty | BeginValue | BeginStringOrEmpty | BeginString | EndValue | EndTop
  | InString | InStringEsc | InStringEscU nat | Neg | Int1 | Int0 | Dot | Dot0
  | Exp | ExpSign | Exp0 | InLit bytes | StepError

type_synonym scanner = "scan_step \<times> parse_state list"

definition isSpace :: "char \<Rightarrow> bool" where
  "isSpace c \<longleftrightarrow> c = CHR '' '' \<or> c = CHR 0x09 \<or> c = CHR 0x0D \<or> c = CHR 0x0A"

definition maxNestingDepth :: nat where
  "maxNestingDepth = 10000"

definition pushParseState ::
  "parse_state \<Rightarrow> scan_step \<Rightarrow> scan_code \<Rightarrow> parse_state list \<Rightarrow> scanner \<times> scan_code" where
  "pushParseState p st code ps =
     (if length ps < maxNestingDepth then ((st, p # ps), code)
      else ((StepError, p # ps), ScanError))"

definition popParseState :: "parse_state list \<Rightarrow> scanner" where
  "popParseState ps =
     (case ps of
        p # q # r \<Rightarrow> (EndValue, q # r)
      | _ \<Rightarrow> (EndTop, []))"

definition scanFail :: "parse_state list \<Rightarrow> scanner \<times> scan_code" where
  "scanFail ps = ((StepError, ps), ScanError)"

definition stateEndTop :: "char \<Rightarrow> scanner \<times> scan_code" where
  "stateEndTop c = ((if isSpace c then EndTop else StepError, []), ScanEnd)"

definition stateEndValue :: "parse_state list \<Rightarrow> char \<Rightarrow> scanner \<times> scan_code" where
  "stateEndValue ps c =
     (case ps of
        [] \<Rightarrow> stateEndTop c
      | p # r \<Rightarrow>
          if isSpace c then ((EndValue, ps), ScanSkipSpace)
          else
            (case p of
               ParseObjectKey \<Rightarrow>
                 if c = CHR '':'' then ((BeginValue, ParseObjectValue # r), ScanObjectKey)
                 else scanFail ps
             | ParseObjectValue \<Rightarrow>
                 if c = CHR '','' then ((BeginString, ParseObjectKey # r), ScanObjectValue)
                 else if c = CHR ''}'' then (popParseState ps, ScanEndObject)
                 else scanFail ps
             | ParseArrayValue \<Rightarrow>
                 if c = CHR '','' then ((BeginValue, ps), ScanArrayValue)
                 else if c = CHR '']'' then (popParseState ps, ScanEndArray)
                 else scanFail ps))"

definition stateBeginValue :: "parse_state list \<Rightarrow> char \<Rightarrow> scanner \<times> scan_code" where
  "stateBeginValue ps c =
     (if isSpace c then ((BeginValue, ps), ScanSkipSpace)
      else if c = CHR ''{'' then
        pushParseState ParseObjectKey BeginStringOrEmpty ScanBeginObject ps
      else if c = CHR ''['' then
        pushParseState ParseArrayValue BeginValueOrEmpty ScanBeginArray ps
      else if c = CHR 0x22 then ((InString, ps), ScanBeginLiteral)
      else if c = CHR ''-'' then ((Neg, ps), ScanBeginLiteral)
      else if c = CHR ''0'' then ((Int0, ps), ScanBeginLiteral)
      else if c = CHR ''t'' then ((InLit ''rue'', ps), ScanBeginLiteral)
      else if c = CHR ''f'' then ((InLit ''alse'', ps), ScanBeginLiteral)
      else if c = CHR ''n'' then ((InLit ''ull'', ps), ScanBeginLiteral)
      else if is_digit c then ((Int1, ps), ScanBeginLiteral)
      else scanFail ps)"

definition stateBeginString :: "parse_state list \<Rightarrow> char \<Rightarrow> scanner \<times> scan_code" where
  "stateBeginString ps c =
     (if isSpace c then ((BeginString, ps), ScanSkipSpace)
      else if c = CHR 0x22 then ((InString, ps), ScanBeginLiteral)
      else scanFail ps)"

definition state0 :: "parse_state list \<Rightarrow> char \<Rightarrow> scanner \<times> scan_code" where
  "state0 ps c =
     (if c = CHR ''.'' then ((Dot, ps), ScanContinue)
      else if c = CHR ''e'' \<or> c = CHR ''E'' then ((Exp, ps), ScanContinue)
      else stateEndValue ps c)"

definition stateESign :: "parse_state list \<Rightarrow> char \<Rightarrow> scanner \<times> scan_code" where
  "stateESign ps c = (if is_digit c then ((Exp0, ps), ScanContinue) else scanFail ps)"

fun scan1 :: "scanner \<Rightarrow> char \<Rightarrow> scanner \<times> scan_code" where
  "scan1 (BeginValueOrEmpty, ps) c =
     (if isSpace c then ((BeginValueOrEmpty, ps), ScanSkipSpace)
      else if c = CHR '']'' then stateEndValue ps c
      else stateBeginValue ps c)"
| "scan1 (BeginValue, ps) c = stateBeginValue ps c"
| "scan1 (BeginStringOrEmpty, ps) c =
     (if isSpace c then ((BeginStringOrEmpty, ps), ScanSkipSpace)
      else if c = CHR ''}'' then stateEndValue (ParseObjectValue # tl ps) c
      else stateBeginString ps c)"
| "scan1 (BeginString, ps) c = stateBeginString ps c"
| "scan1 (EndValue, ps) c = stateEndValue ps c"
| "scan1 (EndTop, ps) c = stateEndTop c"
| "scan1 (InString, ps) c =
     (if c = CHR 0x22 then ((EndValue, ps), ScanContinue)
      else if c = CHR 0x5C then ((InStringEsc, ps), ScanContinue)
      else if byte c < 32 then scanFail ps
      else ((InString, ps), ScanContinue))"
| "scan1 (InStringEsc, ps) c =
     (if c = CHR ''b'' \<or> c = CHR ''f'' \<or> c = CHR ''n'' \<or> c = CHR ''r'' \<or> c = CHR ''t''
         \<or> c = CHR 0x5C \<or> c = CHR ''/'' \<or> c = CHR 0x22 then ((InString, ps), ScanContinue)
      else if c = CHR ''u'' then ((InStringEscU 0, ps), ScanContinue)
      else scanFail ps)"
| "scan1 (InStringEscU k, ps) c =
     (if is_hex c then ((if k = 3 then InString else InStringEscU (Suc k), ps), ScanContinue)
      else scanFail ps)"
| "scan1 (Neg, ps) c =
     (if c = CHR ''0'' then ((Int0, ps), ScanContinue)
      else if is_digit c then ((Int1, ps), ScanContinue)
      else scanFail ps)"
| "scan1 (Int1, ps) c = (if is_digit c then ((Int1, ps), ScanContinue) else state0 ps c)"
| "scan1 (Int0, ps) c = state0 ps c"
| "scan1 (Dot, ps) c = (if is_digit c then ((Dot0, ps), ScanContinue) else scanFail ps)"
| "scan1 (Dot0, ps) c =
     (if is_digit c then ((Dot0, ps), ScanContinue)
      else if c = CHR ''e'' \<or> c = CHR ''E'' then ((Exp, ps), ScanContinue)
      else stateEndValue ps c)"
| "scan1 (Exp, ps) c =
     (if c = CHR ''+'' \<or> c = CHR ''-'' then ((ExpSign, ps), ScanContinue)
      else stateESign ps c)"
| "scan1 (ExpSign, ps) c = stateESign ps c"
| "scan1 (Exp0, ps) c =
     (if is_digit c then ((Exp0, ps), ScanContinue) else stateEndValue ps c)"
| "scan1 (InLit l, ps) c =
     (case l of
        [] \<Rightarrow> scanFail ps
      | x # r \<Rightarrow>
          if c = x then ((if r = [] then EndValue else InLit r, ps), ScanContinue)
          else scanFail ps)"
| "scan1 (StepError, ps) c = ((StepError, ps), ScanError)"

section \<open>checkValid and the reading of one value\<close>

fun check_loop :: "scanner \<Rightarrow> bytes \<Rightarrow> bool" where
  "check_loop s [] =
     (case fst s of
        StepError \<Rightarrow> False
      | EndTop \<Rightarrow> True
      | _ \<Rightarrow> fst (fst (scan1 s (CHR '' ''))) = EndTop)"
| "check_loop s (c # cs) =
     (let (s', code) = scan1 s c in if code = ScanError then False else check_loop s' cs)"

definition checkValid :: "bytes \<Rightarrow> bool" where
  "checkValid data = check_loop (BeginValue, []) data"

text \<open>
  \<open>readValue\<close> returns the length of the next value; the model returns the value's text
  (with the white space before it) and the text after it. A value that ends its
  outermost object or array ends at that byte; any other value ends before the first
  byte that cannot belong to it.
\<close>

fun scan_value :: "scanner \<Rightarrow> bytes \<Rightarrow> (bytes \<times> bytes) option" where
  "scan_value s [] = (if snd (scan1 s (CHR '' '')) = ScanEnd then Some ([], []) else None)"
| "scan_value s (c # cs) =
     (let (s', code) = scan1 s c in
      if code = ScanEnd then Some ([], c # cs)
      else if (code = ScanEndObject \<or> code = ScanEndArray) \<and> snd s' = [] then Some ([c], cs)
      else if code = ScanError then None
      else map_option (\<lambda>(v, r). (c # v, r)) (scan_value s' cs))"

definition readValue :: "bytes \<Rightarrow> (bytes \<times> bytes) option" where
  "readValue s = scan_value (BeginValue, []) s"

lemma scan_value_append: "scan_value s cs = Some (v, r) \<Longrightarrow> cs = v @ r"
proof (induction s cs arbitrary: v r rule: scan_value.induct)
  case (1 s)
  then show ?case by (simp split: if_splits)
next
  case (2 s c cs)
  obtain s' code where sc: "scan1 s c = (s', code)" by (cases "scan1 s c")
  show ?case
    using "2.prems" "2.IH" [OF sc [symmetric] refl]
    by (auto simp: sc split: if_splits)
qed

lemma readValue_append: "readValue s = Some (v, r) \<Longrightarrow> s = v @ r"
  unfolding readValue_def by (rule scan_value_append)

lemma scan1_BeginValue_not_end: "snd (scan1 (BeginValue, ps) c) \<noteq> ScanEnd"
  by (simp add: stateBeginValue_def pushParseState_def scanFail_def)

lemma readValue_shorter:
  assumes "readValue s = Some (v, r)"
  shows "length r < length s"
proof (cases s)
  case Nil
  then show ?thesis
    using assms scan1_BeginValue_not_end [of "[]" "CHR '' ''"]
    by (simp add: readValue_def del: scan1.simps)
next
  case (Cons c cs)
  have "v \<noteq> []"
    using assms Cons scan1_BeginValue_not_end [of "[]" c]
    by (auto simp: readValue_def Let_def split: prod.splits if_splits simp del: scan1.simps)
  moreover have "s = v @ r" using assms by (rule readValue_append)
  ultimately show ?thesis by simp
qed

section \<open>String literals\<close>

definition getu4 :: "bytes \<Rightarrow> nat option" where
  "getu4 s =
     (case s of
        b # u # a1 # a2 # a3 # a4 # _ \<Rightarrow>
          if b = CHR 0x5C \<and> u = CHR ''u'' \<and> is_hex a1 \<and> is_hex a2 \<and> is_hex a3 \<and> is_hex a4
          then Some (digits_value 16 0 [a1, a2, a3, a4])
          else None
      | _ \<Rightarrow> None)"

definition isSurrogate :: "nat \<Rightarrow> bool" where
  "isSurrogate r \<longleftrightarrow> 55296 \<le> r \<and> r < 57344"

definition utf16_decode :: "nat \<Rightarrow> nat \<Rightarrow> nat" where
  "utf16_decode r1 r2 =
     (if 55296 \<le> r1 \<and> r1 < 56320 \<and> 56320 \<le> r2 \<and> r2 < 57344
      then (r1 - 55296) * 1024 + (r2 - 56320) + 65536 else runeError)"

definition unescape1 :: "char \<Rightarrow> char option" where
  "unescape1 e =
     (if e = CHR 0x22 \<or> e = CHR 0x5C \<or> e = CHR ''/'' \<or> e = CHR 0x27 then Some e
      else if e = CHR ''b'' then Some (CHR 0x08)
      else if e = CHR ''f'' then Some (CHR 0x0C)
      else if e = CHR ''n'' then Some (CHR 0x0A)
      else if e = CHR ''r'' then Some (CHR 0x0D)
      else if e = CHR ''t'' then Some (CHR 0x09)
      else None)"

text \<open>
  \<open>unquoteBytes\<close> on the text between the quotes. None is the failure that the caller
  turns into a panic; the scanner has already refused every literal that reaches it.
\<close>

function unquote_body :: "bytes \<Rightarrow> bytes option" where
  "unquote_body [] = Some []"
| "unquote_body (c # t) =
     (if c = CHR 0x5C then
        (case t of
           [] \<Rightarrow> None
         | e # u \<Rightarrow>
             if e = CHR ''u'' then
               (case getu4 (c # t) of
                  None \<Rightarrow> None
                | Some rr \<Rightarrow>
                    if isSurrogate rr then
                      (case getu4 (drop 5 t) of
                         Some rr1 \<Rightarrow>
                           (if utf16_decode rr rr1 \<noteq> runeError
                            then map_option ((@) (encodeRune (utf16_decode rr rr1)))
                                   (unquote_body (drop 11 t))
                            else map_option ((@) (encodeRune runeError)) (unquote_body (drop 5 t)))
                       | None \<Rightarrow> map_option ((@) (encodeRune runeError)) (unquote_body (drop 5 t)))
                    else map_option ((@) (encodeRune rr)) (unquote_body (drop 5 t)))
             else
               (case unescape1 e of
                  None \<Rightarrow> None
                | Some x \<Rightarrow> map_option ((#) x) (unquote_body u)))
      else if c = CHR 0x22 \<or> byte c < 32 then None
      else if byte c < 128 then map_option ((#) c) (unquote_body t)
      else
        (case utf8_seq (c # t) of
           Some (r, w) \<Rightarrow> map_option ((@) (encodeRune r)) (unquote_body (drop (w - 1) t))
         | None \<Rightarrow> map_option ((@) (encodeRune runeError)) (unquote_body t)))"
  by pat_completeness auto
termination
  by (relation "measure length") auto

declare unquote_body.simps(2) [simp del]

definition unquote :: "bytes \<Rightarrow> bytes option" where
  "unquote s =
     (case s of
        q # t \<Rightarrow>
          if q = CHR 0x22 \<and> t \<noteq> [] \<and> last t = CHR 0x22 then unquote_body (butlast t) else None
      | [] \<Rightarrow> None)"

lemma utf8Valid_Cons_append: "byte c < 128 \<Longrightarrow> utf8Valid (c # t) = utf8Valid t"
  by (rule utf8Valid_ascii_Cons)

lemma unescape1_ascii: "unescape1 e = Some x \<Longrightarrow> byte x < 128"
  by (auto simp: unescape1_def split: if_splits)

text \<open>What a literal decodes to is always valid UTF-8, whatever bytes it was made of.\<close>

lemma unquote_body_utf8: "unquote_body s = Some t \<Longrightarrow> utf8Valid t"
proof (induction s arbitrary: t rule: unquote_body.induct)
  case 1
  then show ?case by simp
next
  case (2 c s)
  from "2.prems" show ?case
    apply (subst (asm) unquote_body.simps)
    apply (auto split: if_splits list.splits option.splits
        simp: utf8Valid_Cons_append unescape1_ascii simp del: utf8Valid.simps(2))
    using "2.IH" by (auto simp: utf8Valid_Cons_append unescape1_ascii simp del: utf8Valid.simps(2))
qed

lemma unquote_utf8: "unquote s = Some t \<Longrightarrow> utf8Valid t"
  by (auto simp: unquote_def unquote_body_utf8 split: list.splits if_splits)

section \<open>Unmarshalling a value's text\<close>

text \<open>
  \<open>json.Unmarshal(raw, &x)\<close> for the types the program decodes into. Each takes the value
  the variable holds before the call: \<open>null\<close> leaves it as it is. None is any error.
\<close>

definition valueText :: "bytes \<Rightarrow> bytes" where
  "valueText raw = rev (dropWhile isSpace (rev (dropWhile isSpace raw)))"

definition unmarshalString :: "bytes \<Rightarrow> bytes \<Rightarrow> bytes option" where
  "unmarshalString raw old =
     (if \<not> checkValid raw then None
      else
        (case valueText raw of
           [] \<Rightarrow> None
         | c # t \<Rightarrow>
             if c = CHR ''n'' then Some old
             else if c = CHR 0x22 then unquote (c # t)
             else None))"

definition unmarshalBool :: "bytes \<Rightarrow> bool \<Rightarrow> bool option" where
  "unmarshalBool raw old =
     (if \<not> checkValid raw then None
      else
        (case valueText raw of
           [] \<Rightarrow> None
         | c # t \<Rightarrow>
             if c = CHR ''n'' then Some old
             else if c = CHR ''t'' then Some True
             else if c = CHR ''f'' then Some False
             else None))"

definition unmarshalInt :: "bytes \<Rightarrow> int \<Rightarrow> int option" where
  "unmarshalInt raw old =
     (if \<not> checkValid raw then None
      else
        (case valueText raw of
           [] \<Rightarrow> None
         | c # t \<Rightarrow>
             if c = CHR ''n'' then Some old
             else if c = CHR ''-'' \<or> is_digit c then parseInt64 (c # t)
             else None))"

end
