(* ===== verification/Json_Decoder.thy ===== *)
theory Json_Decoder
  imports Json_Scan
begin

text \<open>
  The streaming \<open>json.Decoder\<close> over an in-memory reader: \<open>More\<close>, \<open>Token\<close>, \<open>Decode\<close> and
  \<open>InputOffset\<close>, with the token state and the stack of enclosing states that the type
  keeps. \<open>None\<close> stands for any error; every caller in the program gives up on the first
  one. On top of it the two strict object readers of the program are built:
  \<open>strictJSONObject\<close> here, \<open>parseCredentials\<close> in \<open>Credentials\<close>.
\<close>

datatype token_state =
    TokenTopValue | TokenArrayStart | TokenArrayValue | TokenArrayComma
  | TokenObjectStart | TokenObjectKey | TokenObjectColon | TokenObjectValue | TokenObjectComma

record decoder =
  d_rest :: bytes
  d_state :: token_state
  d_stack :: "token_state list"

datatype token = TDelim char | TString bytes | TValue bytes

definition newDecoder :: "bytes \<Rightarrow> decoder" where
  "newDecoder raw = \<lparr>d_rest = raw, d_state = TokenTopValue, d_stack = []\<rparr>"

definition inputOffset :: "bytes \<Rightarrow> decoder \<Rightarrow> nat" where
  "inputOffset raw d = length raw - length (d_rest d)"

definition dec_peek :: "decoder \<Rightarrow> (char \<times> decoder) option" where
  "dec_peek d =
     (case dropWhile isSpace (d_rest d) of
        [] \<Rightarrow> None
      | c # t \<Rightarrow> Some (c, d\<lparr>d_rest := c # t\<rparr>))"

definition dec_more :: "decoder \<Rightarrow> bool" where
  "dec_more d =
     (case dec_peek d of
        None \<Rightarrow> False
      | Some (c, _) \<Rightarrow> c \<noteq> CHR '']'' \<and> c \<noteq> CHR ''}'')"

definition tokenValueAllowed :: "token_state \<Rightarrow> bool" where
  "tokenValueAllowed s \<longleftrightarrow>
     s = TokenTopValue \<or> s = TokenArrayStart \<or> s = TokenArrayValue \<or> s = TokenObjectValue"

definition tokenValueEnd :: "decoder \<Rightarrow> decoder" where
  "tokenValueEnd d =
     (case d_state d of
        TokenArrayStart \<Rightarrow> d\<lparr>d_state := TokenArrayComma\<rparr>
      | TokenArrayValue \<Rightarrow> d\<lparr>d_state := TokenArrayComma\<rparr>
      | TokenObjectValue \<Rightarrow> d\<lparr>d_state := TokenObjectComma\<rparr>
      | _ \<Rightarrow> d)"

definition advance :: "decoder \<Rightarrow> token_state \<Rightarrow> decoder" where
  \<comment> \<open>\<open>dec.scanp++; dec.tokenState = s\<close>\<close>
  "advance d s = d\<lparr>d_rest := tl (d_rest d), d_state := s\<rparr>"

definition tokenPrepareForDecode :: "decoder \<Rightarrow> decoder option" where
  "tokenPrepareForDecode d =
     (case d_state d of
        TokenArrayComma \<Rightarrow>
          (case dec_peek d of
             Some (c, d') \<Rightarrow> if c = CHR '','' then Some (advance d' TokenArrayValue) else None
           | None \<Rightarrow> None)
      | TokenObjectColon \<Rightarrow>
          (case dec_peek d of
             Some (c, d') \<Rightarrow> if c = CHR '':'' then Some (advance d' TokenObjectValue) else None
           | None \<Rightarrow> None)
      | _ \<Rightarrow> Some d)"

definition dec_decode :: "decoder \<Rightarrow> (bytes \<times> decoder) option" where
  \<comment> \<open>\<open>Decode(&v)\<close>: the text of the value, which the caller unmarshals\<close>
  "dec_decode d =
     (case tokenPrepareForDecode d of
        None \<Rightarrow> None
      | Some d1 \<Rightarrow>
          if \<not> tokenValueAllowed (d_state d1) then None
          else
            (case readValue (d_rest d1) of
               None \<Rightarrow> None
             | Some (v, r) \<Rightarrow> Some (dropWhile isSpace v, tokenValueEnd (d1\<lparr>d_rest := r\<rparr>))))"

definition openDelim :: "decoder \<Rightarrow> token_state \<Rightarrow> decoder" where
  "openDelim d s = d\<lparr>d_rest := tl (d_rest d), d_state := s, d_stack := d_state d # d_stack d\<rparr>"

definition closeDelim :: "decoder \<Rightarrow> decoder option" where
  "closeDelim d =
     (case d_stack d of
        [] \<Rightarrow> None
      | s # r \<Rightarrow> Some (tokenValueEnd (d\<lparr>d_rest := tl (d_rest d), d_state := s, d_stack := r\<rparr>)))"

lemma dec_peek_Some:
  "dec_peek d = Some (c, d') \<Longrightarrow>
     d_rest d' = c # tl (d_rest d') \<and> length (d_rest d') \<le> length (d_rest d)
     \<and> d_state d' = d_state d \<and> d_stack d' = d_stack d"
  using length_dropWhile_le [of isSpace "d_rest d"]
  by (auto simp: dec_peek_def split: list.splits)

lemma dec_peek_tl_less:
  assumes "dec_peek d = Some (c, d')"
  shows "length (tl (d_rest d')) < length (d_rest d)"
proof -
  have "length (d_rest d') = Suc (length (tl (d_rest d')))"
    using dec_peek_Some [OF assms] by (metis length_Cons)
  then show ?thesis using dec_peek_Some [OF assms] by simp
qed

lemma dec_peek_advance_less:
  "dec_peek d = Some (c, d') \<Longrightarrow> length (d_rest (advance d' s)) < length (d_rest d)"
  by (simp add: advance_def del: length_tl) (rule dec_peek_tl_less)

function dec_token :: "decoder \<Rightarrow> (token \<times> decoder) option" where
  "dec_token d0 =
     (case dec_peek d0 of
        None \<Rightarrow> None
      | Some (c, d) \<Rightarrow>
          if c = CHR ''['' then
            (if tokenValueAllowed (d_state d)
             then Some (TDelim c, openDelim d TokenArrayStart) else None)
          else if c = CHR '']'' then
            (if d_state d = TokenArrayStart \<or> d_state d = TokenArrayComma
             then map_option (\<lambda>d'. (TDelim c, d')) (closeDelim d) else None)
          else if c = CHR ''{'' then
            (if tokenValueAllowed (d_state d)
             then Some (TDelim c, openDelim d TokenObjectStart) else None)
          else if c = CHR ''}'' then
            (if d_state d = TokenObjectStart \<or> d_state d = TokenObjectComma
             then map_option (\<lambda>d'. (TDelim c, d')) (closeDelim d) else None)
          else if c = CHR '':'' then
            (if d_state d = TokenObjectColon then dec_token (advance d TokenObjectValue) else None)
          else if c = CHR '','' then
            (if d_state d = TokenArrayComma then dec_token (advance d TokenArrayValue)
             else if d_state d = TokenObjectComma then dec_token (advance d TokenObjectKey)
             else None)
          else if c = CHR 0x22 \<and> (d_state d = TokenObjectStart \<or> d_state d = TokenObjectKey) then
            (case dec_decode (d\<lparr>d_state := TokenTopValue\<rparr>) of
               None \<Rightarrow> None
             | Some (v, d') \<Rightarrow>
                 (case unmarshalString v [] of
                    None \<Rightarrow> None
                  | Some x \<Rightarrow> Some (TString x, d'\<lparr>d_state := TokenObjectColon\<rparr>)))
          else if \<not> tokenValueAllowed (d_state d) then None
          else
            (case dec_decode d of
               None \<Rightarrow> None
             | Some (v, d') \<Rightarrow>
                 if c = CHR 0x22
                 then map_option (\<lambda>x. (TString x, d')) (unmarshalString v [])
                 else Some (TValue v, d')))"
  by pat_completeness auto
termination
  by (relation "measure (\<lambda>d. length (d_rest d))") (auto intro: dec_peek_advance_less)

declare dec_token.simps [simp del]

section \<open>Every token and every value consumes input\<close>

lemma tokenValueEnd_rest [simp]: "d_rest (tokenValueEnd d) = d_rest d"
  by (simp add: tokenValueEnd_def split: token_state.split)

lemma tokenPrepareForDecode_le:
  "tokenPrepareForDecode d = Some d' \<Longrightarrow> length (d_rest d') \<le> length (d_rest d)"
  by (auto simp: tokenPrepareForDecode_def less_imp_le dec_peek_advance_less
      split: token_state.splits option.splits if_splits)

lemma dec_decode_less:
  assumes "dec_decode d = Some (v, d')"
  shows "length (d_rest d') < length (d_rest d)"
proof -
  obtain d1 v' where "tokenPrepareForDecode d = Some d1"
    and "readValue (d_rest d1) = Some (v', d_rest d')"
    using assms by (auto simp: dec_decode_def split: option.splits if_splits)
  then show ?thesis
    using tokenPrepareForDecode_le readValue_shorter by (meson less_le_trans)
qed

lemma closeDelim_rest: "closeDelim d = Some d' \<Longrightarrow> d_rest d' = tl (d_rest d)"
  by (auto simp: closeDelim_def split: list.splits)

lemma dec_token_less: "dec_token d = Some (t, d') \<Longrightarrow> length (d_rest d') < length (d_rest d)"
proof (induction d rule: dec_token.induct)
  case (1 d0)
  obtain c d where p: "dec_peek d0 = Some (c, d)"
    using "1.prems" by (subst (asm) dec_token.simps) (auto split: option.splits)
  note le = dec_peek_Some [OF p] and tl = dec_peek_tl_less [OF p]
  have dec: "length (d_rest b) < length (d_rest d0)" if "dec_decode d = Some (v, b)" for v b
    using dec_decode_less [OF that] le by simp
  have key: "length (d_rest b) < length (d_rest d0)"
    if "dec_decode (d\<lparr>d_state := s\<rparr>) = Some (v, b)" for v b s
    using dec_decode_less [OF that] le by simp
  have adv: "dec_token (advance d s) = Some (t, d')
    \<Longrightarrow> (dec_token (advance d s) = Some (t, d') \<Longrightarrow> length (d_rest d') < length (d_rest (advance d s)))
    \<Longrightarrow> length (d_rest d') < length (d_rest d0)" for s
    using dec_peek_advance_less [OF p, of s] by simp
  show ?case
    using "1.prems" "1.IH" [OF p refl] tl
    apply (subst (asm) dec_token.simps)
    apply (auto simp: p openDelim_def closeDelim_rest
        split: if_splits option.splits dest: dec adv simp del: length_tl)
    using key by blast+
qed

section \<open>The strict object reader\<close>

datatype strict_error =
    InvalidJSON | ObjectRequired | InvalidField | UnexpectedField bytes | DuplicateField
  | ValueError | InvalidObjectClose | TrailingData

type_synonym raw_fields = "(bytes \<times> bytes) list"

definition requireJSONEOF :: "decoder \<Rightarrow> bool" where
  \<comment> \<open>\<open>Decode(&trailing)\<close> fails with \<open>io.EOF\<close>: only white space is left\<close>
  "requireJSONEOF d \<longleftrightarrow> tokenValueAllowed (d_state d) \<and> list_all isSpace (d_rest d)"

function strict_loop ::
  "(bytes \<Rightarrow> bool) \<Rightarrow> decoder \<Rightarrow> raw_fields \<Rightarrow> strict_error + raw_fields \<times> decoder" where
  "strict_loop allowed d fs =
     (if dec_more d then
        (case dec_token d of
           Some (TString key, d1) \<Rightarrow>
             if \<not> allowed key then Inl (UnexpectedField key)
             else if map_of fs key \<noteq> None then Inl DuplicateField
             else
               (case dec_decode d1 of
                  None \<Rightarrow> Inl ValueError
                | Some (v, d2) \<Rightarrow> strict_loop allowed d2 (fs @ [(key, v)]))
         | _ \<Rightarrow> Inl InvalidField)
      else Inr (fs, d))"
  by pat_completeness auto
termination
  by (relation "measure (\<lambda>(_, d, _). length (d_rest d))")
    (auto dest!: dec_token_less dec_decode_less)

declare strict_loop.simps [simp del]

definition strictJSONObject :: "bytes \<Rightarrow> (bytes \<Rightarrow> bool) \<Rightarrow> strict_error + raw_fields" where
  "strictJSONObject raw allowed =
     (if raw = [] \<or> \<not> utf8Valid raw then Inl InvalidJSON
      else
        (case dec_token (newDecoder raw) of
           None \<Rightarrow> Inl ObjectRequired
         | Some (t, d) \<Rightarrow>
             if t \<noteq> TDelim (CHR ''{'') then Inl ObjectRequired
             else
               (case strict_loop allowed d [] of
                  Inl e \<Rightarrow> Inl e
                | Inr (fs, d1) \<Rightarrow>
                    (case dec_token d1 of
                       None \<Rightarrow> Inl InvalidObjectClose
                     | Some (t1, d2) \<Rightarrow>
                         if t1 \<noteq> TDelim (CHR ''}'') then Inl InvalidObjectClose
                         else if inputOffset raw d2 \<noteq> length raw then Inl TrailingData
                         else if \<not> requireJSONEOF d2 then Inl TrailingData
                         else Inr fs))))"

definition decodeJSONString :: "bytes option \<Rightarrow> bytes option" where
  \<comment> \<open>a field that is absent from the map is a nil message, which does not unmarshal\<close>
  "decodeJSONString raw =
     (case raw of
        None \<Rightarrow> None
      | Some r \<Rightarrow>
          (case unmarshalString r [] of
             None \<Rightarrow> None
           | Some s \<Rightarrow> if utf8Valid s then Some s else None))"

subsection \<open>Arrays of strings\<close>

function splitElements :: "bytes \<Rightarrow> bytes list option" where
  \<comment> \<open>the element texts of an array, from after its opening bracket or a comma\<close>
  "splitElements s =
     (case readValue s of
        None \<Rightarrow> None
      | Some (v, r) \<Rightarrow>
          (case dropWhile isSpace r of
             [] \<Rightarrow> None
           | c # t \<Rightarrow>
               if c = CHR '','' then map_option ((#) v) (splitElements t)
               else if c = CHR '']'' then Some [v]
               else None))"
  by pat_completeness auto
termination
proof (relation "measure length", goal_cases)
  case 1
  show ?case by simp
next
  case (2 s vr v r c t)
  have "length (c # t) \<le> length r"
    using 2 length_dropWhile_le [of isSpace r] by metis
  moreover have "length r < length s"
    using 2 readValue_shorter [of s v r] by simp
  ultimately show ?case by simp
qed

declare splitElements.simps [simp del]

definition unmarshalStrings :: "bytes \<Rightarrow> bytes list option" where
  \<comment> \<open>\<open>json.Unmarshal\<close> into a nil slice of strings\<close>
  "unmarshalStrings raw =
     (if \<not> checkValid raw then None
      else
        (case valueText raw of
           [] \<Rightarrow> None
         | c # t \<Rightarrow>
             if c = CHR ''n'' then Some []
             else if c = CHR ''['' then
               (if hasPrefix (dropWhile isSpace t) '']'' then Some []
                else
                  (case splitElements t of
                     None \<Rightarrow> None
                   | Some es \<Rightarrow>
                       if list_all (\<lambda>e. unmarshalString e [] \<noteq> None) es
                       then Some (map (\<lambda>e. the (unmarshalString e [])) es)
                       else None))
             else None))"

section \<open>What the strict reader accepts\<close>

lemma strict_loop_fields:
  "strict_loop allowed d fs = Inr (fs', d')
    \<Longrightarrow> distinct (map fst fs) \<Longrightarrow> list_all (\<lambda>(k, _). allowed k) fs
    \<Longrightarrow> distinct (map fst fs') \<and> list_all (\<lambda>(k, _). allowed k) fs'"
proof (induction allowed d fs rule: strict_loop.induct)
  case (1 allowed d fs)
  show ?case
  proof (cases "dec_more d")
    case False
    then show ?thesis using "1.prems" by (simp add: strict_loop.simps [of allowed d])
  next
    case True
    then obtain key d1 v d2 where t: "dec_token d = Some (TString key, d1)"
      and k: "allowed key" "map_of fs key = None"
      and v: "dec_decode d1 = Some (v, d2)"
      and rec: "strict_loop allowed d2 (fs @ [(key, v)]) = Inr (fs', d')"
      using "1.prems"(1)
      by (auto simp: strict_loop.simps [of allowed d] split: option.splits token.splits if_splits)
    have "key \<notin> set (map fst fs)" using k(2) by (simp add: map_of_eq_None_iff)
    then show ?thesis
      using "1.IH" [OF True t refl refl _ _ v refl rec] k "1.prems"(2,3) by simp
  qed
qed

lemma strictJSONObject_sound:
  assumes "strictJSONObject raw allowed = Inr fs"
  shows "distinct (map fst fs) \<and> (\<forall>(k, v) \<in> set fs. allowed k) \<and> utf8Valid raw"
proof -
  obtain d d1 where "strict_loop allowed d [] = Inr (fs, d1)" and "utf8Valid raw"
    using assms
    by (auto simp: strictJSONObject_def split: if_splits option.splits sum.splits)
  then show ?thesis
    using strict_loop_fields [of allowed d "[]" fs d1] by (simp add: list_all_iff)
qed

lemma decodeJSONString_Some:
  "decodeJSONString r = Some s \<longleftrightarrow> (\<exists>x. r = Some x \<and> unmarshalString x [] = Some s)"
proof -
  have "unmarshalString x [] = Some s \<Longrightarrow> utf8Valid s" for x
    by (auto simp: unmarshalString_def unquote_utf8 split: if_splits list.splits)
  then show ?thesis
    by (auto simp: decodeJSONString_def split: option.splits)
qed

end
