(* ===== verification/Json_Encode.thy ===== *)
theory Json_Encode
  imports Json_Decoder
begin

text \<open>
  \<open>json.Marshal\<close> for the values the program writes (strings with the HTML-safe escaping,
  booleans, integers, flat structs), and the interface between writing and reading: a
  codec is an encoder whose output the scanner reads back as exactly one value and whose
  decoder is its inverse. A JSON object written with codecs is read back by
  \<open>strictJSONObject\<close>.
\<close>

section \<open>json.Marshal\<close>

definition hex_char :: "nat \<Rightarrow> char" where
  "hex_char n = (if n < 10 then char_of (48 + n) else char_of (87 + n))"

definition htmlSafe :: "char \<Rightarrow> bool" where
  "htmlSafe c \<longleftrightarrow>
     32 \<le> byte c \<and> c \<noteq> CHR 0x22 \<and> c \<noteq> CHR 0x5C \<and> c \<noteq> CHR ''<'' \<and> c \<noteq> CHR ''>'' \<and> c \<noteq> CHR ''&''"

definition escapeByte :: "char \<Rightarrow> bytes" where
  "escapeByte c =
     (if htmlSafe c then [c]
      else if c = CHR 0x5C \<or> c = CHR 0x22 then [CHR 0x5C, c]
      else if c = CHR 0x08 then [CHR 0x5C, CHR ''b'']
      else if c = CHR 0x0C then [CHR 0x5C, CHR ''f'']
      else if c = CHR 0x0A then [CHR 0x5C, CHR ''n'']
      else if c = CHR 0x0D then [CHR 0x5C, CHR ''r'']
      else if c = CHR 0x09 then [CHR 0x5C, CHR ''t'']
      else [CHR 0x5C, CHR ''u'', CHR ''0'', CHR ''0'', hex_char (byte c div 16),
            hex_char (byte c mod 16)])"

function escape :: "bytes \<Rightarrow> bytes" where
  "escape [] = []"
| "escape (c # t) =
     (if byte c < 128 then escapeByte c @ escape t
      else
        (case utf8_seq (c # t) of
           None \<Rightarrow> (CHR 0x5C # ''ufffd'') @ escape t
         | Some (r, w) \<Rightarrow>
             (if r = 8232 \<or> r = 8233 then CHR 0x5C # ''u202'' @ [hex_char (r mod 16)]
              else take w (c # t)) @ escape (drop (w - 1) t)))"
  by pat_completeness auto
termination
  by (relation "measure length") auto

definition marshalString :: "bytes \<Rightarrow> bytes" where
  "marshalString s = CHR 0x22 # escape s @ [CHR 0x22]"

definition marshalBool :: "bool \<Rightarrow> bytes" where
  "marshalBool b = (if b then ''true'' else ''false'')"

definition marshalInt :: "int \<Rightarrow> bytes" where
  "marshalInt i = itoa i"

fun membersText :: "raw_fields \<Rightarrow> bytes" where
  "membersText [] = []"
| "membersText [(k, v)] = marshalString k @ CHR '':'' # v"
| "membersText ((k, v) # m # ms) = marshalString k @ CHR '':'' # v @ CHR '','' # membersText (m # ms)"

definition objectText :: "raw_fields \<Rightarrow> bytes" where
  "objectText ms = CHR ''{'' # membersText ms @ ''}''"

lemma escape_ascii: "ascii s \<Longrightarrow> escape s = concat (map escapeByte s)"
  by (induction s) auto

section \<open>A value's text scans as one value\<close>

definition prefixed :: "bytes \<Rightarrow> (bytes \<times> bytes) option \<Rightarrow> (bytes \<times> bytes) option" where
  "prefixed v x = map_option (\<lambda>(w, r). (v @ w, r)) x"

lemma prefixed_Some [simp]: "prefixed v (Some (w, r)) = Some (v @ w, r)"
  by (simp add: prefixed_def)

lemma prefixed_simps [simp]:
  "prefixed [] x = x"
  "prefixed u (prefixed v x) = prefixed (u @ v) x"
  "map_option (\<lambda>(w, r). (c # w, r)) (prefixed v x) = prefixed (c # v) x"
  "map_option (\<lambda>(w, r). (c # w, r)) x = prefixed [c] x"
  by (cases x; auto simp: prefixed_def)+

lemma prefixed_eq_Some: "prefixed w x = Some (v, r) \<longleftrightarrow> (\<exists>u. x = Some (u, r) \<and> v = w @ u)"
  by (cases x) (auto simp: prefixed_def)

definition ends_value :: "bytes \<Rightarrow> bool" where
  "ends_value r \<longleftrightarrow>
     r = [] \<or> hd r = CHR '','' \<or> hd r = CHR ''}'' \<or> hd r = CHR '']'' \<or> isSpace (hd r)"

definition json_text :: "nat \<Rightarrow> bytes \<Rightarrow> bool" where
  \<comment> \<open>\<open>v\<close> is one value of nesting depth \<open>n\<close>, without white space around it\<close>
  "json_text n v \<longleftrightarrow>
     v \<noteq> [] \<and> \<not> isSpace (hd v) \<and> \<not> isSpace (last v) \<and>
     (\<forall>ps r. length ps + n \<le> maxNestingDepth \<longrightarrow> ends_value r \<longrightarrow>
        scan_value (BeginValue, ps) (v @ r) = prefixed v (scan_value (EndValue, ps) r))"

lemma json_textI:
  assumes "v \<noteq> []" "\<not> isSpace (hd v)" "\<not> isSpace (last v)"
    and "\<And>ps r. length ps + n \<le> maxNestingDepth \<Longrightarrow> ends_value r \<Longrightarrow>
      scan_value (BeginValue, ps) (v @ r) = prefixed v (scan_value (EndValue, ps) r)"
  shows "json_text n v"
  using assms by (simp add: json_text_def)

lemma json_text_scan:
  "json_text n v \<Longrightarrow> length ps + n \<le> maxNestingDepth \<Longrightarrow> ends_value r \<Longrightarrow>
     scan_value (BeginValue, ps) (v @ r) = prefixed v (scan_value (EndValue, ps) r)"
  by (simp add: json_text_def)

lemma ends_value_simps [simp]:
  "ends_value []" "ends_value (CHR '','' # r)" "ends_value (CHR ''}'' # r)" "ends_value (CHR '']'' # r)"
  "isSpace c \<Longrightarrow> ends_value (c # r)"
  by (simp_all add: ends_value_def)

lemma scan_value_EndTop [simp]: "scan_value (EndValue, []) r = Some ([], r)"
  by (cases r) (simp_all add: stateEndValue_def stateEndTop_def)

lemma json_text_readValue:
  "json_text n v \<Longrightarrow> n \<le> maxNestingDepth \<Longrightarrow> ends_value r \<Longrightarrow> readValue (v @ r) = Some (v, r)"
  by (simp add: json_text_def readValue_def prefixed_def)

subsection \<open>Strings\<close>

lemma scan_safe:
  "htmlSafe c \<Longrightarrow> scan_value (InString, ps) (c # r) = prefixed [c] (scan_value (InString, ps) r)"
  by (simp add: htmlSafe_def)

lemma hex_char_byte: "n < 16 \<Longrightarrow> byte (hex_char n) = (if n < 10 then 48 + n else 87 + n)"
  by (simp add: hex_char_def)

lemma is_hex_hex_char [simp]: "n < 16 \<Longrightarrow> is_hex (hex_char n)"
  by (simp add: byte_class hex_char_byte)

lemma digit_val_hex_char [simp]: "n < 16 \<Longrightarrow> digit_val (hex_char n) = Some n"
  by (auto simp: digit_val_def byte_class hex_char_byte)

lemma is_hex_0 [simp]: "is_hex (CHR ''0'')"
  by (simp add: byte_class)

lemma digit_val_0 [simp]: "digit_val (CHR ''0'') = Some 0"
  by (simp add: digit_val_def is_digit_def)

lemma scan_u00:
  assumes "is_hex a" "is_hex b"
  shows "scan_value (InString, ps) (CHR 0x5C # CHR ''u'' # CHR ''0'' # CHR ''0'' # a # b # r)
    = prefixed [CHR 0x5C, CHR ''u'', CHR ''0'', CHR ''0'', a, b] (scan_value (InString, ps) r)"
  using assms by (simp add: scanFail_def)

lemma scan_escapeByte:
  "byte c < 128 \<Longrightarrow> scan_value (InString, ps) (escapeByte c @ r)
     = prefixed (escapeByte c) (scan_value (InString, ps) r)"
proof -
  assume c: "byte c < 128"
  then have "byte c div 16 < 16" "byte c mod 16 < 16" by auto
  then show ?thesis
    by (simp add: escapeByte_def scan_safe scan_u00 del: scan_value.simps)
      (auto simp: htmlSafe_def)
qed

lemma scan_escape:
  "ascii s \<Longrightarrow> scan_value (InString, ps) (escape s @ CHR 0x22 # r)
     = prefixed (escape s @ [CHR 0x22]) (scan_value (EndValue, ps) r)"
  by (induction s) (simp_all add: scan_escapeByte del: scan_value.simps, simp)

lemma json_text_marshalString: "ascii s \<Longrightarrow> json_text 0 (marshalString s)"
proof (rule json_textI)
  fix ps r assume "ascii s"
  then show "scan_value (BeginValue, ps) (marshalString s @ r)
      = prefixed (marshalString s) (scan_value (EndValue, ps) r)"
    by (simp add: marshalString_def stateBeginValue_def isSpace_def scan_escape)
qed (simp_all add: marshalString_def isSpace_def)

subsection \<open>Numbers and booleans\<close>

lemma ends_value_not_number:
  "ends_value (c # r) \<Longrightarrow> \<not> is_digit c \<and> c \<noteq> CHR ''.'' \<and> c \<noteq> CHR ''e'' \<and> c \<noteq> CHR ''E''"
  by (auto simp: ends_value_def is_digit_def isSpace_def)

lemma scan_Int1:
  assumes "list_all is_digit ds" and "ends_value r"
  shows "scan_value (Int1, ps) (ds @ r) = prefixed ds (scan_value (EndValue, ps) r)"
  using assms(1)
proof (induction ds)
  case Nil
  show ?case
  proof (cases r)
    case Nil
    then show ?thesis by (simp add: state0_def stateEndValue_def is_digit_def)
  next
    case (Cons c cs)
    then show ?thesis using ends_value_not_number assms(2) by (simp add: state0_def)
  qed
next
  case (Cons d ds)
  then show ?case by simp
qed

lemma scan_Int0:
  assumes "ends_value r"
  shows "scan_value (Int0, ps) r = scan_value (EndValue, ps) r"
proof (cases r)
  case (Cons c cs)
  then show ?thesis using ends_value_not_number assms by (simp add: state0_def)
qed (simp add: state0_def stateEndValue_def)

lemma is_digit_not_special:
  "is_digit c \<Longrightarrow> \<not> isSpace c \<and> c \<noteq> CHR ''{'' \<and> c \<noteq> CHR ''['' \<and> c \<noteq> CHR 0x22 \<and> c \<noteq> CHR ''-''
     \<and> c \<noteq> CHR ''t'' \<and> c \<noteq> CHR ''f'' \<and> c \<noteq> CHR ''n''"
  by (auto simp: is_digit_def isSpace_def)

lemma last_utoa_digit: "is_digit (last (utoa n))"
  using utoa_digits [of n] utoa_nonempty [of n] by (auto simp: list_all_iff)

lemma digit_char_0: "digit_char 0 = CHR ''0''"
proof -
  have "byte (digit_char 0) = byte (CHR ''0'')" by (simp add: digit_char_byte)
  then show ?thesis by (simp only: byte_eq_iff)
qed

lemma utoa_zero [simp]: "utoa 0 = ''0''"
  by (simp add: utoa.simps digit_char_0)

lemma last_utoa_not_space: "\<not> isSpace (last (utoa n))"
  using last_utoa_digit is_digit_not_special by blast

lemma json_text_utoa: "json_text 0 (utoa n)"
proof -
  obtain c ds where u: "utoa n = c # ds" by (cases "utoa n") auto
  have d: "is_digit c" "list_all is_digit ds" using utoa_digits [of n] u by auto
  note sp = is_digit_not_special [OF d(1)]
  show ?thesis
  proof (rule json_textI)
    fix ps r assume r: "ends_value r"
    show "scan_value (BeginValue, ps) (utoa n @ r)
        = prefixed (utoa n) (scan_value (EndValue, ps) r)"
    proof (cases "n = 0")
      case True
      then show ?thesis using r by (simp add: stateBeginValue_def isSpace_def scan_Int0)
    next
      case False
      then have "c \<noteq> CHR ''0''" using utoa_hd_nonzero [of n] u by simp
      then show ?thesis
        using u d sp r by (simp add: stateBeginValue_def scan_Int1)
    qed
  qed (use u sp last_utoa_not_space [of n] in auto)
qed

lemma json_text_itoa: "json_text 0 (itoa i)"
proof (cases "i < 0")
  case False
  then show ?thesis by (simp add: itoa_def json_text_utoa)
next
  case True
  then have n: "0 < nat (- i)" by simp
  obtain c ds where u: "utoa (nat (- i)) = c # ds" by (cases "utoa (nat (- i))") auto
  have d: "is_digit c" "list_all is_digit ds" using utoa_digits [of "nat (- i)"] u by auto
  have c: "c \<noteq> CHR ''0''" using utoa_hd_nonzero [OF n] u by simp
  show ?thesis
  proof (rule json_textI)
    fix ps r assume "ends_value r"
    then show "scan_value (BeginValue, ps) (itoa i @ r)
        = prefixed (itoa i) (scan_value (EndValue, ps) r)"
      using True u d c by (simp add: itoa_def stateBeginValue_def isSpace_def scan_Int1)
  qed (use True last_utoa_not_space [of "nat (- i)"] in \<open>auto simp: itoa_def isSpace_def\<close>)
qed

lemma json_text_marshalInt: "json_text 0 (marshalInt i)"
  by (simp add: marshalInt_def json_text_itoa)

lemma json_text_marshalBool: "json_text 0 (marshalBool b)"
  by (rule json_textI) (auto simp: marshalBool_def stateBeginValue_def isSpace_def)

subsection \<open>Objects\<close>

definition members_ok :: "nat \<Rightarrow> raw_fields \<Rightarrow> bool" where
  "members_ok n ms \<longleftrightarrow> list_all (\<lambda>(k, v). ascii k \<and> json_text n v) ms"

lemma scan_key:
  "ascii k \<Longrightarrow> scan_value (BeginString, ParseObjectKey # ps) (marshalString k @ CHR '':'' # r)
     = prefixed (marshalString k @ '':'') (scan_value (BeginValue, ParseObjectValue # ps) r)"
proof -
  assume k: "ascii k"
  have "scan_value (EndValue, ParseObjectKey # ps) (CHR '':'' # r)
      = prefixed '':'' (scan_value (BeginValue, ParseObjectValue # ps) r)"
    by (simp add: stateEndValue_def isSpace_def)
  moreover have "scan_value (BeginString, ParseObjectKey # ps) (CHR 0x22 # t)
      = prefixed [CHR 0x22] (scan_value (InString, ParseObjectKey # ps) t)" for t
    by (simp add: stateBeginString_def isSpace_def)
  ultimately show ?thesis
    by (simp add: marshalString_def scan_escape [OF k] del: scan_value.simps)
qed

lemma scan_BeginStringOrEmpty_key:
  "scan_value (BeginStringOrEmpty, ParseObjectKey # ps) (marshalString k @ r)
     = scan_value (BeginString, ParseObjectKey # ps) (marshalString k @ r)"
  by (simp add: marshalString_def stateBeginString_def isSpace_def)

lemma scan_close_object:
  "scan_value (EndValue, ParseObjectValue # ps) (CHR ''}'' # r)
     = prefixed ''}'' (scan_value (EndValue, ps) r)"
  by (cases ps) (simp_all add: stateEndValue_def popParseState_def isSpace_def)

lemma scan_members:
  assumes "members_ok n ms" and "ms \<noteq> []" and "length ps + Suc n \<le> maxNestingDepth"
  shows "scan_value (BeginString, ParseObjectKey # ps) (membersText ms @ CHR ''}'' # r)
    = prefixed (membersText ms @ ''}'') (scan_value (EndValue, ps) r)"
  using assms(1,2)
proof (induction ms rule: membersText.induct)
  case 1
  then show ?case by simp
next
  case (2 k v)
  then have k: "ascii k" and v: "json_text n v" by (simp_all add: members_ok_def)
  show ?case
    using assms(3) json_text_scan [OF v, of "ParseObjectValue # ps" "CHR ''}'' # r"]
    by (simp add: scan_key [OF k] scan_close_object del: scan_value.simps)
next
  case (3 k v m ms)
  then have k: "ascii k" and v: "json_text n v" and ms: "members_ok n (m # ms)"
    by (simp_all add: members_ok_def)
  have comma: "scan_value (EndValue, ParseObjectValue # ps) (CHR '','' # t)
      = prefixed '','' (scan_value (BeginString, ParseObjectKey # ps) t)" for t
    by (simp add: stateEndValue_def isSpace_def)
  show ?case
    using assms(3) 3(1) [OF ms]
      json_text_scan [OF v, of "ParseObjectValue # ps" "CHR '','' # membersText (m # ms) @ CHR ''}'' # r"]
    by (simp add: scan_key [OF k] comma del: scan_value.simps)
qed

lemma json_text_objectText:
  assumes "members_ok n ms" and "Suc n \<le> m"
  shows "json_text m (objectText ms)"
proof (rule json_textI)
  fix ps :: "parse_state list" and r assume "length ps + m \<le> maxNestingDepth"
  then have d: "length ps + Suc n \<le> maxNestingDepth" using assms(2) by simp
  have brace: "scan_value (BeginValue, ps) (CHR ''{'' # t)
      = prefixed ''{'' (scan_value (BeginStringOrEmpty, ParseObjectKey # ps) t)" for t
    using d by (simp add: stateBeginValue_def isSpace_def pushParseState_def)
  show "scan_value (BeginValue, ps) (objectText ms @ r)
      = prefixed (objectText ms) (scan_value (EndValue, ps) r)"
  proof (cases ms)
    case Nil
    have "scan_value (BeginStringOrEmpty, ParseObjectKey # ps) (CHR ''}'' # r)
        = scan_value (EndValue, ParseObjectValue # ps) (CHR ''}'' # r)"
      by (simp add: isSpace_def)
    then show ?thesis
      using Nil brace by (simp add: objectText_def scan_close_object del: scan_value.simps)
  next
    case (Cons p q)
    obtain k v where p: "p = (k, v)" by (cases p)
    have "\<exists>t. membersText ms = marshalString k @ t"
      using Cons p by (cases q) auto
    then have "scan_value (BeginStringOrEmpty, ParseObjectKey # ps) (membersText ms @ CHR ''}'' # r)
        = scan_value (BeginString, ParseObjectKey # ps) (membersText ms @ CHR ''}'' # r)"
      using scan_BeginStringOrEmpty_key by fastforce
    then show ?thesis
      using scan_members [OF assms(1) _ d, of r] Cons brace by (simp add: objectText_def del: scan_value.simps)
  qed
qed (simp_all add: objectText_def isSpace_def)

end
