(* ===== verification/Json_Codec.thy ===== *)
theory Json_Codec
  imports Json_Encode
begin

text \<open>
  The contract between writing and reading JSON as a locale: what an encoder produces is
  scanned as one value and decoded to the value it was made from. Strings, booleans and
  64-bit integers satisfy it. An object whose members are codec texts is read back by
  \<open>strictJSONObject\<close> field by field.
\<close>

section \<open>A value that was read passes the validity check\<close>

definition wf_scanner :: "scanner \<Rightarrow> bool" where
  "wf_scanner s \<longleftrightarrow> (fst s = BeginValueOrEmpty \<longrightarrow> snd s \<noteq> [])"

lemmas scan_state_defs =
  stateEndTop_def stateEndValue_def stateBeginValue_def stateBeginString_def state0_def
  stateESign_def pushParseState_def popParseState_def scanFail_def

lemma wf_scanner_step:
  assumes "wf_scanner s"
  shows "wf_scanner (fst (scan1 s c))"
proof (cases s)
  case (Pair st ps)
  then show ?thesis
    using assms
    by (cases st)
      (auto simp: wf_scanner_def scan_state_defs split: list.splits parse_state.splits if_splits)
qed

lemma scan1_end_EndTop: "snd (scan1 s (CHR '' '')) = ScanEnd \<Longrightarrow> fst (fst (scan1 s (CHR '' ''))) = EndTop"
proof (cases s)
  case (Pair st ps)
  assume "snd (scan1 s (CHR '' '')) = ScanEnd"
  with Pair show ?thesis
    by (cases st)
      (auto simp: scan_state_defs isSpace_def is_digit_def
        split: list.splits parse_state.splits if_splits)
qed

lemma scan1_end_space:
  "wf_scanner s \<Longrightarrow> snd (scan1 s c) = ScanEnd \<Longrightarrow> snd (scan1 s (CHR '' '')) = ScanEnd"
proof (cases s)
  case (Pair st ps)
  assume "wf_scanner s" "snd (scan1 s c) = ScanEnd"
  with Pair show ?thesis
    by (cases st)
      (auto simp: wf_scanner_def scan_state_defs isSpace_def is_digit_def
        split: list.splits parse_state.splits if_splits)
qed

definition closes :: "scan_code \<Rightarrow> bool" where
  "closes code \<longleftrightarrow> code = ScanEndObject \<or> code = ScanEndArray"

lemma closes_simps [simp]:
  "\<not> closes ScanContinue" "\<not> closes ScanBeginLiteral" "\<not> closes ScanBeginObject"
  "\<not> closes ScanObjectKey" "\<not> closes ScanObjectValue" "closes ScanEndObject"
  "\<not> closes ScanBeginArray" "\<not> closes ScanArrayValue" "closes ScanEndArray"
  "\<not> closes ScanSkipSpace" "\<not> closes ScanEnd" "\<not> closes ScanError"
  by (simp_all add: closes_def)

lemma stateEndValue_close:
  "closes (snd (stateEndValue ps c)) \<Longrightarrow> snd (fst (stateEndValue ps c)) = []
    \<Longrightarrow> fst (fst (stateEndValue ps c)) = EndTop"
  by (auto simp: stateEndValue_def stateEndTop_def scanFail_def popParseState_def
      split: list.splits parse_state.splits if_splits)

lemma no_close:
  "\<not> closes (snd (stateBeginValue ps c))" "\<not> closes (snd (stateBeginString ps c))"
  "\<not> closes (snd (stateESign ps c))" "\<not> closes (snd (stateEndTop c))"
  "\<not> closes (snd (scanFail ps))"
  by (simp_all add: stateBeginValue_def stateBeginString_def stateESign_def stateEndTop_def
      scanFail_def pushParseState_def)

lemma state0_close:
  "closes (snd (state0 ps c)) \<Longrightarrow> snd (fst (state0 ps c)) = [] \<Longrightarrow> fst (fst (state0 ps c)) = EndTop"
  by (auto simp: state0_def stateEndValue_close split: if_splits)

lemma scan1_close_EndTop:
  "closes (snd (scan1 s c)) \<Longrightarrow> snd (fst (scan1 s c)) = [] \<Longrightarrow> fst (fst (scan1 s c)) = EndTop"
proof (cases s)
  case (Pair st ps)
  assume "closes (snd (scan1 s c))" "snd (fst (scan1 s c)) = []"
  with Pair show ?thesis
    by (cases st)
      (simp_all add: no_close stateEndValue_close state0_close split: if_splits list.splits)
qed

lemma check_loop_Nil_iff:
  "check_loop s [] \<longleftrightarrow>
     fst s \<noteq> StepError \<and> (fst s = EndTop \<or> fst (fst (scan1 s (CHR '' ''))) = EndTop)"
  by (cases "fst s") simp_all

lemma check_loop_Nil_end: "snd (scan1 s (CHR '' '')) = ScanEnd \<Longrightarrow> check_loop s []"
proof -
  assume e: "snd (scan1 s (CHR '' '')) = ScanEnd"
  then have "fst s \<noteq> StepError" by (cases s) auto
  then show ?thesis using scan1_end_EndTop [OF e] check_loop_Nil_iff by blast
qed

lemma scan_value_check:
  "scan_value s cs = Some (v, r) \<Longrightarrow> wf_scanner s \<Longrightarrow> check_loop s v"
proof (induction s cs arbitrary: v r rule: scan_value.induct)
  case (1 s)
  then show ?case by (auto simp: check_loop_Nil_end split: if_splits simp del: check_loop.simps)
next
  case (2 s c cs)
  obtain s' code where sc: "scan1 s c = (s', code)" by (cases "scan1 s c")
  have wf: "wf_scanner s'" using wf_scanner_step [OF "2.prems"(2), of c] sc by simp
  consider (fin) "code = ScanEnd" "v = []"
    | (close) "code = ScanEndObject \<or> code = ScanEndArray" "snd s' = []" "v = [c]"
    | (go) v' where "code \<noteq> ScanEnd" "\<not> ((code = ScanEndObject \<or> code = ScanEndArray) \<and> snd s' = [])"
        "code \<noteq> ScanError" "v = c # v'" "scan_value s' cs = Some (v', r)"
    using "2.prems"(1) by (auto simp: sc prefixed_eq_Some split: if_splits)
  then show ?case
  proof cases
    case fin
    then show ?thesis
      using check_loop_Nil_end scan1_end_space [OF "2.prems"(2), of c] sc by simp
  next
    case close
    then have "fst s' = EndTop" using scan1_close_EndTop [of s c] sc by (simp add: closes_def)
    with close sc show ?thesis by auto
  next
    case go
    then have "check_loop s' v'" using "2.IH" [OF sc [symmetric] refl] wf by auto
    with go sc show ?thesis by simp
  qed
qed

lemma readValue_checkValid: "readValue s = Some (v, r) \<Longrightarrow> checkValid v"
  unfolding readValue_def checkValid_def by (rule scan_value_check) (auto simp: wf_scanner_def)

section \<open>Decoding inverts encoding\<close>

lemma valueText_trim:
  assumes "v \<noteq> []" "\<not> isSpace (hd v)" "\<not> isSpace (last v)"
  shows "valueText v = v"
proof -
  have "dropWhile isSpace v = v" using assms by (cases v) auto
  moreover have "dropWhile isSpace (rev v) = rev v"
    using assms by (cases "rev v") (auto simp: hd_rev [symmetric])
  ultimately show ?thesis by (simp add: valueText_def)
qed

lemma json_text_valid:
  assumes "json_text n v" and "n \<le> maxNestingDepth"
  shows "checkValid v \<and> valueText v = v"
  using json_text_readValue [OF assms, of "[]"] readValue_checkValid [of v v "[]"] assms(1)
  by (simp add: json_text_def valueText_trim)

lemma unquote_escapeByte:
  assumes "byte c < 128"
  shows "unquote_body (escapeByte c @ t) = map_option ((#) c) (unquote_body t)"
proof -
  have u: "unquote_body (CHR 0x5C # ''u00'' @ hex_char (byte c div 16) # hex_char (byte c mod 16) # t)
      = map_option ((#) c) (unquote_body t)"
  proof -
    have "byte c div 16 < 16" "byte c mod 16 < 16" using assms by auto
    then have "getu4 (CHR 0x5C # ''u00'' @ hex_char (byte c div 16) # hex_char (byte c mod 16) # t)
        = Some (byte c)"
      by (simp add: getu4_def)
    moreover have "\<not> isSurrogate (byte c)" using assms by (simp add: isSurrogate_def)
    moreover have "encodeRune (byte c) = [c]"
      using assms by (simp add: encodeRune_def validRune_def)
    ultimately show ?thesis
      by (subst unquote_body.simps) (simp add: map_option_case cong: option.case_cong)
  qed
  show ?thesis
    using u assms
    by (auto simp: escapeByte_def htmlSafe_def unquote_body.simps(2) unescape1_def)
qed

lemma unquote_escape: "ascii s \<Longrightarrow> unquote_body (escape s) = Some s"
  by (induction s) (simp_all add: unquote_escapeByte)

lemma unquote_marshalString: "ascii s \<Longrightarrow> unquote (marshalString s) = Some s"
  by (simp add: unquote_def marshalString_def unquote_escape)

section \<open>The codec contract\<close>

locale json_codec =
  fixes enc :: "'a \<Rightarrow> bytes"
    and dec :: "bytes \<Rightarrow> 'a option"
    and wf :: "'a \<Rightarrow> bool"
    and depth :: nat
  assumes enc_text: "wf x \<Longrightarrow> json_text depth (enc x)"
    and enc_ascii: "wf x \<Longrightarrow> ascii (enc x)"
    and dec_enc: "wf x \<Longrightarrow> dec (enc x) = Some x"
    and depth_le: "depth \<le> maxNestingDepth"
begin

lemma read_enc: "wf x \<Longrightarrow> ends_value r \<Longrightarrow> readValue (enc x @ r) = Some (enc x, r)"
  using json_text_readValue enc_text depth_le by blast

lemma enc_valid: "wf x \<Longrightarrow> checkValid (enc x)"
  using json_text_valid enc_text depth_le by blast

lemma enc_inj: "wf x \<Longrightarrow> wf y \<Longrightarrow> enc x = enc y \<Longrightarrow> x = y"
  using dec_enc by (metis option.inject)

lemma read_decodes:
  "wf x \<Longrightarrow> ends_value r \<Longrightarrow> readValue (enc x @ r) = Some (v, s) \<Longrightarrow> dec v = Some x"
  by (auto simp: read_enc dec_enc)

end

lemma ascii_escapeByte: "byte c < 128 \<Longrightarrow> ascii (escapeByte c)"
proof -
  assume c: "byte c < 128"
  then have "byte c div 16 < 16" "byte c mod 16 < 16" by auto
  then have "byte (hex_char (byte c div 16)) < 128" "byte (hex_char (byte c mod 16)) < 128"
    by (auto simp: hex_char_byte)
  with c show ?thesis by (simp add: escapeByte_def)
qed

lemma ascii_marshalString: "ascii s \<Longrightarrow> ascii (marshalString s)"
proof -
  assume "ascii s"
  then have "ascii (escape s)"
    by (induction s) (simp_all add: ascii_escapeByte)
  then show ?thesis by (simp add: marshalString_def)
qed

lemma ascii_utoa: "ascii (utoa n)"
  using utoa_digits [of n] by (auto simp: ascii_def list_all_iff is_digit_def)

lemma ascii_itoa: "ascii (itoa i)"
  by (simp add: itoa_def ascii_utoa)

interpretation str: json_codec marshalString "\<lambda>r. unmarshalString r old" ascii 0
proof unfold_locales
  fix x assume x: "ascii x"
  then show "json_text 0 (marshalString x)" by (rule json_text_marshalString)
  then have "checkValid (marshalString x)" "valueText (marshalString x) = marshalString x"
    using json_text_valid by auto
  then show "unmarshalString (marshalString x) old = Some x"
    using unquote_marshalString [OF x] by (simp add: unmarshalString_def marshalString_def)
qed (simp_all add: ascii_marshalString)

interpretation int: json_codec marshalInt "\<lambda>r. unmarshalInt r old"
  "\<lambda>i. - (2 ^ 63) \<le> i \<and> i < 2 ^ 63" 0
proof unfold_locales
  fix x :: int assume x: "- (2 ^ 63) \<le> x \<and> x < 2 ^ 63"
  show "json_text 0 (marshalInt x)" by (rule json_text_marshalInt)
  then have v: "checkValid (marshalInt x)" "valueText (marshalInt x) = marshalInt x"
    using json_text_valid by auto
  obtain c t where ct: "marshalInt x = c # t" "c = CHR ''-'' \<or> is_digit c"
  proof (cases "x < 0")
    case False
    obtain c t where "utoa (nat x) = c # t" by (cases "utoa (nat x)") auto
    moreover from this have "is_digit c" using utoa_digits [of "nat x"] by simp
    ultimately show ?thesis using that False by (simp add: marshalInt_def itoa_def)
  qed (auto simp: marshalInt_def itoa_def intro: that)
  then have "c \<noteq> CHR ''n''" by (auto simp: is_digit_def)
  moreover have "parseInt64 (marshalInt x) = Some x"
    using x parseInt64_itoa by (simp add: marshalInt_def)
  ultimately show "unmarshalInt (marshalInt x) old = Some x"
    using v ct by (auto simp: unmarshalInt_def)
qed (simp_all add: marshalInt_def ascii_itoa)

interpretation bool: json_codec marshalBool "\<lambda>r. unmarshalBool r old" "\<lambda>_. True" 0
proof unfold_locales
  fix x
  show "json_text 0 (marshalBool x)" by (rule json_text_marshalBool)
  then have "checkValid (marshalBool x)" "valueText (marshalBool x) = marshalBool x"
    using json_text_valid by auto
  then show "unmarshalBool (marshalBool x) old = Some x"
    by (simp add: unmarshalBool_def marshalBool_def split: if_splits)
qed (simp_all add: marshalBool_def)

end
