(* ===== verification/Json_Object.thy ===== *)
theory Json_Object
  imports Json_Codec
begin

text \<open>
  \<open>strictJSONObject\<close> on an object that was written without superfluous white space: the
  object is accepted with exactly its members when every key is allowed and no key
  occurs twice, and refused with the error of the first offending member otherwise.
\<close>

section \<open>Single decoder steps on written text\<close>

lemma readValue_string: "ascii k \<Longrightarrow> readValue (marshalString k @ r) = Some (marshalString k, r)"
  by (simp add: readValue_def marshalString_def stateBeginValue_def isSpace_def scan_escape)

lemma marshalString_Cons: "marshalString k = CHR 0x22 # escape k @ [CHR 0x22]"
  by (simp add: marshalString_def)

lemma isSpace_quote [simp]: "\<not> isSpace (CHR 0x22)"
  and isSpace_comma [simp]: "\<not> isSpace (CHR '','')"
  and isSpace_close [simp]: "\<not> isSpace (CHR ''}'')"
  and isSpace_colon [simp]: "\<not> isSpace (CHR '':'')"
  and isSpace_open [simp]: "\<not> isSpace (CHR ''{'')"
  by (simp_all add: isSpace_def)

lemma dec_peek_Cons:
  "\<not> isSpace c \<Longrightarrow>
     dec_peek \<lparr>d_rest = c # t, d_state = s, d_stack = st\<rparr>
       = Some (c, \<lparr>d_rest = c # t, d_state = s, d_stack = st\<rparr>)"
  by (simp add: dec_peek_def)

lemma dec_decode_key:
  assumes "ascii k"
  shows "dec_decode \<lparr>d_rest = marshalString k @ r, d_state = TokenTopValue, d_stack = st\<rparr>
    = Some (marshalString k, \<lparr>d_rest = r, d_state = TokenTopValue, d_stack = st\<rparr>)"
proof -
  have "dropWhile isSpace (marshalString k) = marshalString k"
    by (simp add: marshalString_def)
  then show ?thesis
    using readValue_string [OF assms, of r]
    by (simp add: dec_decode_def tokenPrepareForDecode_def tokenValueAllowed_def tokenValueEnd_def)
qed

lemma dec_token_key:
  assumes "ascii k" and "s = TokenObjectStart \<or> s = TokenObjectKey"
  shows "dec_token \<lparr>d_rest = marshalString k @ r, d_state = s, d_stack = st\<rparr>
    = Some (TString k, \<lparr>d_rest = r, d_state = TokenObjectColon, d_stack = st\<rparr>)"
proof -
  have p: "dec_peek \<lparr>d_rest = marshalString k @ r, d_state = s, d_stack = st\<rparr>
      = Some (CHR 0x22, \<lparr>d_rest = marshalString k @ r, d_state = s, d_stack = st\<rparr>)"
    by (simp add: dec_peek_def marshalString_def)
  show ?thesis
    using assms(2)
    by (subst dec_token.simps)
      (auto simp: p dec_decode_key [OF assms(1)] str.dec_enc [OF assms(1)])
qed

lemma dec_token_comma_key:
  assumes "ascii k"
  shows "dec_token \<lparr>d_rest = CHR '','' # marshalString k @ r, d_state = TokenObjectComma, d_stack = st\<rparr>
    = Some (TString k, \<lparr>d_rest = r, d_state = TokenObjectColon, d_stack = st\<rparr>)"
  by (subst dec_token.simps)
    (simp add: dec_peek_Cons advance_def dec_token_key [OF assms])

lemma dec_token_open:
  "dec_token \<lparr>d_rest = CHR ''{'' # t, d_state = TokenTopValue, d_stack = st\<rparr>
    = Some (TDelim (CHR ''{''), \<lparr>d_rest = t, d_state = TokenObjectStart, d_stack = TokenTopValue # st\<rparr>)"
  by (subst dec_token.simps) (simp add: dec_peek_Cons openDelim_def tokenValueAllowed_def)

lemma dec_token_close:
  assumes "s = TokenObjectStart \<or> s = TokenObjectComma"
  shows "dec_token \<lparr>d_rest = ''}'', d_state = s, d_stack = TokenTopValue # st\<rparr>
    = Some (TDelim (CHR ''}''), \<lparr>d_rest = [], d_state = TokenTopValue, d_stack = st\<rparr>)"
  using assms
  by (subst dec_token.simps) (auto simp: dec_peek_Cons closeDelim_def tokenValueEnd_def)

lemma dec_decode_field:
  assumes "json_text n v" and "n \<le> maxNestingDepth" and "ends_value r"
  shows "dec_decode \<lparr>d_rest = CHR '':'' # v @ r, d_state = TokenObjectColon, d_stack = st\<rparr>
    = Some (v, \<lparr>d_rest = r, d_state = TokenObjectComma, d_stack = st\<rparr>)"
proof -
  have "dropWhile isSpace v = v"
    using assms(1) by (cases v) (auto simp: json_text_def)
  then show ?thesis
    using json_text_readValue [OF assms]
    by (simp add: dec_decode_def tokenPrepareForDecode_def tokenValueAllowed_def tokenValueEnd_def
        dec_peek_Cons advance_def)
qed

section \<open>The member loop\<close>

text \<open>The members with the separator that precedes them in the state the loop is in.\<close>

definition pending :: "raw_fields \<Rightarrow> token_state \<Rightarrow> bytes" where
  "pending ms s =
     (if s = TokenObjectComma \<and> ms \<noteq> [] then CHR '','' # membersText ms else membersText ms) @ ''}''"

lemma membersText_Cons:
  "membersText ((k, v) # ms) =
     marshalString k @ CHR '':'' # v @ (if ms = [] then [] else CHR '','' # membersText ms)"
  by (cases ms) simp_all

lemma pending_Cons:
  "pending ((k, v) # ms) s =
     (if s = TokenObjectComma then '','' else []) @ marshalString k @ CHR '':'' # v
       @ pending ms TokenObjectComma"
  by (cases ms) (simp_all add: pending_def membersText_Cons)

lemma ends_value_pending: "ends_value (pending ms TokenObjectComma)"
  by (cases ms) (simp_all add: pending_def ends_value_def)

fun accept_members :: "(bytes \<Rightarrow> bool) \<Rightarrow> raw_fields \<Rightarrow> raw_fields \<Rightarrow> strict_error + raw_fields" where
  \<comment> \<open>the abstract specification: what reading the members one by one should do\<close>
  "accept_members allowed fs [] = Inr fs"
| "accept_members allowed fs ((k, v) # ms) =
     (if \<not> allowed k then Inl (UnexpectedField k)
      else if k \<in> set (map fst fs) then Inl DuplicateField
      else accept_members allowed (fs @ [(k, v)]) ms)"

lemma strict_loop_members:
  assumes "members_ok n ms" and "n \<le> maxNestingDepth"
    and "s = TokenObjectStart \<or> s = TokenObjectComma"
  shows "strict_loop allowed
      \<lparr>d_rest = pending ms s, d_state = s, d_stack = [TokenTopValue]\<rparr> fs
    = (case accept_members allowed fs ms of
         Inl e \<Rightarrow> Inl e
       | Inr fs' \<Rightarrow> Inr (fs', \<lparr>d_rest = ''}'',
           d_state = (if ms = [] then s else TokenObjectComma), d_stack = [TokenTopValue]\<rparr>))"
  using assms(1,3)
proof (induction ms arbitrary: fs s)
  case Nil
  then show ?case
    by (subst strict_loop.simps) (simp add: dec_more_def dec_peek_Cons pending_def)
next
  case (Cons p ms)
  obtain k v where p: "p = (k, v)" by (cases p)
  have k: "ascii k" and v: "json_text n v" and ms: "members_ok n ms"
    using Cons.prems(1) p by (simp_all add: members_ok_def)
  define d where "d = \<lparr>d_rest = pending (p # ms) s, d_state = s, d_stack = [TokenTopValue]\<rparr>"
  have more: "dec_more d"
    by (auto simp: d_def p pending_Cons dec_more_def dec_peek_def marshalString_def)
  have tok: "dec_token d = Some (TString k, \<lparr>d_rest = CHR '':'' # v @ pending ms TokenObjectComma,
      d_state = TokenObjectColon, d_stack = [TokenTopValue]\<rparr>)"
    using Cons.prems(2) dec_token_comma_key [OF k] dec_token_key [OF k, of TokenObjectStart]
    by (auto simp: d_def p pending_Cons)
  note val = dec_decode_field [OF v assms(2) ends_value_pending [of ms], of "[TokenTopValue]"]
  show ?case
    unfolding d_def [symmetric]
    using Cons.IH [OF ms, of TokenObjectComma]
    by (subst strict_loop.simps)
      (auto simp: more tok val p map_of_eq_None_iff split: sum.splits if_splits)
qed

theorem strictJSONObject_objectText:
  assumes "members_ok n ms" and "n < maxNestingDepth" and "ascii (objectText ms)"
  shows "strictJSONObject (objectText ms) allowed = accept_members allowed [] ms"
proof -
  have "utf8Valid (objectText ms)" using assms(3) by (rule utf8Valid_ascii)
  moreover have "objectText ms = CHR ''{'' # pending ms TokenObjectStart"
    by (simp add: objectText_def pending_def)
  ultimately show ?thesis
    using strict_loop_members [OF assms(1), of TokenObjectStart allowed "[]"] assms(2)
    by (simp add: strictJSONObject_def newDecoder_def dec_token_open dec_token_close
        inputOffset_def requireJSONEOF_def tokenValueAllowed_def split: sum.splits)
qed

lemma accept_members_ok:
  assumes "distinct (map fst (fs @ ms))" and "\<forall>(k, v) \<in> set ms. allowed k"
  shows "accept_members allowed fs ms = Inr (fs @ ms)"
  using assms by (induction allowed fs ms rule: accept_members.induct) auto

lemma accept_members_duplicate:
  assumes "\<not> distinct (map fst (fs @ ms))" and "distinct (map fst fs)"
  shows "\<exists>e. accept_members allowed fs ms = Inl e"
  using assms by (induction allowed fs ms rule: accept_members.induct) auto

end
