(* ===== verification/Net_IP.thy ===== *)
theory Net_IP
  imports Utf8
begin

text \<open>
  The address parsing of packages \<open>net\<close> and \<open>net/netip\<close> that the validators call:
  \<open>net.ParseIP\<close> with both address families, \<open>IP.To4\<close>, \<open>IP.String\<close> on an IPv4 address,
  \<open>net.ParseCIDR\<close> and \<open>net.JoinHostPort\<close>; and \<open>validIPv4\<close> of \<open>constrained.go\<close>, with the
  exact set of strings it accepts. An address is the list of its bytes.
\<close>

section \<open>netip.ParseAddr\<close>

datatype addr = Addr4 "nat list" | Addr6 "nat list" bytes

fun v4_fields :: "char option \<Rightarrow> nat \<Rightarrow> nat \<Rightarrow> nat list \<Rightarrow> bytes \<Rightarrow> nat list option" where
  \<comment> \<open>previous character, value and number of digits of the current octet, finished octets\<close>
  "v4_fields prev val digLen fs [] = (if length fs < 3 then None else Some (fs @ [val]))"
| "v4_fields prev val digLen fs (c # cs) =
     (if is_digit c then
        (if digLen = 1 \<and> val = 0 then None
         else if 255 < val * 10 + (byte c - 48) then None
         else v4_fields (Some c) (val * 10 + (byte c - 48)) (Suc digLen) fs cs)
      else if c = CHR ''.'' then
        (if prev = None \<or> cs = [] \<or> prev = Some (CHR ''.'') then None
         else if length fs = 3 then None
         else v4_fields (Some c) 0 0 (fs @ [val]) cs)
      else None)"

definition parseIPv4Fields :: "bytes \<Rightarrow> nat list option" where
  "parseIPv4Fields s = v4_fields None 0 0 [] s"

definition hex_digit :: "char \<Rightarrow> nat option" where
  "hex_digit c = (if is_hex c then digit_val c else None)"

fun hex_group :: "nat \<Rightarrow> nat \<Rightarrow> bytes \<Rightarrow> (nat \<times> nat \<times> bytes) option" where
  "hex_group off acc [] = Some (off, acc, [])"
| "hex_group off acc (c # cs) =
     (case hex_digit c of
        None \<Rightarrow> Some (off, acc, c # cs)
      | Some d \<Rightarrow>
          if 3 < off then None
          else if 65535 < acc * 16 + d then None
          else hex_group (Suc off) (acc * 16 + d) cs)"

function v6_loop ::
  "nat list \<Rightarrow> nat option \<Rightarrow> bytes \<Rightarrow> (nat list \<times> nat option \<times> bytes) option" where
  \<comment> \<open>bytes written so far, position of the ellipsis, rest of the text\<close>
  "v6_loop ip ell s =
     (if 16 \<le> length ip then Some (ip, ell, s)
      else
        (case hex_group 0 0 s of
           None \<Rightarrow> None
         | Some (off, acc, r) \<Rightarrow>
             if off = 0 then None
             else if r \<noteq> [] \<and> hd r = CHR ''.'' then
               (if ell = None \<and> length ip \<noteq> 12 then None
                else if 16 < length ip + 4 then None
                else map_option (\<lambda>q. (ip @ q, ell, [])) (parseIPv4Fields s))
             else
               (case r of
                  [] \<Rightarrow> Some (ip @ [acc div 256, acc mod 256], ell, [])
                | c # t \<Rightarrow>
                    if c \<noteq> CHR '':'' then None
                    else
                      (case t of
                         [] \<Rightarrow> None
                       | x # u \<Rightarrow>
                           if x = CHR '':'' then
                             (if ell \<noteq> None then None
                              else if u = [] then
                                Some (ip @ [acc div 256, acc mod 256], Some (length ip + 2), [])
                              else
                                v6_loop (ip @ [acc div 256, acc mod 256]) (Some (length ip + 2)) u)
                           else v6_loop (ip @ [acc div 256, acc mod 256]) ell t))))"
  by pat_completeness auto
termination
  by (relation "measure (\<lambda>(ip, _, _). 16 - length ip)") auto

declare v6_loop.simps [simp del]

definition v6_finish :: "nat list \<Rightarrow> nat option \<Rightarrow> bytes \<Rightarrow> nat list option" where
  "v6_finish ip ell s =
     (if s \<noteq> [] then None
      else if length ip < 16 then
        (case ell of
           None \<Rightarrow> None
         | Some e \<Rightarrow> Some (take e ip @ replicate (16 - length ip) 0 @ drop e ip))
      else if ell \<noteq> None then None
      else Some ip)"

definition parseIPv6 :: "bytes \<Rightarrow> addr option" where
  "parseIPv6 txt =
     (let (s, zone, bad) =
        (case indexByte txt (CHR ''%'') of
           None \<Rightarrow> (txt, [], False)
         | Some i \<Rightarrow> (take i txt, drop (Suc i) txt, drop (Suc i) txt = []))
      in
      if bad then None
      else if hasPrefix s ''::'' then
        (if drop 2 s = [] then Some (Addr6 (replicate 16 0) zone)
         else
           (case v6_loop [] (Some 0) (drop 2 s) of
              None \<Rightarrow> None
            | Some (ip, ell, r) \<Rightarrow> map_option (\<lambda>a. Addr6 a zone) (v6_finish ip ell r)))
      else
        (case v6_loop [] None s of
           None \<Rightarrow> None
         | Some (ip, ell, r) \<Rightarrow> map_option (\<lambda>a. Addr6 a zone) (v6_finish ip ell r)))"

fun parse_addr_scan :: "bytes \<Rightarrow> bytes \<Rightarrow> addr option" where
  "parse_addr_scan s [] = None"
| "parse_addr_scan s (c # cs) =
     (if c = CHR ''.'' then map_option Addr4 (parseIPv4Fields s)
      else if c = CHR '':'' then parseIPv6 s
      else if c = CHR ''%'' then None
      else parse_addr_scan s cs)"

definition parseAddr :: "bytes \<Rightarrow> addr option" where
  "parseAddr s = parse_addr_scan s s"

section \<open>Package net\<close>

definition v4InV6Prefix :: "nat list" where
  "v4InV6Prefix = replicate 10 0 @ [255, 255]"

fun as16 :: "addr \<Rightarrow> nat list option" where
  \<comment> \<open>\<open>Zone() != ""\<close> is refused by the callers\<close>
  "as16 (Addr4 q) = Some (v4InV6Prefix @ q)"
| "as16 (Addr6 ip zone) = (if zone = [] then Some ip else None)"

fun bitLen :: "addr \<Rightarrow> nat" where
  "bitLen (Addr4 q) = 32"
| "bitLen (Addr6 ip zone) = 128"

definition parseIP :: "bytes \<Rightarrow> nat list option" where
  "parseIP s = Option.bind (parseAddr s) as16"

definition to4 :: "nat list \<Rightarrow> nat list option" where
  "to4 ip = (if length ip = 16 \<and> take 12 ip = v4InV6Prefix then Some (drop 12 ip) else None)"

fun dotted :: "nat list \<Rightarrow> bytes" where
  "dotted [] = []"
| "dotted [a] = utoa a"
| "dotted (a # b # q) = utoa a @ CHR ''.'' # dotted (b # q)"

fun dtoi :: "nat \<Rightarrow> nat \<Rightarrow> bytes \<Rightarrow> nat \<times> nat \<times> bool" where
  \<comment> \<open>value, number of bytes read, success\<close>
  "dtoi n i [] = (n, i, 0 < i)"
| "dtoi n i (c # cs) =
     (if is_digit c then
        (if 16777215 \<le> n * 10 + (byte c - 48) then (16777215, i, False)
         else dtoi (n * 10 + (byte c - 48)) (Suc i) cs)
      else (n, i, 0 < i))"

definition parseCIDR :: "bytes \<Rightarrow> nat list option" where
  "parseCIDR s =
     (case indexByte s (CHR ''/'') of
        None \<Rightarrow> None
      | Some i \<Rightarrow>
          (case parseAddr (take i s) of
             None \<Rightarrow> None
           | Some a \<Rightarrow>
               (case as16 a of
                  None \<Rightarrow> None
                | Some ip \<Rightarrow>
                    (let mask = drop (Suc i) s; (n, k, ok) = dtoi 0 0 mask in
                     if \<not> ok \<or> k \<noteq> length mask \<or> bitLen a < n then None else Some ip))))"

definition joinHostPort :: "bytes \<Rightarrow> bytes \<Rightarrow> bytes" where
  "joinHostPort host port =
     (if CHR '':'' \<in> set host \<or> CHR ''%'' \<in> set host
      then CHR ''['' # host @ '']:'' @ port
      else host @ CHR '':'' # port)"

definition validIPv4 :: "bytes \<Rightarrow> bool" where
  "validIPv4 value =
     (case parseIP value of
        None \<Rightarrow> False
      | Some ip \<Rightarrow> (case to4 ip of None \<Rightarrow> False | Some q \<Rightarrow> dotted q = value))"

section \<open>Shape of parsed addresses\<close>

abbreviation octets :: "nat list \<Rightarrow> bool" where
  "octets q \<equiv> list_all (\<lambda>b. b < 256) q"

lemma v4_fields_shape:
  "v4_fields prev val k fs s = Some q \<Longrightarrow> octets fs \<Longrightarrow> val < 256 \<Longrightarrow> length fs \<le> 3
    \<Longrightarrow> octets q \<and> length q = 4"
  by (induction prev val k fs s rule: v4_fields.induct) (auto split: if_splits)

lemma parseIPv4Fields_shape: "parseIPv4Fields s = Some q \<Longrightarrow> octets q \<and> length q = 4"
  using v4_fields_shape [of None 0 0 "[]" s q] by (simp add: parseIPv4Fields_def)

lemma hex_group_bound:
  "hex_group off acc s = Some (off', acc', r) \<Longrightarrow> acc \<le> 65535 \<Longrightarrow> acc' \<le> 65535"
  by (induction off acc s rule: hex_group.induct) (auto split: option.splits if_splits)

lemma v6_loop_shape:
  "v6_loop ip ell s = Some (ip', ell', r) \<Longrightarrow> octets ip \<Longrightarrow> length ip \<le> 16 \<Longrightarrow> even (length ip)
    \<Longrightarrow> octets ip' \<and> length ip' \<le> 16"
proof (induction ip ell s rule: v6_loop.induct)
  case (1 ip ell s)
  show ?case
  proof (cases "16 \<le> length ip")
    case True
    then show ?thesis using "1.prems" by (simp add: v6_loop.simps [of ip])
  next
    case False
    obtain off acc r' where h: "hex_group 0 0 s = Some (off, acc, r')"
      using "1.prems"(1) False by (auto simp: v6_loop.simps [of ip] split: option.splits)
    have acc: "acc \<le> 65535" using hex_group_bound [OF h] by simp
    show ?thesis
    proof (cases "r' \<noteq> [] \<and> hd r' = CHR ''.''")
      case True
      then obtain q where "parseIPv4Fields s = Some q" "ip' = ip @ q" "length ip + 4 \<le> 16"
        using "1.prems"(1) False h by (auto simp: v6_loop.simps [of ip] split: if_splits)
      then show ?thesis using parseIPv4Fields_shape "1.prems"(2) by auto
    next
      case dot: False
      define ip2 where "ip2 = ip @ [acc div 256, acc mod 256]"
      have ip2: "octets ip2" "length ip2 \<le> 16" "even (length ip2)"
        using acc "1.prems"(2,4) False by (auto simp: ip2_def)
      have off: "off \<noteq> 0"
      proof
        assume "off = 0"
        then show False using "1.prems"(1) False h by (simp add: v6_loop.simps [of ip])
      qed
      note IH = "1.IH" [OF False h refl refl off dot, folded ip2_def]
      show ?thesis
      proof (cases r')
        case Nil
        then show ?thesis
          using "1.prems"(1) False h off ip2 by (simp add: v6_loop.simps [of ip] ip2_def)
      next
        case (Cons c t)
        then obtain x u where t: "c = CHR '':''" "t = x # u"
          using "1.prems"(1) False h off dot
          by (auto simp: v6_loop.simps [of ip] split: list.splits if_splits)
        have eq: "v6_loop ip ell s =
            (if x = CHR '':'' then
               (if ell \<noteq> None then None
                else if u = [] then Some (ip2, Some (length ip + 2), [])
                else v6_loop ip2 (Some (length ip + 2)) u)
             else v6_loop ip2 ell t)"
          using False h off Cons t dot by (simp add: v6_loop.simps [of ip] ip2_def)
        consider (stop) "ip' = ip2"
          | (dbl) "x = CHR '':''" "ell = None" "u \<noteq> []" "v6_loop ip2 (Some (length ip + 2)) u = Some (ip', ell', r)"
          | (more) "x \<noteq> CHR '':''" "v6_loop ip2 ell t = Some (ip', ell', r)"
          using "1.prems"(1) unfolding eq by (auto split: if_splits)
        then show ?thesis
        proof cases
          case stop
          then show ?thesis using ip2 by simp
        next
          case dbl
          show ?thesis
            by (rule IH(1) [OF Cons _ t(2)]) (use dbl t ip2 in auto)
        next
          case more
          show ?thesis
            by (rule IH(2) [OF Cons _ t(2)]) (use more t ip2 in auto)
        qed
      qed
    qed
  qed
qed

lemma octets_take: "octets q \<Longrightarrow> octets (take n q)"
  by (auto simp: list_all_iff dest: in_set_takeD)

lemma octets_drop: "octets q \<Longrightarrow> octets (drop n q)"
  by (auto simp: list_all_iff dest: in_set_dropD)

lemma octets_replicate [simp]: "b < 256 \<Longrightarrow> octets (replicate n b)"
  by (simp add: list_all_iff)

lemma v6_finish_shape:
  "v6_finish ip ell s = Some a \<Longrightarrow> octets ip \<Longrightarrow> length ip \<le> 16 \<Longrightarrow> octets a \<and> length a = 16"
  by (auto simp: v6_finish_def octets_take octets_drop split: if_splits option.splits)

lemma parseIPv6_shape:
  assumes "parseIPv6 s = Some a"
  shows "\<exists>ip zone. a = Addr6 ip zone \<and> octets ip \<and> length ip = 16"
proof -
  have loop: "octets b \<and> length b = 16"
    if "v6_loop [] e t = Some (ip, ell, r)" "v6_finish ip ell r = Some b" for e t ip ell r b
    using v6_loop_shape [OF that(1)] v6_finish_shape [OF that(2)] by simp
  show ?thesis
    using assms
    by (auto simp: parseIPv6_def Let_def list_all_iff dest: loop
        split: option.splits if_splits prod.splits)
qed

lemma parse_addr_scan_shape:
  "parse_addr_scan s t = Some a \<Longrightarrow>
     (\<exists>q. a = Addr4 q \<and> octets q \<and> length q = 4)
     \<or> (\<exists>ip zone. a = Addr6 ip zone \<and> octets ip \<and> length ip = 16)"
  by (induction s t rule: parse_addr_scan.induct)
    (auto split: if_splits dest: parseIPv6_shape parseIPv4Fields_shape)

lemma parseIP_shape: "parseIP s = Some ip \<Longrightarrow> octets ip \<and> length ip = 16"
  by (auto simp: parseIP_def parseAddr_def v4InV6Prefix_def
      dest!: parse_addr_scan_shape split: bind_splits if_splits)

lemma to4_shape: "octets ip \<Longrightarrow> to4 ip = Some q \<Longrightarrow> octets q \<and> length q = 4"
  by (auto simp: to4_def octets_drop split: if_splits)

section \<open>The strings that validIPv4 accepts\<close>

lemma utoa_small:
  "n < 256 \<Longrightarrow> utoa n =
     (if n < 10 then [digit_char n]
      else if n < 100 then [digit_char (n div 10), digit_char (n mod 10)]
      else [digit_char (n div 100), digit_char (n div 10 mod 10), digit_char (n mod 10)])"
  by (auto simp: utoa.simps [of n] utoa.simps [of "n div 10"] utoa.simps [of "n div 100"]
      div_mult2_eq [symmetric])

lemma v4_fields_octet:
  assumes "n < 256"
  shows "\<exists>k p. p \<noteq> CHR ''.'' \<and>
    v4_fields prev 0 0 fs (utoa n @ r) = v4_fields (Some p) n k fs r"
proof -
  have dig: "digit_char d \<noteq> CHR ''.''" if "d < 10" for d
    using is_digit_digit_char [OF that] by (auto simp: is_digit_def)
  have last: "digit_char (n mod 10) \<noteq> CHR ''.''" by (rule dig) simp
  consider "n < 10" | "10 \<le> n" "n < 100" | "100 \<le> n" by linarith
  then show ?thesis
  proof cases
    case 1
    then show ?thesis using assms dig [of n] by (auto simp: utoa_small digit_char_byte)
  next
    case 2
    then have "n div 10 < 10" "n div 10 \<noteq> 0" by auto
    with 2 show ?thesis using assms last by (auto simp: utoa_small digit_char_byte)
  next
    case 3
    then have "n div 100 < 10" "n div 100 \<noteq> 0" using assms by auto
    moreover have "n div 100 * 10 + n div 10 mod 10 = n div 10"
      using div_mult_mod_eq [of "n div 10" 10] by (simp add: div_mult2_eq [symmetric])
    moreover have "n div 10 \<le> 255" using assms by auto
    ultimately show ?thesis using 3 assms last
      by (auto simp: utoa_small digit_char_byte)
  qed
qed

lemma v4_fields_octet_dot:
  assumes "n < 256" and "r \<noteq> []" and "length fs < 3"
  shows "v4_fields prev 0 0 fs (utoa n @ CHR ''.'' # r)
    = v4_fields (Some (CHR ''.'')) 0 0 (fs @ [n]) r"
proof -
  obtain k p where p: "p \<noteq> CHR ''.''"
    and e: "v4_fields prev 0 0 fs (utoa n @ CHR ''.'' # r)
      = v4_fields (Some p) n k fs (CHR ''.'' # r)"
    using v4_fields_octet [OF assms(1), of prev fs "CHR ''.'' # r"] by auto
  show ?thesis unfolding e using assms(2,3) p by (simp add: is_digit_def)
qed

lemma v4_fields_octet_end:
  assumes "n < 256" and "length fs = 3"
  shows "v4_fields prev 0 0 fs (utoa n) = Some (fs @ [n])"
proof -
  obtain k p where e: "v4_fields prev 0 0 fs (utoa n @ []) = v4_fields (Some p) n k fs []"
    using v4_fields_octet [OF assms(1), of prev fs "[]"] by auto
  show ?thesis using e assms(2) by simp
qed

lemma parseIPv4Fields_dotted:
  assumes "a < 256" "b < 256" "c < 256" "d < 256"
  shows "parseIPv4Fields (dotted [a, b, c, d]) = Some [a, b, c, d]"
  using assms
  by (simp add: parseIPv4Fields_def v4_fields_octet_dot v4_fields_octet_end)

lemma parse_addr_scan_digits:
  "list_all is_digit ds \<Longrightarrow> parse_addr_scan s (ds @ t) = parse_addr_scan s t"
  by (induction ds) (auto simp: is_digit_def)

lemma parseIP_dotted:
  assumes "a < 256" "b < 256" "c < 256" "d < 256"
  shows "parseIP (dotted [a, b, c, d]) = Some (v4InV6Prefix @ [a, b, c, d])"
proof -
  have "parse_addr_scan s (dotted [a, b, c, d]) = map_option Addr4 (parseIPv4Fields s)" for s
    by (simp add: parse_addr_scan_digits utoa_digits)
  then show ?thesis
    by (simp only: parseIP_def parseAddr_def parseIPv4Fields_dotted [OF assms]) simp
qed

lemma to4_mapped [simp]: "length q = 4 \<Longrightarrow> to4 (v4InV6Prefix @ q) = Some q"
  by (simp add: to4_def v4InV6Prefix_def)

lemma validIPv4_iff:
  "validIPv4 s \<longleftrightarrow>
     (\<exists>a b c d. a < 256 \<and> b < 256 \<and> c < 256 \<and> d < 256 \<and> s = dotted [a, b, c, d])"
proof
  assume "validIPv4 s"
  then obtain ip q where ip: "parseIP s = Some ip" "to4 ip = Some q" "dotted q = s"
    by (auto simp: validIPv4_def split: option.splits)
  then have "octets q \<and> length q = 4" using parseIP_shape to4_shape by blast
  then obtain a b c d where "q = [a, b, c, d]" "a < 256" "b < 256" "c < 256" "d < 256"
    by (auto simp: length_Suc_conv numeral_eq_Suc)
  with ip(3) show "\<exists>a b c d. a < 256 \<and> b < 256 \<and> c < 256 \<and> d < 256 \<and> s = dotted [a, b, c, d]"
    by blast
next
  assume "\<exists>a b c d. a < 256 \<and> b < 256 \<and> c < 256 \<and> d < 256 \<and> s = dotted [a, b, c, d]"
  then show "validIPv4 s"
    by (auto simp: validIPv4_def parseIP_dotted simp del: dotted.simps)
qed

end
