(* ===== verification/Constrained_Failure.thy ===== *)
theory Constrained_Failure
  imports Json_Object
begin

text \<open>
  The failure vocabulary of constrained mode (\<open>constrained.go\<close>): the classes, the detail
  strings, \<open>constrainedFailureReason\<close> and the two JSON documents that are written to the
  result descriptor. A Go \<open>constrainedFailureReason{}\<close>, which \<open>empty()\<close> tests for, is
  \<open>None\<close>; every other reason is \<open>Some\<close>.
\<close>

section \<open>Limits\<close>

definition constrainedSchema :: bytes where
  "constrainedSchema = ''pia-wg-config-constrained-plan/v1''"

definition maxConstrainedPlanSize :: nat where "maxConstrainedPlanSize = 16 * 1024"
definition maxConstrainedCredentialSize :: nat where "maxConstrainedCredentialSize = 8 * 1024"
definition maxConstrainedCABundleSize :: nat where "maxConstrainedCABundleSize = 128 * 1024"
definition maxConstrainedDERCertSize :: nat where "maxConstrainedDERCertSize = 32 * 1024"
definition maxConstrainedTokenBodySize :: nat where "maxConstrainedTokenBodySize = 8 * 1024"
definition maxConstrainedTokenSize :: nat where "maxConstrainedTokenSize = 4 * 1024"
definition maxConstrainedAddKeyBodySize :: nat where "maxConstrainedAddKeyBodySize = 64 * 1024"
definition maxConstrainedConfigSize :: nat where "maxConstrainedConfigSize = 64 * 1024"
definition maxConstrainedResultSize :: nat where "maxConstrainedResultSize = 4 * 1024"
definition maxConstrainedCredentialBytes :: nat where "maxConstrainedCredentialBytes = 256"

section \<open>Classes and details\<close>

datatype constrainedClass =
    ClassInvalidInvocation | ClassInvalidPlan | ClassInvalidCredentials | ClassInvalidTrust
  | ClassTokenFailed | ClassAddKeyFailed | ClassResponseInvalid | ClassEndpointReused
  | ClassConfigWriteFailed | ClassDeadlineExceeded | ClassCancelled | ClassResultWriteFailed
  | ClassInternalFailure

fun classString :: "constrainedClass \<Rightarrow> bytes" where
  "classString ClassInvalidInvocation = ''invalid_invocation''"
| "classString ClassInvalidPlan = ''invalid_plan''"
| "classString ClassInvalidCredentials = ''invalid_credentials''"
| "classString ClassInvalidTrust = ''invalid_trust''"
| "classString ClassTokenFailed = ''token_request_failed''"
| "classString ClassAddKeyFailed = ''add_key_request_failed''"
| "classString ClassResponseInvalid = ''response_invalid''"
| "classString ClassEndpointReused = ''endpoint_reused''"
| "classString ClassConfigWriteFailed = ''config_write_failed''"
| "classString ClassDeadlineExceeded = ''deadline_exceeded''"
| "classString ClassCancelled = ''cancelled''"
| "classString ClassResultWriteFailed = ''result_write_failed''"
| "classString ClassInternalFailure = ''internal_failure''"

datatype failureDetail =
    DetailTokenHTTPStatus | DetailTokenBodyReadFailed | DetailTokenBodyTooLarge
  | DetailTokenJSONParseFailed | DetailTokenUnexpectedField | DetailTokenMissingField
  | DetailTokenInvalidToken | DetailAddKeyHTTPStatus | DetailAddKeyBodyReadFailed
  | DetailAddKeyBodyTooLarge | DetailAddKeyJSONParseFailed | DetailAddKeyUnexpectedField
  | DetailAddKeyMissingField | DetailAddKeyFieldDecodeFailed | DetailAddKeyInvalidStatus
  | DetailAddKeyInvalidServerKey | DetailAddKeyInvalidServerPort | DetailAddKeyInvalidServerIP
  | DetailAddKeyInvalidServerVIP | DetailAddKeyInvalidPeerIP | DetailAddKeyInvalidPeerPubKey
  | DetailAddKeyInvalidDNS

fun detailString :: "failureDetail \<Rightarrow> bytes" where
  "detailString DetailTokenHTTPStatus = ''token_http_status''"
| "detailString DetailTokenBodyReadFailed = ''token_body_read_failed''"
| "detailString DetailTokenBodyTooLarge = ''token_body_too_large''"
| "detailString DetailTokenJSONParseFailed = ''token_json_parse_failed''"
| "detailString DetailTokenUnexpectedField = ''token_unexpected_field''"
| "detailString DetailTokenMissingField = ''token_missing_field''"
| "detailString DetailTokenInvalidToken = ''token_invalid_token''"
| "detailString DetailAddKeyHTTPStatus = ''add_key_http_status''"
| "detailString DetailAddKeyBodyReadFailed = ''add_key_body_read_failed''"
| "detailString DetailAddKeyBodyTooLarge = ''add_key_body_too_large''"
| "detailString DetailAddKeyJSONParseFailed = ''add_key_json_parse_failed''"
| "detailString DetailAddKeyUnexpectedField = ''add_key_unexpected_field''"
| "detailString DetailAddKeyMissingField = ''add_key_missing_field''"
| "detailString DetailAddKeyFieldDecodeFailed = ''add_key_field_decode_failed''"
| "detailString DetailAddKeyInvalidStatus = ''add_key_invalid_status''"
| "detailString DetailAddKeyInvalidServerKey = ''add_key_invalid_server_key''"
| "detailString DetailAddKeyInvalidServerPort = ''add_key_invalid_server_port''"
| "detailString DetailAddKeyInvalidServerIP = ''add_key_invalid_server_ip''"
| "detailString DetailAddKeyInvalidServerVIP = ''add_key_invalid_server_vip''"
| "detailString DetailAddKeyInvalidPeerIP = ''add_key_invalid_peer_ip''"
| "detailString DetailAddKeyInvalidPeerPubKey = ''add_key_invalid_peer_pubkey''"
| "detailString DetailAddKeyInvalidDNS = ''add_key_invalid_dns''"

record failureReason =
  frClass :: constrainedClass
  frDetail :: bytes

definition detailRune :: "nat \<Rightarrow> bool" where
  "detailRune r \<longleftrightarrow> (97 \<le> r \<and> r \<le> 122) \<or> (48 \<le> r \<and> r \<le> 57) \<or> r = 95"

definition validConstrainedFailureDetail :: "bytes \<Rightarrow> bytes" where
  "validConstrainedFailureDetail value =
     (if value = [] \<or> 64 < length value then []
      else if list_all detailRune (runes value) then value
      else [])"

definition constrainedFailureFor :: "constrainedClass \<Rightarrow> failureReason option" where
  "constrainedFailureFor c = Some \<lparr>frClass = c, frDetail = []\<rparr>"

definition constrainedFailureWithDetail :: "constrainedClass \<Rightarrow> bytes \<Rightarrow> failureReason option" where
  "constrainedFailureWithDetail c detail =
     Some \<lparr>frClass = c, frDetail = validConstrainedFailureDetail detail\<rparr>"

lemma failure_simps [simp]:
  "constrainedFailureFor c \<noteq> None" "constrainedFailureWithDetail c d \<noteq> None"
  "None \<noteq> constrainedFailureFor c" "None \<noteq> constrainedFailureWithDetail c d"
  by (simp_all add: constrainedFailureFor_def constrainedFailureWithDetail_def)

section \<open>Documents written to the result descriptor\<close>

definition failureFields :: "constrainedClass \<Rightarrow> bytes \<Rightarrow> raw_fields" where
  "failureFields c detail =
     [(''schema'', marshalString constrainedSchema),
      (''status'', marshalString ''failure''),
      (''failure_class'', marshalString (classString c))]
     @ (if detail = [] then [] else [(''failure_detail'', marshalString detail)])"

definition marshalFailure :: "constrainedClass \<Rightarrow> bytes \<Rightarrow> bytes" where
  "marshalFailure c detail = objectText (failureFields c detail)"

record constrainedSuccess =
  csRegion :: bytes
  csPortForwardEnabled :: bool
  csSelectedRegistrationCN :: bytes
  csSelectedRegistrationIPv4 :: bytes
  csWireguardEndpointIPv4 :: bytes
  csWireguardEndpointUDPPort :: int
  csPortForwardGatewayIPv4 :: bytes

definition successFields :: "constrainedSuccess \<Rightarrow> raw_fields" where
  "successFields s =
     [(''schema'', marshalString constrainedSchema),
      (''status'', marshalString ''success''),
      (''region'', marshalString (csRegion s)),
      (''port_forward_enabled'', marshalBool (csPortForwardEnabled s)),
      (''selected_registration_cn'', marshalString (csSelectedRegistrationCN s)),
      (''selected_registration_ipv4'', marshalString (csSelectedRegistrationIPv4 s)),
      (''wireguard_endpoint_ipv4'', marshalString (csWireguardEndpointIPv4 s)),
      (''wireguard_endpoint_udp_port'', marshalInt (csWireguardEndpointUDPPort s))]
     @ (if csPortForwardGatewayIPv4 s = [] then []
        else [(''port_forward_gateway_ipv4'', marshalString (csPortForwardGatewayIPv4 s))])"

definition marshalSuccess :: "constrainedSuccess \<Rightarrow> bytes" where
  "marshalSuccess s = objectText (successFields s)"

section \<open>Details are short and harmless\<close>

lemma detailRune_ascii: "detailRune r \<Longrightarrow> r < 128"
  by (auto simp: detailRune_def)

lemma detail_bytes:
  "validConstrainedFailureDetail v = d \<Longrightarrow> length d \<le> 64 \<and> list_all (\<lambda>c. detailRune (byte c)) d"
  using runes_all_iff_bytes [of detailRune v] detailRune_ascii
  by (auto simp: validConstrainedFailureDetail_def)

lemma escape_plain: "list_all htmlSafe s \<Longrightarrow> ascii s \<Longrightarrow> escape s = s"
  by (induction s) (simp_all add: escapeByte_def)

lemma detailRune_safe: "detailRune (byte c) \<Longrightarrow> htmlSafe c \<and> byte c < 128"
  by (auto simp: detailRune_def htmlSafe_def)

lemma detail_escape:
  assumes "list_all (\<lambda>c. detailRune (byte c)) d"
  shows "ascii d \<and> escape d = d"
proof -
  have "ascii d" "list_all htmlSafe d"
    using assms detailRune_safe by (auto simp: ascii_def list_all_iff)
  then show ?thesis using escape_plain by blast
qed

lemma detailString_valid: "validConstrainedFailureDetail (detailString d) = detailString d"
  by (induct d; code_simp)

lemma classString_plain: "list_all (\<lambda>c. detailRune (byte c)) (classString c)"
  by (induct c; code_simp)

lemma length_classString: "length (classString c) \<le> 22"
  by (cases c) simp_all

lemma length_marshalString_plain:
  "list_all (\<lambda>c. detailRune (byte c)) d \<Longrightarrow> length (marshalString d) = length d + 2"
  using detail_escape by (simp add: marshalString_def)

lemma json_text_string [simp]: "ascii s \<Longrightarrow> json_text 0 (marshalString s)"
  by (rule json_text_marshalString)

lemma ascii_lit: "ascii constrainedSchema" "ascii ''failure''" "ascii ''success''"
  by code_simp+

lemma ascii_objectText:
  "list_all (\<lambda>(k, v). ascii k \<and> ascii v) ms \<Longrightarrow> ascii (objectText ms)"
proof -
  assume "list_all (\<lambda>(k, v). ascii k \<and> ascii v) ms"
  then have "ascii (membersText ms)"
    by (induction ms rule: membersText.induct) (auto simp: ascii_marshalString)
  then show ?thesis by (simp add: objectText_def)
qed

lemma failureFields_ok:
  "list_all (\<lambda>c. detailRune (byte c)) d \<Longrightarrow> members_ok 0 (failureFields c d)"
  using detail_escape classString_plain [THEN detail_escape, of c]
  by (simp add: members_ok_def failureFields_def ascii_lit)

lemma ascii_marshalFailure:
  "list_all (\<lambda>c. detailRune (byte c)) d \<Longrightarrow> ascii (marshalFailure c d)"
  unfolding marshalFailure_def
  using detail_escape classString_plain [THEN detail_escape, of c]
  by (intro ascii_objectText) (auto simp: failureFields_def ascii_marshalString ascii_lit)

lemma length_marshalFailure:
  assumes "list_all (\<lambda>c. detailRune (byte c)) d" and "length d \<le> 64"
  shows "length (marshalFailure c d) \<le> 240"
proof -
  have lits: "length (marshalString constrainedSchema) = 35"
      "length (marshalString ''failure'') = 9" "length (marshalString ''schema'') = 8"
      "length (marshalString ''status'') = 8" "length (marshalString ''failure_class'') = 15"
      "length (marshalString ''failure_detail'') = 16"
    by code_simp+
  have "length (marshalString (classString c)) \<le> 24"
    using length_marshalString_plain [OF classString_plain] length_classString [of c] by simp
  moreover have "length (marshalString d) \<le> 66"
    using length_marshalString_plain [OF assms(1)] assms(2) by simp
  ultimately show ?thesis
    by (simp add: marshalFailure_def objectText_def failureFields_def lits)
qed

text \<open>
  Every failure document, whatever class and whatever raw detail it was built from,
  is a JSON object that the program's own strict reader accepts with exactly the members
  written, and it fits the limit of the result descriptor together with its newline, so
  \<open>writeFailure\<close> never fails for its size.
\<close>

theorem failure_document_roundtrip:
  "strictJSONObject (marshalFailure c (validConstrainedFailureDetail v)) (\<lambda>_. True)
     = Inr (failureFields c (validConstrainedFailureDetail v))
   \<and> length (marshalFailure c (validConstrainedFailureDetail v) @ [CHR 0x0A])
     \<le> maxConstrainedResultSize"
proof -
  define d where "d = validConstrainedFailureDetail v"
  have d: "length d \<le> 64" "list_all (\<lambda>c. detailRune (byte c)) d"
    using detail_bytes d_def by auto
  have "distinct (map fst (failureFields c d))" by (auto simp: failureFields_def)
  then have "accept_members (\<lambda>_. True) [] (failureFields c d) = Inr (failureFields c d)"
    using accept_members_ok [of "[]" "failureFields c d" "\<lambda>_. True"] by simp
  then have "strictJSONObject (marshalFailure c d) (\<lambda>_. True) = Inr (failureFields c d)"
    using strictJSONObject_objectText [OF failureFields_ok [OF d(2)], of c]
      ascii_marshalFailure [OF d(2), of c]
    by (simp add: marshalFailure_def maxNestingDepth_def)
  moreover have "length (marshalFailure c d) \<le> 240"
    using d by (intro length_marshalFailure)
  ultimately show ?thesis
    by (simp add: d_def maxConstrainedResultSize_def)
qed

end
