(* ===== verification/Constrained_Validate.thy ===== *)
theory Constrained_Validate
  imports Net_IP Constrained_Failure
begin

text \<open>
  The string validators of \<open>constrained.go\<close>. Each is written as the loop over runes or
  bytes that the code has; the lemmas give the set of byte strings it accepts. The
  locale \<open>field_check\<close> is what the rest of the program relies on: an accepted string is
  printable ASCII of bounded length, so it can be rendered on one line and written as a
  JSON string within the size limits.
\<close>

section \<open>Definitions\<close>

definition validConstrainedCredential :: "bytes \<Rightarrow> bool" where
  "validConstrainedCredential value =
     (if value = [] \<or> maxConstrainedCredentialBytes < length value \<or> \<not> utf8Valid value then False
      else \<not> list_ex (\<lambda>c. c = CHR 0x00 \<or> c = CHR 0x0D \<or> c = CHR 0x0A) value)"

definition regionRune :: "nat \<Rightarrow> bool" where
  "regionRune r \<longleftrightarrow>
     (97 \<le> r \<and> r \<le> 122) \<or> (65 \<le> r \<and> r \<le> 90) \<or> (48 \<le> r \<and> r \<le> 57) \<or> r = 95 \<or> r = 45"

definition validConstrainedRegion :: "bytes \<Rightarrow> bool" where
  "validConstrainedRegion value =
     (if value = [] \<or> 64 < length value then False else list_all regionRune (runes value))"

definition commonNameRune :: "nat \<Rightarrow> bool" where
  "commonNameRune r \<longleftrightarrow>
     \<not> (127 < r \<or> r \<le> 32 \<or> r \<in> set (map byte ''/: @''))"

definition validTLSCommonName :: "bytes \<Rightarrow> bool" where
  "validTLSCommonName value =
     (if value = [] \<or> 253 < length value \<or> parseIP value \<noteq> None then False
      else list_all commonNameRune (runes value))"

definition validVisibleASCII :: "bytes \<Rightarrow> nat \<Rightarrow> bool" where
  "validVisibleASCII value limit =
     (if value = [] \<or> limit < length value then False
      else list_all (\<lambda>c. \<not> (byte c < 33 \<or> 126 < byte c)) value)"

definition validConstrainedPeerIP :: "bytes \<Rightarrow> bool" where
  "validConstrainedPeerIP value =
     (case parseIP value of
        Some ip \<Rightarrow> to4 ip \<noteq> None
      | None \<Rightarrow> (case parseCIDR value of Some ip \<Rightarrow> to4 ip \<noteq> None | None \<Rightarrow> False))"

definition labelRune :: "nat \<Rightarrow> bool" where
  "labelRune r \<longleftrightarrow> (97 \<le> r \<and> r \<le> 122) \<or> (65 \<le> r \<and> r \<le> 90) \<or> (48 \<le> r \<and> r \<le> 57) \<or> r = 45"

definition validDNSLabel :: "bytes \<Rightarrow> bool" where
  "validDNSLabel l =
     (if l = [] \<or> 63 < length l \<or> hd l = CHR ''-'' \<or> last l = CHR ''-'' then False
      else list_all labelRune (runes l))"

definition validDNSName :: "bytes \<Rightarrow> bool" where
  "validDNSName value =
     (let v = (if value \<noteq> [] \<and> last value = CHR ''.'' then butlast value else value);
          labels = splitByte (CHR ''.'') v
      in if length labels < 2 then False else list_all validDNSLabel labels)"

section \<open>Accepted strings\<close>

lemma validConstrainedRegion_iff:
  "validConstrainedRegion s \<longleftrightarrow> s \<noteq> [] \<and> length s \<le> 64 \<and> list_all (\<lambda>c. regionRune (byte c)) s"
proof -
  have "regionRune r \<Longrightarrow> r < 128" for r by (auto simp: regionRune_def)
  then show ?thesis
    by (auto simp: validConstrainedRegion_def runes_all_iff_bytes)
qed

lemma validTLSCommonName_iff:
  "validTLSCommonName s \<longleftrightarrow>
     s \<noteq> [] \<and> length s \<le> 253 \<and> parseIP s = None \<and> list_all (\<lambda>c. commonNameRune (byte c)) s"
proof -
  have "commonNameRune r \<Longrightarrow> r < 128" for r by (auto simp: commonNameRune_def)
  then show ?thesis
    by (auto simp: validTLSCommonName_def runes_all_iff_bytes)
qed

section \<open>What the callers rely on\<close>

definition printable :: "char \<Rightarrow> bool" where
  "printable c \<longleftrightarrow> 32 < byte c \<and> byte c < 128"

locale field_check =
  fixes check :: "bytes \<Rightarrow> bool"
    and bound :: nat
  assumes check_printable: "check s \<Longrightarrow> list_all printable s"
    and check_nonempty: "check s \<Longrightarrow> s \<noteq> []"
    and check_length: "check s \<Longrightarrow> length s \<le> bound"
begin

lemma check_ascii: "check s \<Longrightarrow> ascii s"
  using check_printable by (fastforce simp: ascii_def list_all_iff printable_def)

lemma check_one_line: "check s \<Longrightarrow> CHR 0x0A \<notin> set s \<and> CHR 0x0D \<notin> set s"
  using check_printable by (fastforce simp: list_all_iff printable_def)

lemma escape_bound: "check s \<Longrightarrow> length (marshalString s) \<le> 6 * bound + 2"
proof -
  assume c: "check s"
  have "length (escapeByte x) \<le> 6" for x by (simp add: escapeByte_def)
  then have "length (concat (map escapeByte s)) \<le> 6 * length s"
    by (induction s) (simp_all add: le_SucI add_mono order_trans)
  also have "\<dots> \<le> 6 * bound" using check_length [OF c] by simp
  finally show ?thesis
    using escape_ascii [OF check_ascii [OF c]] by (simp add: marshalString_def)
qed

lemma json_ok: "check s \<Longrightarrow> json_text 0 (marshalString s) \<and> ascii (marshalString s)"
  using check_ascii ascii_marshalString by simp

end

interpretation region: field_check validConstrainedRegion 64
  by unfold_locales
    (auto simp: validConstrainedRegion_iff list_all_iff regionRune_def printable_def)

interpretation cn: field_check validTLSCommonName 253
  by unfold_locales
    (auto simp: validTLSCommonName_iff list_all_iff commonNameRune_def printable_def)

lemma printable_digit: "is_digit c \<Longrightarrow> printable c"
  by (simp add: is_digit_def printable_def)

lemma printable_utoa: "list_all printable (utoa n)"
  using utoa_digits [of n] by (auto simp: list_all_iff printable_digit)

lemma length_utoa_octet: "n < 256 \<Longrightarrow> length (utoa n) \<le> 3"
  by (simp add: utoa_small)

interpretation ipv4: field_check validIPv4 15
proof unfold_locales
  fix s assume "validIPv4 s"
  then obtain a b c d where q: "a < 256" "b < 256" "c < 256" "d < 256" "s = dotted [a, b, c, d]"
    by (auto simp: validIPv4_iff)
  show "list_all printable s" using q by (simp add: printable_utoa printable_def)
  show "s \<noteq> []" using q by simp
  show "length s \<le> 15"
    using q length_utoa_octet [of a] length_utoa_octet [of b] length_utoa_octet [of c]
      length_utoa_octet [of d] by simp
qed

interpretation token: field_check "\<lambda>s. validVisibleASCII s limit" limit
  by unfold_locales (auto simp: validVisibleASCII_def list_all_iff printable_def split: if_splits)

end
