(* ===== verification/Constrained_Plan.thy ===== *)
theory Constrained_Plan
  imports Constrained_Validate
begin

text \<open>
  The generation plan of constrained mode: \<open>constrainedPlan\<close> and its parsers. The first
  group of lemmas says that an accepted document is a well-formed plan; the second that
  every well-formed plan, written as JSON, is accepted and parsed to itself.
\<close>

record candidate =
  rcIPv4 :: bytes
  rcTLSCommonName :: bytes

record endpoint =
  epIPv4 :: bytes
  epUDPPort :: int

record constrainedPlan =
  cpSchema :: bytes
  cpRegion :: bytes
  cpPortForwarding :: bool
  cpTokenDestinationIPv4 :: bytes
  cpRegistrationCandidate :: candidate
  cpExcludedWireguardEndpoint :: "endpoint option"
  cpExcludedWireguardEndpointSet :: bool

datatype plan_error =
    PlanJSON strict_error | PlanMissingField | PlanInvalidSchema | PlanInvalidRegion
  | PlanInvalidPortForwarding | PlanInvalidTokenDestination
  | PlanCandidateMissingField | PlanInvalidCandidateIPv4 | PlanInvalidCandidateCN
  | PlanEndpointMissingField | PlanInvalidEndpointIPv4 | PlanInvalidEndpointPort

section \<open>The parsers\<close>

definition parseConstrainedCandidate :: "bytes \<Rightarrow> plan_error + candidate" where
  "parseConstrainedCandidate raw =
     (case strictJSONObject raw (\<lambda>k. k = ''ipv4'' \<or> k = ''tls_common_name'') of
        Inl e \<Rightarrow> Inl (PlanJSON e)
      | Inr fs \<Rightarrow>
          if length fs \<noteq> 2 then Inl PlanCandidateMissingField
          else
            (case decodeJSONString (map_of fs ''ipv4'') of
               None \<Rightarrow> Inl PlanInvalidCandidateIPv4
             | Some ip \<Rightarrow>
                 if \<not> validIPv4 ip then Inl PlanInvalidCandidateIPv4
                 else
                   (case decodeJSONString (map_of fs ''tls_common_name'') of
                      None \<Rightarrow> Inl PlanInvalidCandidateCN
                    | Some cn \<Rightarrow>
                        if \<not> validTLSCommonName cn then Inl PlanInvalidCandidateCN
                        else Inr \<lparr>rcIPv4 = ip, rcTLSCommonName = cn\<rparr>)))"

definition parseConstrainedEndpoint :: "bytes \<Rightarrow> plan_error + endpoint" where
  "parseConstrainedEndpoint raw =
     (case strictJSONObject raw (\<lambda>k. k = ''ipv4'' \<or> k = ''udp_port'') of
        Inl e \<Rightarrow> Inl (PlanJSON e)
      | Inr fs \<Rightarrow>
          if length fs \<noteq> 2 then Inl PlanEndpointMissingField
          else
            (case decodeJSONString (map_of fs ''ipv4'') of
               None \<Rightarrow> Inl PlanInvalidEndpointIPv4
             | Some ip \<Rightarrow>
                 if \<not> validIPv4 ip then Inl PlanInvalidEndpointIPv4
                 else
                   (case Option.bind (map_of fs ''udp_port'') (\<lambda>r. unmarshalInt r 0) of
                      None \<Rightarrow> Inl PlanInvalidEndpointPort
                    | Some port \<Rightarrow>
                        if port < 1 \<or> 65535 < port then Inl PlanInvalidEndpointPort
                        else Inr \<lparr>epIPv4 = ip, epUDPPort = port\<rparr>)))"

definition planKeys :: "bytes list" where
  "planKeys = [''schema'', ''region'', ''port_forwarding'', ''token_destination_ipv4'',
     ''registration_candidate'', ''excluded_wireguard_endpoint'']"

definition planRequired :: "bytes list" where
  "planRequired = [''schema'', ''region'', ''port_forwarding'', ''token_destination_ipv4'',
     ''registration_candidate'']"

definition parsePlanScalars ::
  "raw_fields \<Rightarrow> plan_error + bytes \<times> bytes \<times> bool \<times> bytes" where
  \<comment> \<open>the fields before the candidate, in the order in which the code decodes them\<close>
  "parsePlanScalars fs =
     (case decodeJSONString (map_of fs ''schema'') of
        None \<Rightarrow> Inl PlanInvalidSchema
      | Some schema \<Rightarrow>
          if schema \<noteq> constrainedSchema then Inl PlanInvalidSchema
          else
            (case decodeJSONString (map_of fs ''region'') of
               None \<Rightarrow> Inl PlanInvalidRegion
             | Some region \<Rightarrow>
                 if \<not> validConstrainedRegion region then Inl PlanInvalidRegion
                 else
                   (case Option.bind (map_of fs ''port_forwarding'') (\<lambda>r. unmarshalBool r False) of
                      None \<Rightarrow> Inl PlanInvalidPortForwarding
                    | Some pf \<Rightarrow>
                        (case decodeJSONString (map_of fs ''token_destination_ipv4'') of
                           None \<Rightarrow> Inl PlanInvalidTokenDestination
                         | Some ip \<Rightarrow>
                             if \<not> validIPv4 ip then Inl PlanInvalidTokenDestination
                             else Inr (schema, region, pf, ip)))))"

definition parseConstrainedPlan :: "bytes \<Rightarrow> plan_error + constrainedPlan" where
  "parseConstrainedPlan raw =
     (case strictJSONObject raw (\<lambda>k. k \<in> set planKeys) of
        Inl e \<Rightarrow> Inl (PlanJSON e)
      | Inr fs \<Rightarrow>
          if \<not> list_all (\<lambda>k. map_of fs k \<noteq> None) planRequired then Inl PlanMissingField
          else
            (case parsePlanScalars fs of
               Inl e \<Rightarrow> Inl e
             | Inr (schema, region, pf, ip) \<Rightarrow>
                 (case parseConstrainedCandidate (the (map_of fs ''registration_candidate'')) of
                    Inl e \<Rightarrow> Inl e
                  | Inr cand \<Rightarrow>
                      (let plan = \<lparr>cpSchema = schema, cpRegion = region, cpPortForwarding = pf,
                                   cpTokenDestinationIPv4 = ip, cpRegistrationCandidate = cand,
                                   cpExcludedWireguardEndpoint = None,
                                   cpExcludedWireguardEndpointSet = False\<rparr>
                       in case map_of fs ''excluded_wireguard_endpoint'' of
                            None \<Rightarrow> Inr plan
                          | Some rawEndpoint \<Rightarrow>
                              (case parseConstrainedEndpoint rawEndpoint of
                                 Inl e \<Rightarrow> Inl e
                               | Inr ep \<Rightarrow>
                                   Inr (plan\<lparr>cpExcludedWireguardEndpoint := Some ep,
                                             cpExcludedWireguardEndpointSet := True\<rparr>))))))"

section \<open>Well-formed plans\<close>

definition wf_candidate :: "candidate \<Rightarrow> bool" where
  "wf_candidate c \<longleftrightarrow> validIPv4 (rcIPv4 c) \<and> validTLSCommonName (rcTLSCommonName c)"

definition wf_endpoint :: "endpoint \<Rightarrow> bool" where
  "wf_endpoint e \<longleftrightarrow> validIPv4 (epIPv4 e) \<and> 1 \<le> epUDPPort e \<and> epUDPPort e \<le> 65535"

definition wf_plan :: "constrainedPlan \<Rightarrow> bool" where
  "wf_plan p \<longleftrightarrow>
     cpSchema p = constrainedSchema \<and> validConstrainedRegion (cpRegion p) \<and>
     validIPv4 (cpTokenDestinationIPv4 p) \<and> wf_candidate (cpRegistrationCandidate p) \<and>
     (case cpExcludedWireguardEndpoint p of
        None \<Rightarrow> \<not> cpExcludedWireguardEndpointSet p
      | Some e \<Rightarrow> cpExcludedWireguardEndpointSet p \<and> wf_endpoint e)"

lemma parseConstrainedCandidate_wf: "parseConstrainedCandidate raw = Inr c \<Longrightarrow> wf_candidate c"
  by (auto simp: parseConstrainedCandidate_def wf_candidate_def
      split: sum.splits option.splits if_splits)

lemma parseConstrainedEndpoint_wf: "parseConstrainedEndpoint raw = Inr e \<Longrightarrow> wf_endpoint e"
  by (auto simp: parseConstrainedEndpoint_def wf_endpoint_def
      split: sum.splits option.splits if_splits)

lemma parsePlanScalars_wf:
  "parsePlanScalars fs = Inr (schema, region, pf, ip) \<Longrightarrow>
     schema = constrainedSchema \<and> validConstrainedRegion region \<and> validIPv4 ip"
  by (auto simp: parsePlanScalars_def split: option.splits if_splits)

lemma parseConstrainedPlan_wf: "parseConstrainedPlan raw = Inr p \<Longrightarrow> wf_plan p"
  by (auto simp: parseConstrainedPlan_def Let_def wf_plan_def
      dest: parsePlanScalars_wf parseConstrainedCandidate_wf parseConstrainedEndpoint_wf
      split: sum.splits option.splits if_splits prod.splits)

section \<open>Writing a plan\<close>

definition candidateText :: "candidate \<Rightarrow> bytes" where
  "candidateText c = objectText
     [(''ipv4'', marshalString (rcIPv4 c)),
      (''tls_common_name'', marshalString (rcTLSCommonName c))]"

definition endpointText :: "endpoint \<Rightarrow> bytes" where
  "endpointText e = objectText
     [(''ipv4'', marshalString (epIPv4 e)), (''udp_port'', marshalInt (epUDPPort e))]"

definition planFields :: "constrainedPlan \<Rightarrow> raw_fields" where
  "planFields p =
     [(''schema'', marshalString (cpSchema p)),
      (''region'', marshalString (cpRegion p)),
      (''port_forwarding'', marshalBool (cpPortForwarding p)),
      (''token_destination_ipv4'', marshalString (cpTokenDestinationIPv4 p)),
      (''registration_candidate'', candidateText (cpRegistrationCandidate p))]
     @ (case cpExcludedWireguardEndpoint p of
          None \<Rightarrow> []
        | Some e \<Rightarrow> [(''excluded_wireguard_endpoint'', endpointText e)])"

definition planText :: "constrainedPlan \<Rightarrow> bytes" where
  "planText p = objectText (planFields p)"

lemma members_candidate:
  "wf_candidate c \<Longrightarrow> members_ok 0 [(''ipv4'', marshalString (rcIPv4 c)),
      (''tls_common_name'', marshalString (rcTLSCommonName c))]"
  by (simp add: members_ok_def wf_candidate_def ipv4.check_ascii cn.check_ascii)

lemma members_endpoint:
  "wf_endpoint e \<Longrightarrow>
     members_ok 0 [(''ipv4'', marshalString (epIPv4 e)), (''udp_port'', marshalInt (epUDPPort e))]"
  by (simp add: members_ok_def wf_endpoint_def ipv4.check_ascii json_text_marshalInt)

lemma ascii_candidateText: "wf_candidate c \<Longrightarrow> ascii (candidateText c)"
  unfolding candidateText_def
  by (intro ascii_objectText) (simp add: wf_candidate_def ipv4.json_ok cn.json_ok)

lemma ascii_endpointText: "wf_endpoint e \<Longrightarrow> ascii (endpointText e)"
  unfolding endpointText_def
  by (intro ascii_objectText) (simp add: wf_endpoint_def ipv4.json_ok ascii_itoa marshalInt_def)

lemma json_text_weaken: "json_text 0 v \<Longrightarrow> json_text (Suc 0) v"
  by (auto simp: json_text_def)

lemma decode_marshalString: "ascii s \<Longrightarrow> decodeJSONString (Some (marshalString s)) = Some s"
  by (simp add: decodeJSONString_Some str.dec_enc)

lemma parse_candidateText:
  assumes "wf_candidate c"
  shows "parseConstrainedCandidate (candidateText c) = Inr c"
proof -
  let ?ms = "[(''ipv4'', marshalString (rcIPv4 c)), (''tls_common_name'', marshalString (rcTLSCommonName c))]"
  have "strictJSONObject (candidateText c) (\<lambda>k. k = ''ipv4'' \<or> k = ''tls_common_name'') = Inr ?ms"
    using strictJSONObject_objectText [OF members_candidate [OF assms]]
      ascii_candidateText [OF assms]
    by (simp add: candidateText_def maxNestingDepth_def)
  then show ?thesis
    using assms
    by (simp add: parseConstrainedCandidate_def wf_candidate_def decode_marshalString
        ipv4.check_ascii cn.check_ascii)
qed

lemma parse_endpointText:
  assumes "wf_endpoint e"
  shows "parseConstrainedEndpoint (endpointText e) = Inr e"
proof -
  let ?ms = "[(''ipv4'', marshalString (epIPv4 e)), (''udp_port'', marshalInt (epUDPPort e))]"
  have "strictJSONObject (endpointText e) (\<lambda>k. k = ''ipv4'' \<or> k = ''udp_port'') = Inr ?ms"
    using strictJSONObject_objectText [OF members_endpoint [OF assms]]
      ascii_endpointText [OF assms]
    by (simp add: endpointText_def maxNestingDepth_def)
  then show ?thesis
    using assms
    by (simp add: parseConstrainedEndpoint_def wf_endpoint_def decode_marshalString
        ipv4.check_ascii int.dec_enc)
qed

lemma members_plan: "wf_plan p \<Longrightarrow> members_ok 1 (planFields p)"
  using json_text_objectText [OF members_candidate, of "cpRegistrationCandidate p" 1]
    json_text_objectText [OF members_endpoint, of _ 1]
  by (auto simp: members_ok_def planFields_def wf_plan_def candidateText_def endpointText_def
      ascii_lit region.check_ascii ipv4.check_ascii json_text_weaken json_text_marshalBool
      split: option.splits)

lemma ascii_planText: "wf_plan p \<Longrightarrow> ascii (planText p)"
  unfolding planText_def
  by (intro ascii_objectText)
    (auto simp: planFields_def wf_plan_def ascii_lit ascii_marshalString region.json_ok ipv4.json_ok
      bool.enc_ascii ascii_candidateText ascii_endpointText split: option.splits)

text \<open>
  C24: every document \<open>parseConstrainedPlan\<close> accepts is a well-formed plan: the schema is
  the one expected, the region, the addresses and the registration name pass their
  validators, the excluded endpoint (address and a port between 1 and 65535) is present
  exactly when its flag is set; and the document was valid UTF-8 with only the known
  fields, each at most once.
\<close>

theorem plan_accepted_wellformed:
  assumes "parseConstrainedPlan raw = Inr p"
  shows "wf_plan p \<and> utf8Valid raw
    \<and> (\<exists>fs. strictJSONObject raw (\<lambda>k. k \<in> set planKeys) = Inr fs
         \<and> distinct (map fst fs) \<and> set (map fst fs) \<subseteq> set planKeys
         \<and> set planRequired \<subseteq> set (map fst fs))"
proof -
  obtain fs where fs: "strictJSONObject raw (\<lambda>k. k \<in> set planKeys) = Inr fs"
    and req: "list_all (\<lambda>k. map_of fs k \<noteq> None) planRequired"
    using assms by (auto simp: parseConstrainedPlan_def split: sum.splits if_splits)
  have "set planRequired \<subseteq> set (map fst fs)"
    using req by (force simp: list_all_iff dest: map_of_SomeD)
  then show ?thesis
    using strictJSONObject_sound [OF fs] parseConstrainedPlan_wf [OF assms] fs by fastforce
qed

text \<open>
  C25: writing a well-formed plan as JSON and parsing it gives the plan back, with or
  without an excluded endpoint.
\<close>

theorem plan_roundtrip:
  assumes "wf_plan p"
  shows "parseConstrainedPlan (planText p) = Inr p"
proof -
  have d: "distinct (map fst (planFields p))" and k: "\<forall>(k, v) \<in> set (planFields p). k \<in> set planKeys"
    by (auto simp: planFields_def planKeys_def split: option.splits)
  then have fs: "strictJSONObject (planText p) (\<lambda>k. k \<in> set planKeys) = Inr (planFields p)"
    using strictJSONObject_objectText [OF members_plan [OF assms]] ascii_planText [OF assms]
      accept_members_ok [of "[]" "planFields p" "\<lambda>k. k \<in> set planKeys"]
    by (simp add: planText_def maxNestingDepth_def)
  have req: "list_all (\<lambda>k. \<exists>v. map_of (planFields p) k = Some v) planRequired"
    by (simp add: planRequired_def planFields_def)
  have sc: "parsePlanScalars (planFields p)
      = Inr (cpSchema p, cpRegion p, cpPortForwarding p, cpTokenDestinationIPv4 p)"
    using assms
    by (simp add: parsePlanScalars_def planFields_def wf_plan_def decode_marshalString ascii_lit
        region.check_ascii ipv4.check_ascii bool.dec_enc)
  have cand: "map_of (planFields p) ''registration_candidate''
      = Some (candidateText (cpRegistrationCandidate p))"
    by (simp add: planFields_def)
  have ex: "map_of (planFields p) ''excluded_wireguard_endpoint''
      = map_option endpointText (cpExcludedWireguardEndpoint p)"
    by (simp add: planFields_def split: option.splits)
  show ?thesis
    using assms
    by (auto simp: parseConstrainedPlan_def fs req sc cand ex wf_plan_def
        parse_candidateText parse_endpointText split: option.splits
        intro!: constrainedPlan.equality)
qed


definition examplePlan :: constrainedPlan where
  "examplePlan =
     \<lparr>cpSchema = constrainedSchema, cpRegion = ''ca_toronto'', cpPortForwarding = True,
      cpTokenDestinationIPv4 = ''198.51.100.10'',
      cpRegistrationCandidate = \<lparr>rcIPv4 = ''203.0.113.7'', rcTLSCommonName = ''toronto<401>''\<rparr>,
      cpExcludedWireguardEndpoint = Some \<lparr>epIPv4 = ''203.0.113.9'', epUDPPort = 1337\<rparr>,
      cpExcludedWireguardEndpointSet = True\<rparr>"

lemma wf_examplePlan: "wf_plan examplePlan"
  by code_simp

theorem plan_roundtrip_witness:
  "wf_plan examplePlan \<and> parseConstrainedPlan (planText examplePlan) = Inr examplePlan"
  using wf_examplePlan plan_roundtrip by blast

lemma parse_examplePlan: "parseConstrainedPlan (planText examplePlan) = Inr examplePlan"
  by code_simp

theorem plan_accepted_wellformed_witness:
  "parseConstrainedPlan (planText examplePlan) = Inr examplePlan \<and> wf_plan examplePlan"
  using parse_examplePlan plan_accepted_wellformed by blast

end
