(* ===== verification/Wgtypes.thy ===== *)
theory Wgtypes
  imports Prelude
begin

text \<open>
  WireGuard keys (\<open>wgtypes/types.go\<close>) and the standard base64 encoding they are written
  in. The decoder is the loop of \<open>encoding/base64\<close>: it skips carriage returns and line
  feeds anywhere, demands padding, and refuses what follows it. The source of random bytes
  and the multiplication of Curve25519 are arguments.
\<close>

section \<open>Standard base64\<close>

definition b64_char :: "nat \<Rightarrow> char" where
  "b64_char n =
     (if n < 26 then char_of (65 + n)
      else if n < 52 then char_of (71 + n)
      else if n < 62 then char_of (n - 4)
      else if n = 62 then CHR ''+''
      else CHR ''/'')"

definition b64_val :: "char \<Rightarrow> nat option" where
  "b64_val c =
     (if is_upper c then Some (byte c - 65)
      else if is_lower c then Some (byte c - 71)
      else if is_digit c then Some (byte c + 4)
      else if c = CHR ''+'' then Some 62
      else if c = CHR ''/'' then Some 63
      else None)"

definition is_newline :: "char \<Rightarrow> bool" where
  "is_newline c \<longleftrightarrow> c = CHR 0x0A \<or> c = CHR 0x0D"

fun b64_encode :: "bytes \<Rightarrow> bytes" where
  "b64_encode [] = []"
| "b64_encode [a] =
     [b64_char (byte a div 4), b64_char (byte a mod 4 * 16), CHR ''='', CHR ''='']"
| "b64_encode [a, b] =
     [b64_char (byte a div 4), b64_char (byte a mod 4 * 16 + byte b div 16),
      b64_char (byte b mod 16 * 4), CHR ''='']"
| "b64_encode (a # b # c # s) =
     b64_char (byte a div 4) # b64_char (byte a mod 4 * 16 + byte b div 16) #
     b64_char (byte b mod 16 * 4 + byte c div 64) # b64_char (byte c mod 64) # b64_encode s"

fun b64_quantum :: "nat list \<Rightarrow> bytes" where
  \<comment> \<open>the bytes of two, three or four sextets\<close>
  "b64_quantum [a, b] = [char_of (a * 4 + b div 16)]"
| "b64_quantum [a, b, c] = [char_of (a * 4 + b div 16), char_of (b mod 16 * 16 + c div 4)]"
| "b64_quantum [a, b, c, d] =
     [char_of (a * 4 + b div 16), char_of (b mod 16 * 16 + c div 4), char_of (c mod 4 * 64 + d)]"
| "b64_quantum _ = []"

definition b64_pad :: "nat list \<Rightarrow> bytes \<Rightarrow> bytes option" where
  \<comment> \<open>after the first padding character: one more for two sextets, then only line breaks\<close>
  "b64_pad buf s =
     (if length buf = 3 then (if list_all is_newline s then Some (b64_quantum buf) else None)
      else if length buf = 2 then
        (case dropWhile is_newline s of
           c # r \<Rightarrow> if c = CHR ''='' \<and> list_all is_newline r then Some (b64_quantum buf) else None
         | [] \<Rightarrow> None)
      else None)"

fun b64_loop :: "nat list \<Rightarrow> bytes \<Rightarrow> bytes option" where
  "b64_loop buf [] = (if buf = [] then Some [] else None)"
| "b64_loop buf (c # s) =
     (case b64_val c of
        Some v \<Rightarrow>
          if length buf = 3 then map_option ((@) (b64_quantum (buf @ [v]))) (b64_loop [] s)
          else b64_loop (buf @ [v]) s
      | None \<Rightarrow>
          if is_newline c then b64_loop buf s
          else if c = CHR ''='' then b64_pad buf s
          else None)"

definition b64_decode :: "bytes \<Rightarrow> bytes option" where
  "b64_decode s = b64_loop [] s"

section \<open>Keys\<close>

definition KeyLen :: nat where "KeyLen = 32"

type_synonym key = bytes

datatype key_error = RandomFailed | IncorrectKeySize nat | InvalidBase64

definition NewKey :: "bytes \<Rightarrow> key_error + key" where
  "NewKey b = (if length b \<noteq> KeyLen then Inl (IncorrectKeySize (length b)) else Inr b)"

definition GenerateKey :: "bytes option \<Rightarrow> key_error + key" where
  \<comment> \<open>the argument is what \<open>rand.Read\<close> filled the buffer with\<close>
  "GenerateKey rand = (case rand of None \<Rightarrow> Inl RandomFailed | Some b \<Rightarrow> NewKey b)"

definition clampKey :: "key \<Rightarrow> key" where
  "clampKey k =
     (let k1 = k[0 := char_of (byte (k ! 0) div 8 * 8)];
          k2 = k1[31 := char_of (byte (k1 ! 31) mod 128)]
      in k2[31 := char_of (if byte (k2 ! 31) < 64 then byte (k2 ! 31) + 64 else byte (k2 ! 31))])"

definition GeneratePrivateKey :: "bytes option \<Rightarrow> key_error + key" where
  "GeneratePrivateKey rand =
     (case GenerateKey rand of Inl e \<Rightarrow> Inl e | Inr k \<Rightarrow> Inr (clampKey k))"

definition ParseKey :: "bytes \<Rightarrow> key_error + key" where
  "ParseKey s = (case b64_decode s of None \<Rightarrow> Inl InvalidBase64 | Some b \<Rightarrow> NewKey b)"

definition keyString :: "key \<Rightarrow> bytes" where
  "keyString k = b64_encode k"

definition PublicKey :: "(bytes \<Rightarrow> bytes) \<Rightarrow> key \<Rightarrow> key" where
  \<comment> \<open>the first argument is \<open>curve25519.ScalarBaseMult\<close>\<close>
  "PublicKey scalarBaseMult k = scalarBaseMult k"

section \<open>Round trip\<close>

lemma b64_val_char: "n < 64 \<Longrightarrow> b64_val (b64_char n) = Some n"
proof -
  have "\<forall>n < 64. b64_val (b64_char n) = Some n" by code_simp
  then show "n < 64 \<Longrightarrow> b64_val (b64_char n) = Some n" by blast
qed

lemma b64_val_pad [simp]: "b64_val (CHR ''='') = None"
  by code_simp

lemma is_newline_pad [simp]: "\<not> is_newline (CHR ''='')"
  by (simp add: is_newline_def)

lemma sextets:
  assumes "a < (256::nat)" "b < 256" "c < 256"
  shows "a div 4 < 64" "a mod 4 * 16 + b div 16 < 64" "b mod 16 * 4 + c div 64 < 64" "c mod 64 < 64"
    "a mod 4 * 16 < 64" "b mod 16 * 4 < 64"
  using assms by auto

lemma quantum_bytes:
  assumes "a < (256::nat)" "b < 256" "c < 256"
  shows "a div 4 * 4 + (a mod 4 * 16 + b div 16) div 16 = a"
    "(a mod 4 * 16 + b div 16) mod 16 * 16 + (b mod 16 * 4 + c div 64) div 4 = b"
    "(b mod 16 * 4 + c div 64) mod 4 * 64 + c mod 64 = c"
    "a div 4 * 4 + a mod 4 * 16 div 16 = a"
    "(a mod 4 * 16 + b div 16) mod 16 * 16 + b mod 16 * 4 div 4 = b"
proof -
  have b: "(a mod 4 * 16 + b div 16) div 16 = a mod 4" "(a mod 4 * 16 + b div 16) mod 16 = b div 16"
    using assms by simp_all
  have c: "(b mod 16 * 4 + c div 64) div 4 = b mod 16" "(b mod 16 * 4 + c div 64) mod 4 = c div 64"
    using assms by simp_all
  show "a div 4 * 4 + (a mod 4 * 16 + b div 16) div 16 = a"
    "(a mod 4 * 16 + b div 16) mod 16 * 16 + (b mod 16 * 4 + c div 64) div 4 = b"
    "(b mod 16 * 4 + c div 64) mod 4 * 64 + c mod 64 = c"
    "a div 4 * 4 + a mod 4 * 16 div 16 = a"
    "(a mod 4 * 16 + b div 16) mod 16 * 16 + b mod 16 * 4 div 4 = b"
    unfolding b c by simp_all
qed

lemma b64_loop_encode: "b64_loop [] (b64_encode s) = Some s"
proof (induction s rule: b64_encode.induct)
  case 1
  then show ?case by simp
next
  case (2 a)
  then show ?case
    using sextets [of "byte a" 0 0] quantum_bytes [of "byte a" 0 0]
    by (simp add: b64_val_char b64_pad_def)
next
  case (3 a b)
  then show ?case
    using sextets [of "byte a" "byte b" 0] quantum_bytes [of "byte a" "byte b" 0]
    by (simp add: b64_val_char b64_pad_def)
next
  case (4 a b c s)
  then show ?case
    using sextets [of "byte a" "byte b" "byte c"] quantum_bytes [of "byte a" "byte b" "byte c"]
    by (simp add: b64_val_char)
qed

lemma length_b64_encode: "length (b64_encode s) = (length s + 2) div 3 * 4"
proof (induction s rule: b64_encode.induct)
  case (4 a b c s)
  have "length (a # b # c # s) + 2 = (length s + 2) + 1 * 3" by simp
  then have "(length (a # b # c # s) + 2) div 3 = (length s + 2) div 3 + 1"
    by (simp only: div_mult_self1)
  then show ?case using 4 by simp
qed simp_all

definition b64_letter :: "char \<Rightarrow> bool" where
  "b64_letter c \<longleftrightarrow> b64_val c \<noteq> None \<or> c = CHR ''=''"

lemma b64_encode_letters: "list_all b64_letter (b64_encode s)"
proof (induction s rule: b64_encode.induct)
  case (4 a b c s)
  then show ?case
    using sextets [of "byte a" "byte b" "byte c"] by (simp add: b64_letter_def b64_val_char)
next
  case (3 a b)
  then show ?case using sextets [of "byte a" "byte b" 0] by (simp add: b64_letter_def b64_val_char)
next
  case (2 a)
  then show ?case using sextets [of "byte a" 0 0] by (simp add: b64_letter_def b64_val_char)
qed simp

lemma b64_letter_newline: "b64_letter c \<Longrightarrow> \<not> is_newline c"
  by (auto simp: b64_letter_def is_newline_def b64_val_def byte_class)

section \<open>What is accepted\<close>

text \<open>The decoder sees a text only through its characters other than line breaks.\<close>

lemma dropWhile_not_newline: "dropWhile is_newline s = c # r \<Longrightarrow> \<not> is_newline c"
  by (induction s) (auto split: if_splits)

lemma dropWhile_newlines:
  "filter (\<lambda>c. \<not> is_newline c) s =
     (case dropWhile is_newline s of [] \<Rightarrow> [] | c # r \<Rightarrow> c # filter (\<lambda>c. \<not> is_newline c) r)"
proof -
  have "filter (\<lambda>c. \<not> is_newline c) (dropWhile is_newline s) = filter (\<lambda>c. \<not> is_newline c) s"
    by (induction s) auto
  then show ?thesis
    using dropWhile_not_newline [of s]
    by (cases "dropWhile is_newline s") (auto simp: dropWhile_eq_Nil_conv [THEN iffD2])
qed

lemma filter_no_newlines: "list_all is_newline (filter (\<lambda>c. \<not> is_newline c) s) \<longleftrightarrow> list_all is_newline s"
  by (auto simp: list_all_iff)

lemma b64_pad_filter: "b64_pad buf (filter (\<lambda>c. \<not> is_newline c) s) = b64_pad buf s"
proof (cases "dropWhile is_newline s")
  case Nil
  then have "filter (\<lambda>c. \<not> is_newline c) s = []"
    by (simp add: dropWhile_eq_Nil_conv filter_empty_conv)
  then show ?thesis
    using Nil filter_no_newlines [of s]
    by (simp add: b64_pad_def dropWhile_eq_Nil_conv [THEN iffD2])
next
  case (Cons c r)
  then have f: "filter (\<lambda>c. \<not> is_newline c) s = c # filter (\<lambda>c. \<not> is_newline c) r"
    by (simp add: dropWhile_newlines)
  then have "dropWhile is_newline (filter (\<lambda>c. \<not> is_newline c) s)
      = c # filter (\<lambda>c. \<not> is_newline c) r"
    using dropWhile_not_newline [OF Cons] by simp
  then show ?thesis
    using Cons filter_no_newlines [of s] filter_no_newlines [of r] by (simp add: b64_pad_def)
qed

lemma b64_val_newline: "is_newline c \<Longrightarrow> b64_val c = None"
  by (auto simp: is_newline_def b64_val_def byte_class)

lemma b64_loop_filter: "b64_loop buf (filter (\<lambda>c. \<not> is_newline c) s) = b64_loop buf s"
  by (induction buf s rule: b64_loop.induct)
    (auto simp: b64_val_newline b64_pad_filter split: option.splits)

lemma b64_pad_letters:
  "b64_pad buf s = Some b \<Longrightarrow> list_all (\<lambda>c. b64_letter c \<or> is_newline c) s"
proof (induction s)
  case (Cons c s)
  then show ?case
    by (auto simp: b64_pad_def b64_letter_def list_all_iff split: if_splits list.splits)
qed simp

lemma b64_loop_letters:
  "b64_loop buf s = Some b \<Longrightarrow> list_all (\<lambda>c. b64_letter c \<or> is_newline c) s"
  by (induction buf s arbitrary: b rule: b64_loop.induct)
    (auto simp: b64_letter_def [of "_ :: char"] split: if_splits option.splits dest: b64_pad_letters)

lemma length_quantum:
  "2 \<le> length buf \<Longrightarrow> length buf \<le> 4 \<Longrightarrow> length (b64_quantum buf) = length buf - 1"
  by (induction buf rule: b64_quantum.induct) auto

lemma b64_pad_length:
  assumes "b64_pad buf s = Some b" and "list_all b64_letter s"
  shows "length buf + 1 + length s = 4 \<and> length b + 2 \<in> {3, 4}"
proof -
  have n: "list_all is_newline r \<longleftrightarrow> r = []" if "set r \<subseteq> set s" for r
    using that assms(2) b64_letter_newline by (cases r) (auto simp: list_all_iff)
  have d: "dropWhile is_newline s = s"
    using assms(2) b64_letter_newline by (cases s) auto
  show ?thesis
    using assms n [of s] n [of "tl s"] length_quantum [of buf] unfolding b64_pad_def d
    by (cases s) (auto split: if_splits)
qed

lemma b64_loop_length:
  "b64_loop buf s = Some b \<Longrightarrow> list_all b64_letter s \<Longrightarrow> length buf < 4 \<Longrightarrow>
     length buf + length s = (length b + 2) div 3 * 4"
proof (induction buf s arbitrary: b rule: b64_loop.induct)
  case (1 buf)
  then show ?case by (simp split: if_splits)
next
  case (2 buf c s)
  show ?case
  proof (cases "b64_val c")
    case None
    then have "c = CHR ''=''" "b64_pad buf s = Some b"
      using "2.prems" b64_letter_newline [of c] by (auto simp: b64_letter_def split: if_splits)
    moreover have "list_all b64_letter s" using "2.prems"(2) by simp
    ultimately show ?thesis using b64_pad_length [of buf s b] by auto
  next
    case (Some v)
    show ?thesis
    proof (cases "length buf = 3")
      case True
      then obtain b' where b': "b64_loop [] s = Some b'" "b = b64_quantum (buf @ [v]) @ b'"
        using "2.prems"(1) Some by auto
      then have "length b + 2 = (length b' + 2) + 1 * 3"
        using True length_quantum [of "buf @ [v]"] by simp
      then have "(length b + 2) div 3 = (length b' + 2) div 3 + 1" by (simp only: div_mult_self1)
      moreover have "length s = (length b' + 2) div 3 * 4"
        using "2.IH"(2) [OF Some True b'(1)] "2.prems"(2) by simp
      ultimately show ?thesis using True by simp
    next
      case False
      then show ?thesis using "2.IH"(3) [OF Some False, of b] "2.prems" Some by simp
    qed
  qed
qed

lemma ParseKey_length:
  assumes "ParseKey s = Inr k" and "\<not> list_ex is_newline s"
  shows "length s = 44 \<and> list_all b64_letter s"
proof -
  have d: "b64_loop [] s = Some k" "length k = 32"
    using assms(1) by (auto simp: ParseKey_def b64_decode_def NewKey_def KeyLen_def
        split: option.splits if_splits)
  then have "list_all b64_letter s"
    using b64_loop_letters [OF d(1)] assms(2) by (auto simp: list_all_iff list_ex_iff)
  then show ?thesis using b64_loop_length [OF d(1)] d(2) by simp
qed

text \<open>
  \<open>ParseKey\<close> inverts \<open>String\<close>: every 32-byte key survives being written as base64 and
  read back, the text is 44 characters of the base64 alphabet, and \<open>GeneratePrivateKey\<close>
  returns such a key with the bits that Curve25519 requires cleared and set.
\<close>

theorem key_roundtrip:
  assumes "GeneratePrivateKey (Some r) = Inr k"
  shows "ParseKey (keyString k) = Inr k \<and> length (keyString k) = 44
    \<and> list_all b64_letter (keyString k)
    \<and> byte (k ! 0) mod 8 = 0 \<and> 64 \<le> byte (k ! 31) \<and> byte (k ! 31) < 128
    \<and> (\<forall>i \<in> {1..<31}. k ! i = r ! i)"
proof -
  have r: "length r = 32" "k = clampKey r"
    using assms by (auto simp: GeneratePrivateKey_def GenerateKey_def NewKey_def KeyLen_def
        split: if_splits)
  then have len: "length k = 32" by (simp add: clampKey_def Let_def)
  have m: "byte (r ! 31) mod 128 < 256" "byte (r ! 0) div 8 * 8 < 256"
    using byte_less_256 [of "r ! 0"] by (simp_all add: less_mult_imp_div_less)
  have "k ! 0 = char_of (byte (r ! 0) div 8 * 8)" "\<forall>i \<in> {1..<31}. k ! i = r ! i"
    "k ! 31 = char_of (if byte (r ! 31) mod 128 < 64 then byte (r ! 31) mod 128 + 64
        else byte (r ! 31) mod 128)"
    using r m by (simp_all add: clampKey_def Let_def nth_list_update)
  moreover have "ParseKey (keyString k) = Inr k"
    using len by (simp add: ParseKey_def keyString_def b64_decode_def b64_loop_encode NewKey_def
        KeyLen_def)
  ultimately show ?thesis
    using len m b64_encode_letters [of k] length_b64_encode [of k]
    by (auto simp: keyString_def)
qed

definition zeroKey :: key where "zeroKey = replicate 32 (CHR 0x00)"

theorem key_roundtrip_witness:
  "GeneratePrivateKey (Some zeroKey) = Inr (zeroKey[31 := CHR 0x40])
   \<and> ParseKey (keyString (zeroKey[31 := CHR 0x40])) = Inr (zeroKey[31 := CHR 0x40])"
proof -
  have "GeneratePrivateKey (Some zeroKey) = Inr (zeroKey[31 := CHR 0x40])" by code_simp
  then show ?thesis using key_roundtrip [of zeroKey "zeroKey[31 := CHR 0x40]"] by simp
qed

text \<open>
  A key text is accepted independently of the carriage returns and line feeds in it,
  and only such line breaks can come beside the base64 alphabet: an accepted text without
  line breaks is exactly 44 characters of the alphabet.
\<close>

theorem ParseKey_ignores_line_breaks:
  "ParseKey s = ParseKey (filter (\<lambda>c. \<not> is_newline c) s)
   \<and> (\<forall>k. ParseKey s = Inr k \<longrightarrow>
        length (filter (\<lambda>c. \<not> is_newline c) s) = 44
        \<and> list_all b64_letter (filter (\<lambda>c. \<not> is_newline c) s))"
proof -
  have eq: "ParseKey (filter (\<lambda>c. \<not> is_newline c) s) = ParseKey s"
    by (simp add: ParseKey_def b64_decode_def b64_loop_filter)
  have "\<not> list_ex is_newline (filter (\<lambda>c. \<not> is_newline c) s)" by (auto simp: list_ex_iff)
  then show ?thesis using ParseKey_length [of "filter (\<lambda>c. \<not> is_newline c) s"] eq by auto
qed

theorem ParseKey_ignores_line_breaks_witness:
  "ParseKey (keyString zeroKey @ [CHR 0x0A]) = Inr zeroKey
   \<and> length (filter (\<lambda>c. \<not> is_newline c) (keyString zeroKey @ [CHR 0x0A])) = 44"
proof -
  have "ParseKey (keyString zeroKey @ [CHR 0x0A]) = Inr zeroKey" by code_simp
  then show ?thesis
    using ParseKey_ignores_line_breaks [of "keyString zeroKey @ [CHR 0x0A]"] by blast
qed

end
