(* ===== verification/Constrained_AddKey.thy ===== *)
theory Constrained_AddKey
  imports Constrained_Plan Wgtypes
begin

text \<open>
  The two response bodies of constrained mode: the token and the \<open>addKey\<close> result, their
  parsers, the checks of the result against the plan, and the WireGuard configuration that
  is rendered from it.
\<close>

record addKeyResult =
  akStatus :: bytes
  akServerKey :: bytes
  akServerPort :: int
  akServerIP :: bytes
  akServerVIP :: bytes
  akPeerIP :: bytes
  akPeerPubKey :: bytes
  akDNSServers :: "bytes list"

section \<open>Parsing the bodies\<close>

definition parseConstrainedTokenDetailed :: "bytes \<Rightarrow> failureDetail + bytes" where
  "parseConstrainedTokenDetailed raw =
     (case strictJSONObject raw (\<lambda>k. k = ''token'') of
        Inl (UnexpectedField _) \<Rightarrow> Inl DetailTokenUnexpectedField
      | Inl _ \<Rightarrow> Inl DetailTokenJSONParseFailed
      | Inr fs \<Rightarrow>
          if length fs \<noteq> 1 then Inl DetailTokenMissingField
          else
            (case decodeJSONString (map_of fs ''token'') of
               None \<Rightarrow> Inl DetailTokenInvalidToken
             | Some token \<Rightarrow>
                 if \<not> validVisibleASCII token maxConstrainedTokenSize
                 then Inl DetailTokenInvalidToken
                 else Inr token))"

definition addKeyStrings :: "bytes list" where
  "addKeyStrings = [''status'', ''server_key'', ''server_ip'', ''server_vip'', ''peer_ip'', ''peer_pubkey'']"

definition addKeyKeys :: "bytes list" where
  "addKeyKeys = addKeyStrings @ [''server_port'', ''dns_servers'']"

definition parseConstrainedAddKeyDetailed :: "bytes \<Rightarrow> failureDetail + addKeyResult" where
  "parseConstrainedAddKeyDetailed raw =
     (case strictJSONObject raw (\<lambda>k. k \<in> set addKeyKeys) of
        Inl (UnexpectedField _) \<Rightarrow> Inl DetailAddKeyUnexpectedField
      | Inl _ \<Rightarrow> Inl DetailAddKeyJSONParseFailed
      | Inr fs \<Rightarrow>
          if length fs \<noteq> 8 then Inl DetailAddKeyMissingField
          else
            (let str = (\<lambda>k. decodeJSONString (map_of fs k)) in
             if list_ex (\<lambda>k. str k = None) addKeyStrings then Inl DetailAddKeyFieldDecodeFailed
             else
               (case Option.bind (map_of fs ''server_port'') (\<lambda>r. unmarshalInt r 0) of
                  None \<Rightarrow> Inl DetailAddKeyFieldDecodeFailed
                | Some port \<Rightarrow>
                    (case Option.bind (map_of fs ''dns_servers'') unmarshalStrings of
                       None \<Rightarrow> Inl DetailAddKeyFieldDecodeFailed
                     | Some dns \<Rightarrow>
                         Inr \<lparr>akStatus = the (str ''status''), akServerKey = the (str ''server_key''),
                              akServerPort = port, akServerIP = the (str ''server_ip''),
                              akServerVIP = the (str ''server_vip''), akPeerIP = the (str ''peer_ip''),
                              akPeerPubKey = the (str ''peer_pubkey''), akDNSServers = dns\<rparr>))))"

definition parseConstrainedAddKey :: "bytes \<Rightarrow> addKeyResult option" where
  "parseConstrainedAddKey raw =
     (case parseConstrainedAddKeyDetailed raw of Inl _ \<Rightarrow> None | Inr r \<Rightarrow> Some r)"

section \<open>Checking the result\<close>

abbreviation responseInvalid :: "failureDetail \<Rightarrow> failureReason option" where
  "responseInvalid d \<equiv> constrainedFailureWithDetail ClassResponseInvalid (detailString d)"

abbreviation keyParses :: "bytes \<Rightarrow> bool" where
  "keyParses s \<equiv> \<not> isl (ParseKey s)"

definition validateConstrainedAddKey ::
  "constrainedPlan \<Rightarrow> addKeyResult \<Rightarrow> bytes \<Rightarrow> failureReason option" where
  "validateConstrainedAddKey plan r publicKey =
     (if akStatus r \<noteq> ''OK'' then responseInvalid DetailAddKeyInvalidStatus
      else if \<not> keyParses (akServerKey r) then responseInvalid DetailAddKeyInvalidServerKey
      else if akServerPort r < 1 \<or> 65535 < akServerPort r
        then responseInvalid DetailAddKeyInvalidServerPort
      else if \<not> validIPv4 (akServerIP r) then responseInvalid DetailAddKeyInvalidServerIP
      else if \<not> validConstrainedPeerIP (akPeerIP r) then responseInvalid DetailAddKeyInvalidPeerIP
      else if \<not> keyParses (akPeerPubKey r) \<or> akPeerPubKey r \<noteq> publicKey
        then responseInvalid DetailAddKeyInvalidPeerPubKey
      else if length (akDNSServers r) < 1 \<or> 8 < length (akDNSServers r)
        then responseInvalid DetailAddKeyInvalidDNS
      else if list_ex (\<lambda>d. \<not> validIPv4 d) (akDNSServers r) then responseInvalid DetailAddKeyInvalidDNS
      else if cpPortForwarding plan
        then (if \<not> validIPv4 (akServerVIP r) then responseInvalid DetailAddKeyInvalidServerVIP else None)
      else if akServerVIP r \<noteq> [] then responseInvalid DetailAddKeyInvalidServerVIP
      else None)"

definition wf_addKey :: "bool \<Rightarrow> bytes \<Rightarrow> addKeyResult \<Rightarrow> bool" where
  "wf_addKey pf publicKey r \<longleftrightarrow>
     akStatus r = ''OK'' \<and> keyParses (akServerKey r) \<and>
     1 \<le> akServerPort r \<and> akServerPort r \<le> 65535 \<and>
     validIPv4 (akServerIP r) \<and> validConstrainedPeerIP (akPeerIP r) \<and>
     akPeerPubKey r = publicKey \<and> keyParses publicKey \<and>
     akDNSServers r \<noteq> [] \<and> length (akDNSServers r) \<le> 8 \<and> (\<forall>d \<in> set (akDNSServers r). validIPv4 d) \<and>
     (if pf then validIPv4 (akServerVIP r) else akServerVIP r = [])"

lemma validateConstrainedAddKey_None:
  "validateConstrainedAddKey plan r pk = None \<longleftrightarrow> wf_addKey (cpPortForwarding plan) pk r"
proof -
  have len: "length (akDNSServers r) < 1 \<or> 8 < length (akDNSServers r) \<longleftrightarrow>
      \<not> (akDNSServers r \<noteq> [] \<and> length (akDNSServers r) \<le> 8)"
    by (cases "akDNSServers r") auto
  show ?thesis
    unfolding validateConstrainedAddKey_def wf_addKey_def list_ex_iff len
    by (simp split del: if_split cong: conj_cong) (auto split: if_splits)
qed

section \<open>The configuration\<close>

definition constrainedPeerAddress :: "bytes \<Rightarrow> bytes" where
  "constrainedPeerAddress value =
     (case parseIP value of
        Some ip \<Rightarrow> (case to4 ip of Some q \<Rightarrow> dotted q @ ''/32'' | None \<Rightarrow> value)
      | None \<Rightarrow> value)"

abbreviation LF :: char where "LF \<equiv> CHR 0x0A"

definition constrainedWireguardConfig :: "bytes \<Rightarrow> bytes \<Rightarrow> bytes \<Rightarrow> bytes \<Rightarrow> bytes \<Rightarrow> bytes list" where
  \<comment> \<open>the lines of the template with its five fields filled in\<close>
  "constrainedWireguardConfig privateKey address dns publicKey endpoint =
     [''[Interface]'',
      ''PrivateKey = '' @ privateKey,
      ''Address = '' @ address,
      ''DNS = '' @ dns,
      ''[Peer]'',
      ''PublicKey = '' @ publicKey,
      ''AllowedIPs = 0.0.0.0/0'',
      ''Endpoint = '' @ endpoint,
      ''PersistentKeepalive = 25'']"

definition constrainedEndpointText :: "addKeyResult \<Rightarrow> bytes" where
  "constrainedEndpointText r = joinHostPort (akServerIP r) (itoa (akServerPort r))"

definition renderConstrainedConfig :: "bytes \<Rightarrow> addKeyResult \<Rightarrow> bytes" where
  "renderConstrainedConfig privateKey r =
     concat (map (\<lambda>l. l @ [LF])
       (constrainedWireguardConfig privateKey (constrainedPeerAddress (akPeerIP r))
          (akDNSServers r ! 0) (akServerKey r) (constrainedEndpointText r)))"

section \<open>Address texts are printable\<close>

lemma is_hex_printable: "is_hex c \<Longrightarrow> printable c"
  by (auto simp: byte_class printable_def)

lemma v4_fields_printable: "v4_fields p v n fs s = Some q \<Longrightarrow> list_all printable s"
  by (induction p v n fs s rule: v4_fields.induct)
    (auto simp: printable_digit printable_def [of "CHR ''.''"] split: if_splits)

lemma hex_group_text:
  "hex_group off acc s = Some (off', acc', r) \<Longrightarrow> \<exists>u. s = u @ r \<and> list_all printable u"
proof (induction off acc s rule: hex_group.induct)
  case (1 off acc)
  then show ?case by simp
next
  case (2 off acc c cs)
  show ?case
  proof (cases "hex_digit c")
    case None
    then show ?thesis using "2.prems" by (intro exI [of _ "[]"]) simp
  next
    case (Some d)
    then obtain u where "cs = u @ r" "list_all printable u"
      using 2 by (auto split: if_splits)
    moreover have "printable c" using Some is_hex_printable by (auto simp: hex_digit_def split: if_splits)
    ultimately show ?thesis by (intro exI [of _ "c # u"]) simp
  qed
qed

lemma v6_loop_text:
  "v6_loop ip ell s = Some (ip', ell', r) \<Longrightarrow> \<exists>u. s = u @ r \<and> list_all printable u"
proof (induction ip ell s rule: v6_loop.induct)
  case (1 ip ell s)
  show ?case
  proof (cases "16 \<le> length ip")
    case True
    then show ?thesis using "1.prems" by (simp add: v6_loop.simps [of ip])
  next
    case False
    obtain off acc r' where h: "hex_group 0 0 s = Some (off, acc, r')"
      using "1.prems" False by (auto simp: v6_loop.simps [of ip] split: option.splits)
    obtain g where g: "s = g @ r'" "list_all printable g" using hex_group_text [OF h] by blast
    show ?thesis
    proof (cases "r' \<noteq> [] \<and> hd r' = CHR ''.''")
      case True
      then obtain q where "parseIPv4Fields s = Some q" "r = []"
        using "1.prems" False h by (auto simp: v6_loop.simps [of ip] split: if_splits)
      then show ?thesis using v4_fields_printable by (auto simp: parseIPv4Fields_def)
    next
      case dot: False
      have off: "off \<noteq> 0"
      proof
        assume "off = 0"
        then show False using "1.prems" False h by (simp add: v6_loop.simps [of ip])
      qed
      note IH = "1.IH" [OF False h refl refl off dot]
      show ?thesis
      proof (cases r')
        case Nil
        then show ?thesis
          using "1.prems" False h off g by (simp add: v6_loop.simps [of ip])
      next
        case (Cons c t)
        then obtain x u where t: "c = CHR '':''" "t = x # u"
          using "1.prems" False h off dot
          by (auto simp: v6_loop.simps [of ip] split: list.splits if_splits)
        let ?ip2 = "ip @ [acc div 256, acc mod 256]"
        have eq: "v6_loop ip ell s =
            (if x = CHR '':'' then
               (if ell \<noteq> None then None
                else if u = [] then Some (?ip2, Some (length ip + 2), [])
                else v6_loop ?ip2 (Some (length ip + 2)) u)
             else v6_loop ?ip2 ell t)"
          using False h off Cons t dot by (simp add: v6_loop.simps [of ip])
        have colon: "printable (CHR '':'')" by (simp add: printable_def)
        consider (stop) "x = CHR '':''" "u = []" "r = []"
          | (dbl) "x = CHR '':''" "ell = None" "u \<noteq> []"
              "v6_loop ?ip2 (Some (length ip + 2)) u = Some (ip', ell', r)"
          | (more) "x \<noteq> CHR '':''" "v6_loop ?ip2 ell t = Some (ip', ell', r)"
          using "1.prems" unfolding eq by (auto split: if_splits)
        then show ?thesis
        proof cases
          case stop
          then show ?thesis using g Cons t colon by simp
        next
          case dbl
          obtain v where "u = v @ r" "list_all printable v"
            using IH(1) [OF Cons _ t(2) dbl(1) _ dbl(3,4)] t(1) dbl(2) by auto
          then show ?thesis
            using g Cons t colon dbl(1) by (intro exI [of _ "g @ c # x # v"]) simp
        next
          case more
          obtain v where "t = v @ r" "list_all printable v"
            using IH(2) [OF Cons _ t(2) more] t(1) by auto
          then show ?thesis
            using g Cons t(1) colon by (intro exI [of _ "g @ c # v"]) simp
        qed
      qed
    qed
  qed
qed

lemma v6_text_printable:
  assumes "v6_loop ip e s = Some (ip', ell', r)" and "v6_finish ip' ell' r = Some a"
  shows "list_all printable s"
  using v6_loop_text [OF assms(1)] assms(2) by (auto simp: v6_finish_def split: if_splits)

lemma parseIPv6_printable:
  assumes "parseIPv6 s = Some (Addr6 ip [])"
  shows "list_all printable s"
proof -
  have "CHR ''%'' \<notin> set s"
    using assms by (auto simp: parseIPv6_def Let_def split: option.splits if_splits
        simp flip: indexByte_None_iff)
  then have n: "indexByte s (CHR ''%'') = None" by (simp add: indexByte_None_iff)
  have colon: "printable (CHR '':'')" by (simp add: printable_def)
  show ?thesis
  proof (cases "hasPrefix s ''::''")
    case True
    then obtain t where s: "s = ''::'' @ t" by (auto simp: hasPrefix_iff)
    have "list_all printable t"
      using assms n by (cases "t = []")
        (auto simp: parseIPv6_def s intro: v6_text_printable split: option.splits)
    then show ?thesis using s colon by simp
  next
    case False
    then show ?thesis
      using assms n by (auto simp: parseIPv6_def intro: v6_text_printable split: option.splits)
  qed
qed

lemma parseAddr_printable:
  assumes "parseAddr s = Some a" and "as16 a \<noteq> None"
  shows "list_all printable s"
proof -
  have "parse_addr_scan s t = Some a \<Longrightarrow> list_all printable s" for t
    using assms(2)
  proof (induction s t rule: parse_addr_scan.induct)
    case (2 s c cs)
    obtain ip zone where "a = Addr4 ip \<or> a = Addr6 ip zone \<and> zone = []"
      using "2.prems"(2) by (cases a) (auto split: if_splits)
    then show ?case
      using 2 v4_fields_printable parseIPv6_printable parseIPv6_shape [of s]
      by (auto simp: parseIPv4Fields_def split: if_splits)
  qed simp
  then show ?thesis using assms(1) by (auto simp: parseAddr_def)
qed

lemma dtoi_digits:
  "dtoi n i s = (m, k, b) \<Longrightarrow> k \<le> i + length s \<and> (k = i + length s \<longrightarrow> list_all is_digit s)"
  by (induction n i s rule: dtoi.induct) (fastforce split: if_splits)+

lemma parseCIDR_printable:
  assumes "parseCIDR s = Some ip"
  shows "list_all printable s"
proof -
  obtain i a n k ok where i: "indexByte s (CHR ''/'') = Some i"
    and a: "parseAddr (take i s) = Some a" "as16 a \<noteq> None"
    and d: "dtoi 0 0 (drop (Suc i) s) = (n, k, ok)" "k = length (drop (Suc i) s)"
    using assms by (auto simp: parseCIDR_def Let_def split: option.splits prod.splits if_splits)
  have eq: "s = take i s @ CHR ''/'' # drop (Suc i) s"
    using indexByte_SomeD [OF i] by (metis id_take_nth_drop)
  have "list_all printable (drop (Suc i) s)"
    using dtoi_digits [OF d(1)] d(2) by (auto simp: list_all_iff printable_digit)
  moreover have "printable (CHR ''/'')" by (simp add: printable_def)
  ultimately have "list_all printable (take i s @ CHR ''/'' # drop (Suc i) s)"
    using parseAddr_printable [OF a] by simp
  with eq show ?thesis by simp
qed

lemma parseIP_printable: "parseIP s = Some ip \<Longrightarrow> list_all printable s"
  using parseAddr_printable by (auto simp: parseIP_def split: bind_splits)

lemma peer_printable:
  assumes "validConstrainedPeerIP s"
  shows "list_all printable (constrainedPeerAddress s)"
proof -
  have s: "list_all printable s"
    using assms parseIP_printable parseCIDR_printable
    by (auto simp: validConstrainedPeerIP_def split: option.splits)
  have "list_all printable (dotted q)" for q
    by (induction q rule: dotted.induct) (auto simp: printable_utoa printable_def [of "CHR ''.''"])
  moreover have "list_all printable ''/32''" by (simp add: printable_def)
  ultimately show ?thesis
    using s by (auto simp: constrainedPeerAddress_def split: option.splits)
qed

section \<open>The lines of a configuration\<close>

lemma splitByte_line: "b \<notin> set l \<Longrightarrow> splitByte b (l @ b # s) = l # splitByte b s"
  by (induction l) auto

lemma splitByte_lines:
  "\<forall>l \<in> set ls. b \<notin> set l \<Longrightarrow> splitByte b (concat (map (\<lambda>l. l @ [b]) ls)) = ls @ [[]]"
  by (induction ls) (simp_all add: splitByte_line)

lemma length_splitByte: "length (splitByte b s) = Suc (count_list s b)"
  by (induction b s rule: splitByte.induct) (auto split: list.splits)

lemma printable_not_LF: "list_all printable s \<Longrightarrow> LF \<notin> set s"
  by (auto simp: list_all_iff printable_def)

lemma b64_not_LF: "list_all b64_letter s \<Longrightarrow> LF \<notin> set s"
  using b64_letter_newline by (fastforce simp: list_all_iff is_newline_def)

lemma printable_itoa: "list_all printable (itoa i)"
  using printable_utoa by (simp add: itoa_def printable_def [of "CHR ''-''"])

lemma joinHostPort_ipv4:
  assumes "validIPv4 h"
  shows "joinHostPort h p = h @ CHR '':'' # p"
proof -
  obtain a b c d where h: "h = dotted [a, b, c, d]" using assms by (auto simp: validIPv4_iff)
  have "CHR '':'' \<notin> set (utoa n)" "CHR ''%'' \<notin> set (utoa n)" for n
    using utoa_digits [of n] by (auto simp: list_all_iff is_digit_def)
  then have "CHR '':'' \<notin> set h \<and> CHR ''%'' \<notin> set h" using h by simp
  then show ?thesis by (simp add: joinHostPort_def)
qed

lemma endpoint_printable: "wf_addKey pf pk r \<Longrightarrow> list_all printable (constrainedEndpointText r)"
  using ipv4.check_printable [of "akServerIP r"] printable_itoa [of "akServerPort r"]
  by (simp add: constrainedEndpointText_def wf_addKey_def joinHostPort_ipv4 printable_def [of "CHR '':''"])

lemma dns_printable:
  assumes "wf_addKey pf pk r"
  shows "list_all printable (akDNSServers r ! 0)"
proof -
  have "akDNSServers r ! 0 \<in> set (akDNSServers r)"
    using assms by (intro nth_mem) (simp add: wf_addKey_def)
  then show ?thesis using assms ipv4.check_printable by (simp add: wf_addKey_def)
qed

lemma config_other_lines:
  assumes "wf_addKey pf pk r"
  shows "LF \<notin> set (constrainedPeerAddress (akPeerIP r))" "LF \<notin> set (akDNSServers r ! 0)"
    "LF \<notin> set (constrainedEndpointText r)"
  using assms printable_not_LF peer_printable [of "akPeerIP r"] dns_printable endpoint_printable
  by (auto simp: wf_addKey_def)

text \<open>
  C12: when the result passes \<open>validateConstrainedAddKey\<close>, the private key is a key text and
  the server key has no line break, the rendered configuration is exactly the nine
  expected lines: no field can add a line or change another one, and the endpoint is the
  address and the decimal port.
\<close>

theorem rendered_config_lines:
  assumes "validateConstrainedAddKey plan r pk = None" and "list_all b64_letter priv"
    and "\<not> list_ex is_newline (akServerKey r)"
  shows "splitByte LF (renderConstrainedConfig priv r) =
      [''[Interface]'', ''PrivateKey = '' @ priv,
       ''Address = '' @ constrainedPeerAddress (akPeerIP r), ''DNS = '' @ hd (akDNSServers r),
       ''[Peer]'', ''PublicKey = '' @ akServerKey r, ''AllowedIPs = 0.0.0.0/0'',
       ''Endpoint = '' @ akServerIP r @ CHR '':'' # utoa (nat (akServerPort r)),
       ''PersistentKeepalive = 25'', []]"
proof -
  have wf: "wf_addKey (cpPortForwarding plan) pk r"
    using assms(1) by (simp add: validateConstrainedAddKey_None)
  have key: "LF \<notin> set (akServerKey r)"
    using assms(3) by (auto simp: list_ex_iff is_newline_def)
  have hd: "akDNSServers r ! 0 = hd (akDNSServers r)"
    using wf by (simp add: wf_addKey_def hd_conv_nth)
  have e: "constrainedEndpointText r = akServerIP r @ CHR '':'' # utoa (nat (akServerPort r))"
    using wf by (simp add: constrainedEndpointText_def joinHostPort_ipv4 wf_addKey_def itoa_def)
  let ?ls = "constrainedWireguardConfig priv (constrainedPeerAddress (akPeerIP r))
      (akDNSServers r ! 0) (akServerKey r) (constrainedEndpointText r)"
  have "\<forall>l \<in> set ?ls. LF \<notin> set l"
    using config_other_lines [OF wf] key b64_not_LF [OF assms(2)]
    by (simp add: constrainedWireguardConfig_def)
  then have "splitByte LF (renderConstrainedConfig priv r) = ?ls @ [[]]"
    unfolding renderConstrainedConfig_def by (rule splitByte_lines)
  then show ?thesis by (simp add: constrainedWireguardConfig_def hd e)
qed

definition exampleKey :: bytes where
  "exampleKey = keyString (zeroKey[31 := CHR 0x40])"

definition exampleAddKey :: addKeyResult where
  "exampleAddKey =
     \<lparr>akStatus = ''OK'', akServerKey = keyString zeroKey, akServerPort = 1337,
      akServerIP = ''203.0.113.10'', akServerVIP = ''10.0.0.1'', akPeerIP = ''10.1.2.3'',
      akPeerPubKey = exampleKey, akDNSServers = [''10.0.0.242'', ''10.0.0.243'']\<rparr>"

lemma exampleAddKey_valid: "validateConstrainedAddKey examplePlan exampleAddKey exampleKey = None"
  by code_simp

theorem rendered_config_lines_witness:
  "validateConstrainedAddKey examplePlan exampleAddKey exampleKey = None
   \<and> length (splitByte LF (renderConstrainedConfig exampleKey exampleAddKey)) = 10"
proof -
  have "list_all b64_letter exampleKey" "\<not> list_ex is_newline (akServerKey exampleAddKey)"
    by code_simp+
  then show ?thesis
    using exampleAddKey_valid rendered_config_lines [of examplePlan exampleAddKey exampleKey exampleKey]
    by simp
qed

text \<open>
  The number of lines of the rendered configuration is ten (the empty one after the
  last line break included) plus the number of line feeds in the server key, and nothing
  else of an accepted response adds any. The server key is the one field whose check lets
  line feeds through, so such a response is rendered to a configuration with extra lines.
\<close>

theorem rendered_config_line_count:
  assumes "validateConstrainedAddKey plan r pk = None" and "list_all b64_letter priv"
  shows "length (splitByte LF (renderConstrainedConfig priv r))
    = 10 + count_list (akServerKey r) LF"
proof -
  have wf: "wf_addKey (cpPortForwarding plan) pk r"
    using assms(1) by (simp add: validateConstrainedAddKey_None)
  note no = config_other_lines [OF wf] b64_not_LF [OF assms(2)]
  show ?thesis
    unfolding length_splitByte renderConstrainedConfig_def constrainedWireguardConfig_def
    using no [THEN count_notin] by simp
qed

definition brokenKey :: bytes where
  "brokenKey = take 10 (keyString zeroKey) @ LF # drop 10 (keyString zeroKey)"

theorem rendered_config_line_count_witness:
  "validateConstrainedAddKey examplePlan (exampleAddKey\<lparr>akServerKey := brokenKey\<rparr>) exampleKey = None
   \<and> length (splitByte LF (renderConstrainedConfig exampleKey
        (exampleAddKey\<lparr>akServerKey := brokenKey\<rparr>))) = 11"
proof -
  let ?r = "exampleAddKey\<lparr>akServerKey := brokenKey\<rparr>"
  have v: "validateConstrainedAddKey examplePlan ?r exampleKey = None" by code_simp
  have "list_all b64_letter exampleKey" "count_list (akServerKey ?r) LF = 1" by code_simp+
  then show ?thesis
    using v rendered_config_line_count [of examplePlan ?r exampleKey exampleKey] by simp
qed

end
