(* ===== verification/Constrained_CA.thy ===== *)
theory Constrained_CA
  imports Constrained_Failure
begin

text \<open>
  CA bundles of constrained mode: \<open>parseConstrainedCABundle\<close> and \<open>pemDecode\<close>. The packages
  \<open>encoding/pem\<close> and \<open>crypto/x509\<close> are arguments: what \<open>pem.Decode\<close> returns for a text, and
  what \<open>x509.ParseCertificate\<close> returns for DER bytes. The theorem characterises the accepted
  bundles for every such pair.
\<close>

unbundle bit_operations_syntax

record certificate =
  certRaw :: bytes
  certIsCA :: bool
  certKeyUsage :: int
  certDNSNames :: "bytes list"
  certIPAddresses :: "bytes list"
  certCommonName :: bytes

record pki =
  pemDecodeStd :: "bytes \<Rightarrow> (bytes \<times> bytes \<times> bytes) option"
  parseCertificate :: "bytes \<Rightarrow> certificate option"
  verifyChain :: "certificate list \<Rightarrow> certificate list \<Rightarrow> certificate \<Rightarrow> bool"
  verifyHostname :: "certificate \<Rightarrow> bytes \<Rightarrow> bool"

text \<open>
  \<open>pemDecodeStd\<close> gives the type, the bytes and the rest; \<open>verifyChain roots intermediates leaf\<close>
  is \<open>Certificate.Verify\<close> for server authentication at the current time.
\<close>

type_synonym certPool = "certificate list"

definition addCert :: "certPool \<Rightarrow> certificate \<Rightarrow> certPool" where
  "addCert pool cert = (if cert \<in> set pool then pool else pool @ [cert])"

definition pemBegin :: bytes where
  "pemBegin = ''-----BEGIN CERTIFICATE-----'' @ [CHR 0x0A]"

definition pemDecode :: "pki \<Rightarrow> bytes \<Rightarrow> (bytes \<times> bytes \<times> bytes) option" where
  "pemDecode x raw = (if \<not> hasPrefix raw pemBegin then None else pemDecodeStd x raw)"

definition keyUsageCertSign :: int where "keyUsageCertSign = 32"

datatype bundle_error =
    InvalidBundle | InvalidBlock | InvalidCA | InvalidKeyUsage | TooManyCertificates

definition caBlock :: "pki \<Rightarrow> bytes \<Rightarrow> bundle_error + certificate \<times> bytes" where
  \<comment> \<open>one round of the loop up to \<open>pool.AddCert\<close>\<close>
  "caBlock x remaining =
     (case pemDecode x remaining of
        None \<Rightarrow> Inl InvalidBlock
      | Some (ty, der, rest) \<Rightarrow>
          if ty \<noteq> ''CERTIFICATE'' \<or> maxConstrainedDERCertSize < length der then Inl InvalidBlock
          else
            (case parseCertificate x der of
               None \<Rightarrow> Inl InvalidCA
             | Some cert \<Rightarrow>
                 if \<not> certIsCA cert then Inl InvalidCA
                 else if certKeyUsage cert \<noteq> 0 \<and> certKeyUsage cert AND keyUsageCertSign = 0
                   then Inl InvalidKeyUsage
                 else Inr (cert, rest)))"

function bundle_loop :: "pki \<Rightarrow> bytes \<Rightarrow> nat \<Rightarrow> certPool \<Rightarrow> bundle_error + certPool" where
  "bundle_loop x remaining count pool =
     (if remaining = [] then Inr pool
      else
        (case caBlock x remaining of
           Inl e \<Rightarrow> Inl e
         | Inr (cert, rest) \<Rightarrow>
             if 4 < count + 1 then Inl TooManyCertificates
             else bundle_loop x rest (count + 1) (addCert pool cert)))"
  by pat_completeness auto
termination
  by (relation "measure (\<lambda>(_, _, count, _). 4 - count)") auto

declare bundle_loop.simps [simp del]

definition parseConstrainedCABundle :: "pki \<Rightarrow> bytes \<Rightarrow> bundle_error + certPool" where
  \<comment> \<open>the final test for an empty bundle cannot be reached: the first block is decoded or refused\<close>
  "parseConstrainedCABundle x raw =
     (if raw = [] \<or> maxConstrainedCABundleSize < length raw then Inl InvalidBundle
      else bundle_loop x raw 0 [])"

section \<open>The accepted bundles\<close>

definition ca_ok :: "certificate \<Rightarrow> bool" where
  "ca_ok cert \<longleftrightarrow>
     certIsCA cert \<and> (certKeyUsage cert = 0 \<or> certKeyUsage cert AND keyUsageCertSign \<noteq> 0)"

fun ca_chain :: "pki \<Rightarrow> bytes \<Rightarrow> certificate list \<Rightarrow> bool" where
  \<comment> \<open>read by \<open>pemDecodeStd\<close>, the text is these certificate blocks, one after the other; what the decoder
    passes over within a block is not seen here\<close>
  "ca_chain x input [] = (input = [])"
| "ca_chain x input (cert # certs) =
     (hasPrefix input pemBegin \<and>
      (case pemDecodeStd x input of
         None \<Rightarrow> False
       | Some (ty, der, rest) \<Rightarrow>
           ty = ''CERTIFICATE'' \<and> length der \<le> maxConstrainedDERCertSize \<and>
           parseCertificate x der = Some cert \<and> ca_ok cert \<and> ca_chain x rest certs))"

lemma caBlock_chain:
  "ca_chain x input (cert # certs) \<longleftrightarrow>
     (\<exists>rest. caBlock x input = Inr (cert, rest) \<and> ca_chain x rest certs)"
  by (auto simp: caBlock_def pemDecode_def ca_ok_def split: option.splits)

lemma ca_chain_nonempty: "ca_chain x input (cert # certs) \<Longrightarrow> input \<noteq> []"
  by (auto simp: pemBegin_def)

lemma bundle_loop_chain:
  "count \<le> 4 \<Longrightarrow>
   bundle_loop x input count pool = Inr pool' \<longleftrightarrow>
     (\<exists>certs. ca_chain x input certs \<and> count + length certs \<le> 4 \<and> pool' = foldl addCert pool certs)"
proof (induction x input count pool rule: bundle_loop.induct)
  case (1 x input count pool)
  show ?case
  proof (cases "input = []")
    case True
    have nil: "ca_chain x input certs \<longleftrightarrow> certs = []" for certs
      using True ca_chain_nonempty [of x input] by (cases certs) auto
    show ?thesis
      unfolding nil bundle_loop.simps [of x input] using True "1.prems" by auto
  next
    case nonempty: False
    have chain: "ca_chain x input certs \<longleftrightarrow> (\<exists>cert rest more. certs = cert # more
        \<and> caBlock x input = Inr (cert, rest) \<and> ca_chain x rest more)" for certs
      using nonempty caBlock_chain by (cases certs) auto
    show ?thesis
    proof (cases "caBlock x input")
      case (Inl e)
      then show ?thesis using nonempty chain by (simp add: bundle_loop.simps [of x input])
    next
      case (Inr cr)
      obtain cert rest where cr: "cr = (cert, rest)" by (cases cr)
      show ?thesis
      proof (cases "4 < count + 1")
        case True
        then show ?thesis using nonempty chain Inr cr by (auto simp: bundle_loop.simps [of x input])
      next
        case False
        then show ?thesis
          using nonempty chain Inr cr "1.IH" [OF nonempty Inr cr [symmetric] False]
          by (auto simp: bundle_loop.simps [of x input])
      qed
    qed
  qed
qed

lemma set_addCert: "set (foldl addCert pool certs) = set pool \<union> set certs"
  by (induction certs arbitrary: pool) (auto simp: addCert_def)

lemma ca_chain_ok: "ca_chain x input certs \<Longrightarrow> \<forall>c \<in> set certs. ca_ok c"
  by (induction x input certs rule: ca_chain.induct) (auto split: option.splits)

lemma caBundle_chain:
  "parseConstrainedCABundle x raw = Inr pool \<longleftrightarrow>
     raw \<noteq> [] \<and> length raw \<le> maxConstrainedCABundleSize \<and>
     (\<exists>certs. ca_chain x raw certs \<and> length certs \<in> {1..4} \<and> pool = foldl addCert [] certs)"
proof (cases "raw = []")
  case True
  then show ?thesis by (simp add: parseConstrainedCABundle_def)
next
  case False
  then have "ca_chain x raw certs \<Longrightarrow> 1 \<le> length certs" for certs by (cases certs) auto
  then show ?thesis
    using False bundle_loop_chain [of 0 x raw "[]" pool]
    by (auto simp: parseConstrainedCABundle_def)
qed

text \<open>
  C28: \<open>parseConstrainedCABundle\<close> accepts exactly the non-empty texts within the size limit
  that \<open>pem.Decode\<close>, a parameter, reads as one to four blocks, one after the other: each starts
  with the BEGIN line of a certificate where the block before ended, and nothing is left after
  the last; each is of type CERTIFICATE, within the DER limit, and a certificate that
  \<open>x509.ParseCertificate\<close> accepts, of a CA whose key usage, when it states one, allows signing. The pool holds
  exactly those certificates. The loop ends for every behaviour of the PEM decoder. What the
  decoder itself passes over is not excluded: the test for the BEGIN line leaves it free to skip a
  malformed block and read the one after it, and to drop blanks behind an END line.
\<close>

theorem caBundle_exact:
  "parseConstrainedCABundle x raw = Inr pool \<longleftrightarrow>
     raw \<noteq> [] \<and> length raw \<le> maxConstrainedCABundleSize \<and>
     (\<exists>certs. ca_chain x raw certs \<and> length certs \<in> {1..4} \<and> pool = foldl addCert [] certs)"
  by (rule caBundle_chain)

text \<open>
  No accepted pool is empty, and every certificate in it is a CA allowed to sign, so a
  leaf certificate can never become a trust anchor.
\<close>

theorem caBundle_anchors:
  assumes "parseConstrainedCABundle x raw = Inr pool"
  shows "pool \<noteq> [] \<and> length pool \<le> 4 \<and> (\<forall>c \<in> set pool. certIsCA c
    \<and> (certKeyUsage c = 0 \<or> certKeyUsage c AND keyUsageCertSign \<noteq> 0))"
proof -
  obtain certs where c: "ca_chain x raw certs" "length certs \<in> {1..4}" "pool = foldl addCert [] certs"
    using assms by (auto simp: caBundle_chain)
  have len: "length (foldl addCert p certs) \<le> length p + length certs" for p
    by (induction certs arbitrary: p) (fastforce simp: addCert_def intro: le_trans)+
  show ?thesis
    using c ca_chain_ok [OF c(1)] set_addCert [of "[]" certs] len [of "[]"]
    by (auto simp: ca_ok_def)
qed

definition examplePki :: pki where
  "examplePki =
     \<lparr>pemDecodeStd = (\<lambda>s. Some (''CERTIFICATE'', drop 28 s, [])),
      parseCertificate = (\<lambda>der. Some \<lparr>certRaw = der, certIsCA = True, certKeyUsage = 96,
         certDNSNames = [], certIPAddresses = [], certCommonName = der\<rparr>),
      verifyChain = (\<lambda>roots _ leaf. leaf \<in> set roots),
      verifyHostname = (\<lambda>leaf name. name \<in> set (certDNSNames leaf))\<rparr>"

definition exampleBundle :: bytes where
  "exampleBundle = pemBegin @ ''root''"

theorem caBundle_anchors_witness:
  "\<exists>pool. parseConstrainedCABundle examplePki exampleBundle = Inr pool
     \<and> pool \<noteq> [] \<and> (\<forall>c \<in> set pool. certIsCA c)"
proof -
  have "\<not> isl (parseConstrainedCABundle examplePki exampleBundle)" by code_simp
  then obtain pool where "parseConstrainedCABundle examplePki exampleBundle = Inr pool"
    by (cases "parseConstrainedCABundle examplePki exampleBundle") auto
  then show ?thesis using caBundle_anchors by blast
qed

end
