(* ===== verification/Byte_Stream.thy ===== *)
theory Byte_Stream
  imports Prelude
begin

text \<open>
  Bounded reading and writing: \<open>io.ReadAll(io.LimitReader(r, limit+1))\<close>, which the
  program uses for every descriptor and every response body, and the file functions of
  \<open>constrained.go\<close> around it. A reader is what it will deliver: its bytes, and whether a
  read error (a deadline that expires, a reset connection) follows them instead of the end
  of input. A file adds how it reacts to deadlines and whether it stalls.
\<close>

record source =
  srcBytes :: bytes
  srcFails :: bool

definition readAllLimited :: "source \<Rightarrow> nat \<Rightarrow> bytes option" where
  \<comment> \<open>\<open>io.ReadAll(io.LimitReader(r, n))\<close>: the error is seen only if the limit is not reached first\<close>
  "readAllLimited s n =
     (if n \<le> length (srcBytes s) then Some (take n (srcBytes s))
      else if srcFails s then None
      else Some (srcBytes s))"

lemma readAllLimited_within:
  assumes "readAllLimited s (Suc n) = Some raw" and "length raw \<le> n"
  shows "raw = srcBytes s \<and> \<not> srcFails s"
  using assms by (auto simp: readAllLimited_def split: if_splits)

lemma readAllLimited_short:
  "\<not> srcFails s \<Longrightarrow> length (srcBytes s) \<le> n \<Longrightarrow> readAllLimited s (Suc n) = Some (srcBytes s)"
  by (simp add: readAllLimited_def)

section \<open>Files and deadlines\<close>

record os_error =
  errIsNoDeadline :: bool
  errText :: bytes

fun strContains :: "bytes \<Rightarrow> bytes \<Rightarrow> bool" where
  "strContains [] sub = (sub = [])"
| "strContains (c # cs) sub = (hasPrefix (c # cs) sub \<or> strContains cs sub)"

definition unsupportedDeadline :: "os_error option \<Rightarrow> bool" where
  "unsupportedDeadline err =
     (case err of
        None \<Rightarrow> False
      | Some e \<Rightarrow> errIsNoDeadline e \<or> strContains (errText e) ''file type does not support deadline'')"

record os_file =
  flSource :: source
  flReadDeadline :: "os_error option"
  flWriteDeadline :: "os_error option"
  flStalls :: bool
  flWrite :: "nat \<Rightarrow> nat \<times> os_error option"

text \<open>
  \<open>flWrite n\<close> is what \<open>Write\<close> returns for \<open>n\<close> bytes; \<open>flStalls\<close> says that the goroutine that
  reads or writes a file without deadlines has not finished when the timeout fires.
\<close>

datatype file_error =
    OsFailure os_error | ReadFailure | InputTooLong | OutputTooLong | ShortWrite | DeadlineExceeded

definition readLimitedFileBody :: "os_file \<Rightarrow> nat \<Rightarrow> file_error + bytes" where
  "readLimitedFileBody f limit =
     (case readAllLimited (flSource f) (limit + 1) of
        None \<Rightarrow> Inl ReadFailure
      | Some raw \<Rightarrow> if limit < length raw then Inl InputTooLong else Inr raw)"

definition readLimitedFile :: "os_file \<Rightarrow> nat \<Rightarrow> file_error + bytes" where
  "readLimitedFile f limit =
     (case flReadDeadline f of
        None \<Rightarrow> readLimitedFileBody f limit
      | Some e \<Rightarrow>
          if \<not> unsupportedDeadline (flReadDeadline f) then Inl (OsFailure e)
          else if flStalls f then Inl DeadlineExceeded
          else readLimitedFileBody f limit)"

text \<open>A write returns its error and the bytes that reached the descriptor.\<close>

definition writeLimitedFileBody :: "os_file \<Rightarrow> bytes \<Rightarrow> file_error option \<times> bytes" where
  "writeLimitedFileBody f body =
     (case flWrite f (length body) of
        (n, Some e) \<Rightarrow> (Some (OsFailure e), take n body)
      | (n, None) \<Rightarrow> (if n \<noteq> length body then Some ShortWrite else None, take n body))"

definition writeLimitedFile :: "os_file \<Rightarrow> bytes \<Rightarrow> nat \<Rightarrow> file_error option \<times> bytes" where
  "writeLimitedFile f body limit =
     (if limit < length body then (Some OutputTooLong, [])
      else
        (case flWriteDeadline f of
           None \<Rightarrow> writeLimitedFileBody f body
         | Some e \<Rightarrow>
             if \<not> unsupportedDeadline (flWriteDeadline f) then (Some (OsFailure e), [])
             else if flStalls f then (Some DeadlineExceeded, snd (writeLimitedFileBody f body))
             else writeLimitedFileBody f body))"

definition setConstrainedReadDeadline :: "os_file \<Rightarrow> os_error option" where
  "setConstrainedReadDeadline f =
     (if unsupportedDeadline (flReadDeadline f) then None else flReadDeadline f)"

definition setConstrainedWriteDeadline :: "os_file \<Rightarrow> os_error option" where
  "setConstrainedWriteDeadline f =
     (if unsupportedDeadline (flWriteDeadline f) then None else flWriteDeadline f)"

section \<open>Limits are enforced\<close>

lemma readLimitedFileBody_Inr:
  "readLimitedFileBody f limit = Inr raw \<longleftrightarrow>
     raw = srcBytes (flSource f) \<and> \<not> srcFails (flSource f) \<and> length raw \<le> limit"
  by (auto simp: readLimitedFileBody_def readAllLimited_def split: option.splits if_splits)

lemma writeLimitedFileBody_ok:
  "writeLimitedFileBody f body = (None, out) \<Longrightarrow> out = body"
  by (auto simp: writeLimitedFileBody_def split: prod.splits option.splits if_splits)

lemma writeLimitedFile_ok:
  "writeLimitedFile f body limit = (None, out) \<Longrightarrow> out = body \<and> length body \<le> limit"
  by (auto simp: writeLimitedFile_def writeLimitedFileBody_ok split: if_splits option.splits)

lemma writeLimitedFileBody_prefix:
  "snd (writeLimitedFileBody f body) = take (fst (flWrite f (length body))) body"
  by (simp add: writeLimitedFileBody_def split: prod.splits option.splits)

lemma writeLimitedFile_prefix: "\<exists>n. snd (writeLimitedFile f body limit) = take n body"
proof -
  have none: "\<exists>n. [] = take n body" by (intro exI [of _ 0]) simp
  show ?thesis
    unfolding writeLimitedFile_def using none writeLimitedFileBody_prefix [of f body]
    by (cases "flWriteDeadline f") auto
qed

text \<open>
  C40: \<open>readLimitedFile\<close> returns exactly the whole input, and only when all of it was read
  without error and within the limit: an input that is too long is an error, never a
  truncated result, with or without deadline support.
\<close>

theorem readLimitedFile_exact:
  "readLimitedFile f limit = Inr raw \<longleftrightarrow>
     raw = srcBytes (flSource f) \<and> \<not> srcFails (flSource f) \<and> length (srcBytes (flSource f)) \<le> limit
     \<and> (flReadDeadline f = None \<or> unsupportedDeadline (flReadDeadline f) \<and> flStalls f = False)"
  by (auto simp: readLimitedFile_def readLimitedFileBody_Inr unsupportedDeadline_def
      split: option.splits if_splits)

text \<open>
  \<open>writeLimitedFile\<close> reports success only when every byte of the body was written and
  the body is within the limit; whatever it reports, the descriptor received a prefix of
  the body and nothing at all of a body over the limit.
\<close>

theorem writeLimitedFile_all_or_error:
  assumes "writeLimitedFile f body limit = (err, out)"
  shows "(\<exists>n. out = take n body) \<and> (if limit < length body then out = [] \<and> err \<noteq> None
     else if err = None then out = body else True)"
  using assms writeLimitedFile_prefix [of f body limit] writeLimitedFile_ok [of f body limit out]
  by (auto simp: writeLimitedFile_def)

definition exampleFile :: "os_file" where
  "exampleFile = \<lparr>flSource = \<lparr>srcBytes = ''abc'', srcFails = False\<rparr>, flReadDeadline = None,
     flWriteDeadline = None, flStalls = False, flWrite = (\<lambda>n. (n, None))\<rparr>"

theorem writeLimitedFile_all_or_error_witness:
  "writeLimitedFile exampleFile ''xyz'' 3 = (None, ''xyz'')
   \<and> writeLimitedFile exampleFile ''wxyz'' 3 = (Some OutputTooLong, [])"
proof
  have "fst (writeLimitedFile exampleFile ''xyz'' 3) = None" by code_simp
  then obtain out where "writeLimitedFile exampleFile ''xyz'' 3 = (None, out)"
    by (cases "writeLimitedFile exampleFile ''xyz'' 3") auto
  then show "writeLimitedFile exampleFile ''xyz'' 3 = (None, ''xyz'')"
    using writeLimitedFile_all_or_error [of exampleFile "''xyz''" 3 None out] by simp
  show "writeLimitedFile exampleFile ''wxyz'' 3 = (Some OutputTooLong, [])" by code_simp
qed

end
