(* ===== verification/Credentials.thy ===== *)
theory Credentials
  imports Json_Object Byte_Stream
begin

text \<open>
  \<open>credentials.go\<close>: the credential object read from a descriptor, and the credentials of an
  ordinary invocation. \<open>parseCredentials\<close> has its own loop over the JSON decoder; the
  theorem relates it to the strict object reader that the rest of the program uses.
\<close>

definition maxCredentialInputSize :: nat where
  "maxCredentialInputSize = 8 * 1024"

record credentials =
  username :: bytes
  password :: bytes

datatype credential_error =
    InvalidCredentialDescriptor | ReadCredentials | CredentialInputTooLarge | InvalidCredentialInput

definition credentialKey :: "bytes \<Rightarrow> bool" where
  "credentialKey key \<longleftrightarrow> key = ''username'' \<or> key = ''password''"

function credential_loop ::
  "decoder \<Rightarrow> (bytes \<times> bytes) list \<Rightarrow> ((bytes \<times> bytes) list \<times> decoder) option" where
  "credential_loop d vs =
     (if dec_more d then
        (case dec_token d of
           Some (TString key, d1) \<Rightarrow>
             if \<not> credentialKey key then None
             else if map_of vs key \<noteq> None then None
             else
               (case dec_decode d1 of
                  None \<Rightarrow> None
                | Some (r, d2) \<Rightarrow>
                    (case unmarshalString r [] of
                       None \<Rightarrow> None
                     | Some v \<Rightarrow> if v = [] then None else credential_loop d2 (vs @ [(key, v)])))
         | _ \<Rightarrow> None)
      else Some (vs, d))"
  by pat_completeness auto
termination
  by (relation "measure (\<lambda>(d, _). length (d_rest d))") (auto dest!: dec_token_less dec_decode_less)

declare credential_loop.simps [simp del]

definition parseCredentials :: "bytes \<Rightarrow> credentials option" where
  "parseCredentials raw =
     (if raw = [] \<or> \<not> utf8Valid raw then None
      else
        (case dec_token (newDecoder raw) of
           None \<Rightarrow> None
         | Some (t, d) \<Rightarrow>
             if t \<noteq> TDelim (CHR ''{'') then None
             else
               (case credential_loop d [] of
                  None \<Rightarrow> None
                | Some (vs, d1) \<Rightarrow>
                    (case dec_token d1 of
                       None \<Rightarrow> None
                     | Some (t1, d2) \<Rightarrow>
                         if t1 \<noteq> TDelim (CHR ''}'') then None
                         else if inputOffset raw d2 \<noteq> length raw then None
                         else if \<not> requireJSONEOF d2 then None
                         else if length vs \<noteq> 2 then None
                         else Some \<lparr>username = the (map_of vs ''username''),
                                    password = the (map_of vs ''password'')\<rparr>))))"

definition parseConstrainedCredentials :: "bytes \<Rightarrow> credentials option" where
  "parseConstrainedCredentials raw = parseCredentials raw"

definition argument :: "bytes list \<Rightarrow> nat \<Rightarrow> bytes" where
  "argument args i = (if length args \<le> i then [] else args ! i)"

record fd_input =
  fdSource :: source
  fdCloseFails :: bool

definition credentialsFromInvocation ::
  "(int \<Rightarrow> fd_input option) \<Rightarrow> bool \<Rightarrow> int \<Rightarrow> bytes list \<Rightarrow> credential_error + credentials" where
  \<comment> \<open>the first argument is \<open>os.NewFile\<close> on the descriptors of the process\<close>
  "credentialsFromInvocation newFile fdMode fd args =
     (if \<not> fdMode then Inr \<lparr>username = argument args 0, password = argument args 1\<rparr>
      else if args \<noteq> [] then Inl InvalidCredentialDescriptor
      else if fd < 3 then Inl InvalidCredentialDescriptor
      else
        (case newFile fd of
           None \<Rightarrow> Inl InvalidCredentialDescriptor
         | Some file \<Rightarrow>
             (case readAllLimited (fdSource file) (maxCredentialInputSize + 1) of
                None \<Rightarrow> Inl ReadCredentials
              | Some raw \<Rightarrow>
                  if fdCloseFails file then Inl ReadCredentials
                  else if maxCredentialInputSize < length raw then Inl CredentialInputTooLarge
                  else ok_or InvalidCredentialInput (parseCredentials raw))))"

section \<open>The credential reader is the strict reader with two fields\<close>

fun decodeFields :: "raw_fields \<Rightarrow> (bytes \<times> bytes) list option" where
  "decodeFields [] = Some []"
| "decodeFields ((k, r) # fs) =
     (case unmarshalString r [] of
        None \<Rightarrow> None
      | Some v \<Rightarrow> if v = [] then None else map_option ((#) (k, v)) (decodeFields fs))"

lemma decodeFields_append:
  "decodeFields (fs @ gs) =
     (case decodeFields fs of
        None \<Rightarrow> None
      | Some vs \<Rightarrow> map_option ((@) vs) (decodeFields gs))"
  by (induction fs rule: decodeFields.induct)
    (auto simp: option.map_comp comp_def map_option_case split: option.splits)

lemma decodeFields_lookup:
  "decodeFields fs = Some vs \<Longrightarrow>
     map_of vs k = Option.bind (map_of fs k) (\<lambda>r. unmarshalString r [])"
  by (induction fs arbitrary: vs rule: decodeFields.induct) (auto split: option.splits if_splits)

lemma decodeFields_keys: "decodeFields fs = Some vs \<Longrightarrow> map fst vs = map fst fs"
  by (induction fs arbitrary: vs rule: decodeFields.induct) (auto split: option.splits if_splits)

lemma decodeFields_same: "decodeFields fs = Some vs \<Longrightarrow> map_of vs k = None \<longleftrightarrow> map_of fs k = None"
  using decodeFields_keys by (metis image_set map_of_eq_None_iff)

lemma decodeFields_iff:
  "decodeFields fs \<noteq> None \<longleftrightarrow>
     list_all (\<lambda>(k, r). unmarshalString r [] \<noteq> None \<and> unmarshalString r [] \<noteq> Some []) fs"
  by (induction fs rule: decodeFields.induct) (auto split: option.splits)

lemma strict_loop_extends:
  "strict_loop allowed d fs = Inr (fs', d') \<Longrightarrow> \<exists>gs. fs' = fs @ gs"
proof (induction allowed d fs rule: strict_loop.induct)
  case (1 allowed d fs)
  show ?case
  proof (cases "dec_more d")
    case False
    then show ?thesis using "1.prems" by (simp add: strict_loop.simps [of allowed d])
  next
    case True
    then obtain key d1 v d2 where t: "dec_token d = Some (TString key, d1)"
      and k: "allowed key" "map_of fs key = None"
      and v: "dec_decode d1 = Some (v, d2)"
      and rec: "strict_loop allowed d2 (fs @ [(key, v)]) = Inr (fs', d')"
      using "1.prems"(1)
      by (auto simp: strict_loop.simps [of allowed d] split: option.splits token.splits if_splits)
    show ?thesis using "1.IH" [OF True t refl refl _ _ v refl rec] k by auto
  qed
qed

definition decodeRun ::
  "strict_error + raw_fields \<times> decoder \<Rightarrow> ((bytes \<times> bytes) list \<times> decoder) option" where
  "decodeRun x =
     (case x of
        Inl _ \<Rightarrow> None
      | Inr (fs, d) \<Rightarrow> map_option (\<lambda>vs. (vs, d)) (decodeFields fs))"

lemma decodeRun_dead:
  "decodeFields fs = None \<Longrightarrow> decodeRun (strict_loop allowed d fs) = None"
  using strict_loop_extends [of allowed d fs]
  by (auto simp: decodeRun_def decodeFields_append split: sum.splits)

lemma credential_loop_strict:
  "decodeFields fs = Some vs \<Longrightarrow>
     credential_loop d vs = decodeRun (strict_loop credentialKey d fs)"
proof (induction d vs arbitrary: fs rule: credential_loop.induct)
  case (1 d vs)
  note eqs = credential_loop.simps [of d vs] strict_loop.simps [of credentialKey d fs]
  have same: "map_of vs k = None \<longleftrightarrow> map_of fs k = None" for k
    by (rule decodeFields_same [OF "1.prems"])
  show ?case
  proof (cases "dec_more d \<and> (\<exists>key d1 r d2. dec_token d = Some (TString key, d1)
      \<and> credentialKey key \<and> map_of fs key = None \<and> dec_decode d1 = Some (r, d2))")
    case stuck: False
    show ?thesis
    proof (cases "dec_more d \<and> (\<exists>key d1. dec_token d = Some (TString key, d1))")
      case False
      then show ?thesis
        using "1.prems" unfolding eqs
        by (cases "dec_more d") (auto simp: decodeRun_def split: option.split token.split)
    next
      case True
      then obtain key d1 where t: "dec_more d" "dec_token d = Some (TString key, d1)" by blast
      show ?thesis
      proof (cases "credentialKey key \<and> map_of fs key = None")
        case True
        then have "dec_decode d1 = None" using stuck t by (cases "dec_decode d1") auto
        then show ?thesis using t by (simp add: eqs decodeRun_def)
      next
        case False
        then show ?thesis using t same [of key] by (auto simp: eqs decodeRun_def)
      qed
    qed
  next
    case True
    then obtain key d1 r d2 where t: "dec_more d" "dec_token d = Some (TString key, d1)"
        "credentialKey key" "map_of fs key = None" "dec_decode d1 = Some (r, d2)"
      by blast
    have strict: "strict_loop credentialKey d fs = strict_loop credentialKey d2 (fs @ [(key, r)])"
      using t by (simp add: eqs)
    have step: "credential_loop d vs =
      (case unmarshalString r [] of None \<Rightarrow> None
       | Some v \<Rightarrow> if v = [] then None else credential_loop d2 (vs @ [(key, v)]))"
      using t same by (simp add: eqs)
    show ?thesis
    proof (cases "\<exists>v. unmarshalString r [] = Some v \<and> v \<noteq> []")
      case True
      then obtain v where v: "unmarshalString r [] = Some v" "v \<noteq> []" by blast
      have "decodeFields (fs @ [(key, r)]) = Some (vs @ [(key, v)])"
        using v "1.prems" by (simp add: decodeFields_append)
      moreover have "\<not> map_of vs key \<noteq> None" using t(4) same [of key] by simp
      ultimately show ?thesis
        using "1.IH" [OF t(1,2) refl refl _ _ t(5) refl v, of "fs @ [(key, r)]"] t(3) v
        by (simp only: strict step) simp
    next
      case False
      then have "decodeFields (fs @ [(key, r)]) = None"
        using "1.prems" by (auto simp: decodeFields_append split: option.split)
      then have "decodeRun (strict_loop credentialKey d fs) = None"
        unfolding strict by (rule decodeRun_dead)
      then show ?thesis using False by (auto simp: step split: option.split)
    qed
  qed
qed

lemma parseCredentials_decode:
  "parseCredentials raw =
     (case strictJSONObject raw credentialKey of
        Inl _ \<Rightarrow> None
      | Inr fs \<Rightarrow>
          (case decodeFields fs of
             None \<Rightarrow> None
           | Some vs \<Rightarrow>
               if length vs \<noteq> 2 then None
               else Some \<lparr>username = the (map_of vs ''username''),
                          password = the (map_of vs ''password'')\<rparr>))"
  by (simp add: parseCredentials_def strictJSONObject_def credential_loop_strict [of "[]"]
      decodeRun_def split: option.split sum.split prod.split)

lemma two_fields:
  assumes "distinct (map fst fs)" and "\<forall>(k, r) \<in> set fs. credentialKey k"
  shows "length fs = 2 \<longleftrightarrow> map_of fs ''username'' \<noteq> None \<and> map_of fs ''password'' \<noteq> None"
proof -
  let ?K = "{''username'', ''password''}"
  have sub: "set (map fst fs) \<subseteq> ?K" using assms(2) by (auto simp: credentialKey_def)
  have len: "length fs = card (set (map fst fs))"
    using distinct_card [OF assms(1)] by simp
  have "card ?K = 2" by simp
  then have "length fs = 2 \<longleftrightarrow> set (map fst fs) = ?K"
    unfolding len using sub card_subset_eq [of ?K "set (map fst fs)"] by (metis finite.simps)
  also have "\<dots> \<longleftrightarrow> ''username'' \<in> fst ` set fs \<and> ''password'' \<in> fst ` set fs"
    using sub by auto
  finally show ?thesis by (simp add: map_of_eq_None_iff)
qed

lemma parseCredentials_strict:
  assumes fs: "strictJSONObject raw credentialKey = Inr fs"
  shows "parseCredentials raw = Some c \<longleftrightarrow>
      decodeJSONString (map_of fs ''username'') = Some (username c) \<and> username c \<noteq> []
      \<and> decodeJSONString (map_of fs ''password'') = Some (password c) \<and> password c \<noteq> []"
proof -
  note sound = strictJSONObject_sound [OF fs]
  have two: "length fs = 2 \<longleftrightarrow> map_of fs ''username'' \<noteq> None \<and> map_of fs ''password'' \<noteq> None"
    using sound by (intro two_fields) auto
  have ok: "decodeFields fs \<noteq> None \<longleftrightarrow>
      (\<forall>(k, r) \<in> set fs. unmarshalString r [] \<noteq> None \<and> unmarshalString r [] \<noteq> Some [])"
    unfolding decodeFields_iff list_all_iff ..
  show ?thesis
  proof
    assume "parseCredentials raw = Some c"
    then obtain vs where vs: "decodeFields fs = Some vs" "length vs = 2"
        "username c = the (map_of vs ''username'')" "password c = the (map_of vs ''password'')"
      by (auto simp: parseCredentials_decode fs split: option.splits if_splits)
    then have "length fs = 2" using decodeFields_keys by (metis length_map)
    then obtain r q where r: "map_of fs ''username'' = Some r" "map_of fs ''password'' = Some q"
      using two by blast
    then have "unmarshalString r [] \<noteq> None \<and> unmarshalString r [] \<noteq> Some []"
        "unmarshalString q [] \<noteq> None \<and> unmarshalString q [] \<noteq> Some []"
      using vs(1) ok map_of_SomeD by fastforce+
    then show "decodeJSONString (map_of fs ''username'') = Some (username c) \<and> username c \<noteq> []
        \<and> decodeJSONString (map_of fs ''password'') = Some (password c) \<and> password c \<noteq> []"
      using r vs decodeFields_lookup [OF vs(1)] by (auto simp: decodeJSONString_Some)
  next
    assume h: "decodeJSONString (map_of fs ''username'') = Some (username c) \<and> username c \<noteq> []
        \<and> decodeJSONString (map_of fs ''password'') = Some (password c) \<and> password c \<noteq> []"
    then obtain r q where r: "map_of fs ''username'' = Some r" "map_of fs ''password'' = Some q"
        "unmarshalString r [] = Some (username c)" "unmarshalString q [] = Some (password c)"
      by (auto simp: decodeJSONString_Some)
    have "x = r \<or> x = q" if "(k, x) \<in> set fs" for k x
    proof -
      have "map_of fs k = Some x" using that sound by (intro map_of_is_SomeI) auto
      moreover have "k = ''username'' \<or> k = ''password''"
        using that sound by (auto simp: credentialKey_def)
      ultimately show ?thesis using r(1,2) by auto
    qed
    then have "decodeFields fs \<noteq> None" unfolding ok using r(3,4) h by fastforce
    then obtain vs where vs: "decodeFields fs = Some vs" by blast
    moreover have "length vs = 2"
      using two r(1,2) decodeFields_keys [OF vs] by (metis length_map option.distinct(1))
    ultimately show "parseCredentials raw = Some c"
      using r decodeFields_lookup [OF vs] by (simp add: parseCredentials_decode fs)
  qed
qed

text \<open>
  C29: \<open>parseCredentials\<close> accepts exactly the documents that the strict object reader
  accepts with the two fields \<open>username\<close> and \<open>password\<close>, both decoding to non-empty
  strings, and returns those strings. So nothing unknown, repeated, missing, empty or
  trailing gets through.
\<close>

theorem parseCredentials_exact:
  "parseCredentials raw = Some c \<longleftrightarrow>
     (\<exists>fs. strictJSONObject raw credentialKey = Inr fs
        \<and> decodeJSONString (map_of fs ''username'') = Some (username c) \<and> username c \<noteq> []
        \<and> decodeJSONString (map_of fs ''password'') = Some (password c) \<and> password c \<noteq> [])"
proof (cases "strictJSONObject raw credentialKey")
  case (Inr fs)
  then show ?thesis using parseCredentials_strict [OF Inr, of c] by simp
qed (simp add: parseCredentials_decode)

text \<open>
  In descriptor mode the credentials come from the descriptor alone: a positional
  argument or a standard descriptor is refused, and what is accepted is the parse of the
  complete input, which was read without error, closed without error and not longer than
  the limit.
\<close>

theorem credentialsFromInvocation_descriptor:
  "credentialsFromInvocation newFile True fd args = Inr c \<longleftrightarrow>
     args = [] \<and> 3 \<le> fd \<and>
     (\<exists>file. newFile fd = Some file \<and> \<not> srcFails (fdSource file) \<and> \<not> fdCloseFails file
        \<and> length (srcBytes (fdSource file)) \<le> maxCredentialInputSize
        \<and> parseCredentials (srcBytes (fdSource file)) = Some c)"
  by (auto simp: credentialsFromInvocation_def readAllLimited_def split: option.splits if_splits)

end
