(* ===== verification/Cli_Context.thy ===== *)
theory Cli_Context
  imports Constrained_Failure
begin

text \<open>
  What the program reads of a parsed command line: a \<open>cli.Context\<close> answers which flags
  were set, their values, and the positional arguments. The record holds those answers;
  \<open>constrainedContextFromValues\<close> builds it from the maps of the raw argument parser, the
  command-line library builds it for every other invocation.
\<close>

record cliContext =
  isSet :: "bytes \<Rightarrow> bool"
  intFlag :: "bytes \<Rightarrow> int"
  stringFlag :: "bytes \<Rightarrow> bytes"
  boolFlag :: "bytes \<Rightarrow> bool"
  ctxArgs :: "bytes list"

definition fdNames :: "bytes list" where
  "fdNames = [''constrained-plan-fd'', ''credentials-fd'', ''public-ca-fd'', ''regional-ca-fd'',
     ''config-fd'', ''result-fd'']"

definition ordinaryNames :: "bytes list" where
  "ordinaryNames = [''outfile'', ''region'', ''verbose'', ''server'', ''port-forwarding'', ''json'',
     ''metadata-file'', ''serverlist-cache'', ''serverlist-cache-ttl'',
     ''serverlist-cache-max-age'', ''serverlist-force-refresh'',
     ''serverlist-fetch-retries'', ''list-regions'']"

definition requestNames :: "bytes list" where
  "requestNames = [''constrained-plan-fd'', ''public-ca-fd'', ''regional-ca-fd'', ''config-fd'',
     ''result-fd'']"

definition constrainedRequested :: "cliContext \<Rightarrow> bool" where
  "constrainedRequested c = list_ex (isSet c) requestNames"

definition intNames :: "bytes list" where
  "intNames = fdNames @ [''serverlist-fetch-retries'']"

definition stringNames :: "bytes list" where
  "stringNames = [''socket-mark'', ''outfile'', ''region'', ''metadata-file'', ''serverlist-cache'',
     ''serverlist-cache-ttl'', ''serverlist-cache-max-age'']"

text \<open>
  A flag is set when \<open>set.Set\<close> succeeded for it: the names the flag set declares with the
  type of the value. Flags that are not set read as the zero value of their type.
\<close>

definition constrainedContextFromValues ::
  "(bytes \<rightharpoonup> int) \<Rightarrow> (bytes \<rightharpoonup> bytes) \<Rightarrow> cliContext" where
  "constrainedContextFromValues values strValues =
     \<lparr>isSet = (\<lambda>n. n \<in> set intNames \<and> values n \<noteq> None
                   \<or> n \<in> set stringNames \<and> strValues n \<noteq> None),
      intFlag = (\<lambda>n. if n \<in> set intNames then (case values n of None \<Rightarrow> 0 | Some i \<Rightarrow> i) else 0),
      stringFlag = (\<lambda>n. if n \<in> set stringNames
                       then (case strValues n of None \<Rightarrow> [] | Some s \<Rightarrow> s) else []),
      boolFlag = (\<lambda>_. False),
      ctxArgs = []\<rparr>"

section \<open>Invocation checks\<close>

datatype invocation_error = PositionalIncompatible | FlagIncompatible bytes | DuplicateFlag bytes

fun duplicateLongFlag :: "bytes list \<Rightarrow> bytes list \<Rightarrow> bytes option" where
  \<comment> \<open>the loop of \<open>rejectDuplicateLongFlags\<close> with the names seen so far\<close>
  "duplicateLongFlag seen [] = None"
| "duplicateLongFlag seen (arg # args) =
     (if arg = ''--'' then None
      else if \<not> hasPrefix arg ''--'' then duplicateLongFlag seen args
      else
        (let name = cutAt (trimPrefix arg ''--'') (CHR ''='') in
         if name \<in> set seen then Some name else duplicateLongFlag (name # seen) args))"

definition rejectDuplicateLongFlags :: "bytes list \<Rightarrow> bytes option" where
  "rejectDuplicateLongFlags args = duplicateLongFlag [] args"

definition validateConstrainedInvocation ::
  "cliContext \<Rightarrow> bytes list \<Rightarrow> invocation_error option" where
  "validateConstrainedInvocation c osArgs =
     (if ctxArgs c \<noteq> [] then Some PositionalIncompatible
      else
        (case find (isSet c) ordinaryNames of
           Some name \<Rightarrow> Some (FlagIncompatible name)
         | None \<Rightarrow> map_option DuplicateFlag (rejectDuplicateLongFlags osArgs)))"

lemma validateConstrainedInvocation_None:
  "validateConstrainedInvocation c osArgs = None \<longleftrightarrow>
     ctxArgs c = [] \<and> (\<forall>n \<in> set ordinaryNames. \<not> isSet c n) \<and> rejectDuplicateLongFlags osArgs = None"
proof (cases "find (isSet c) ordinaryNames")
  case None
  then have "\<forall>n \<in> set ordinaryNames. \<not> isSet c n" by (auto simp: find_None_iff)
  with None show ?thesis by (auto simp: validateConstrainedInvocation_def)
next
  case (Some n)
  then have "n \<in> set ordinaryNames \<and> isSet c n" by (auto simp: find_Some_iff)
  with Some show ?thesis by (auto simp: validateConstrainedInvocation_def)
qed

end
