(* ===== verification/Socket_Mark.thy ===== *)
theory Socket_Mark
  imports Cli_Context
begin

text \<open>
  \<open>socket_mark.go\<close>: the syntax of \<open>--socket-mark\<close>, the control function that sets
  \<open>SO_MARK\<close> on a socket before it connects, and the two places that read the flag. The
  operating system's \<open>setsockopt\<close> is an argument, as it is in the code; the platform's
  support for \<open>SO_MARK\<close> (\<open>socket_mark_linux.go\<close> and \<open>socket_mark_other.go\<close>) is an
  argument of the functions that depend on it.
\<close>

section \<open>The mark\<close>

datatype mark_error = EmptyMark | InvalidMark | MarkOutOfRange | MarkZero

definition markRune :: "nat \<Rightarrow> nat \<Rightarrow> bool" where
  "markRune base r \<longleftrightarrow>
     (48 \<le> r \<and> r \<le> 57) \<or> (base = 16 \<and> ((97 \<le> r \<and> r \<le> 102) \<or> (65 \<le> r \<and> r \<le> 70)))"

definition parseSocketMark :: "bytes \<Rightarrow> mark_error + 32 word" where
  "parseSocketMark raw =
     (let (digits, base) =
        (if hasPrefix raw ''0x'' \<or> hasPrefix raw ''0X'' then (drop 2 raw, 16) else (raw, 10))
      in
      if digits = [] then Inl EmptyMark
      else if \<not> list_all (markRune base) (runes digits) then Inl InvalidMark
      else if base = 10 \<and> hd digits = CHR ''0'' then Inl InvalidMark
      else
        (case parseUint digits base 32 of
           None \<Rightarrow> Inl MarkOutOfRange
         | Some v \<Rightarrow> if v = 0 then Inl MarkZero else Inr (word_of_nat v)))"

lemma markRune_10_bytes: "list_all (markRune 10) (runes s) \<longleftrightarrow> list_all is_digit s"
proof -
  have "list_all (markRune 10) (runes s) \<longleftrightarrow> list_all (\<lambda>c. markRune 10 (byte c)) s"
    by (rule runes_all_iff_bytes) (simp add: markRune_def)
  then show ?thesis by (simp add: markRune_def is_digit_def [abs_def])
qed

lemma markRune_16_bytes: "list_all (markRune 16) (runes s) \<longleftrightarrow> list_all is_hex s"
proof -
  have "list_all (markRune 16) (runes s) \<longleftrightarrow> list_all (\<lambda>c. markRune 16 (byte c)) s"
    by (rule runes_all_iff_bytes) (auto simp: markRune_def)
  then show ?thesis by (simp add: markRune_def is_hex_def [abs_def] is_digit_def [abs_def])
qed

lemma is_hex_val_less: "list_all is_hex s \<Longrightarrow> list_all (\<lambda>c. \<exists>d < 16. digit_val c = Some d) s"
  using digit_val_hex by (auto simp: list_all_iff)

lemma utoa_not_hex_prefix:
  assumes "0 < n"
  shows "\<not> hasPrefix (utoa n) ''0x'' \<and> \<not> hasPrefix (utoa n) ''0X''"
  using utoa_hd_nonzero [OF assms] by (auto simp: hasPrefix_iff)

lemma unat_word_of_nat_32: "v \<le> 2 ^ 32 - 1 \<Longrightarrow> unat (word_of_nat v :: 32 word) = v"
  by (simp add: unat_of_nat take_bit_nat_eq_self)

definition markWritten :: "bytes \<Rightarrow> 32 word \<Rightarrow> bool" where
  \<comment> \<open>the documented syntax: the decimal numeral of the mark, or \<open>0x\<close> and hexadecimal digits\<close>
  "markWritten raw m \<longleftrightarrow>
     raw = utoa (unat m) \<or>
     (\<exists>p ds. raw = p @ ds \<and> (p = ''0x'' \<or> p = ''0X'') \<and> ds \<noteq> [] \<and> list_all is_hex ds
        \<and> digits_value 16 0 ds = unat m)"

lemma parseSocketMark_decimal:
  assumes "\<not> hasPrefix raw ''0x''" "\<not> hasPrefix raw ''0X''"
  shows "parseSocketMark raw = Inr m \<longleftrightarrow> m \<noteq> 0 \<and> raw = utoa (unat m)"
proof
  assume "parseSocketMark raw = Inr m"
  then have d: "raw \<noteq> []" "list_all is_digit raw" "hd raw \<noteq> CHR ''0''"
    and v: "parseUint raw 10 32 \<noteq> None" "m = word_of_nat (the (parseUint raw 10 32))"
      "the (parseUint raw 10 32) \<noteq> 0"
    using assms
    by (auto simp: parseSocketMark_def Let_def markRune_10_bytes split: if_splits option.splits)
  have p: "parseUint raw 10 32 = Some (digits_value 10 0 raw)" "digits_value 10 0 raw \<le> 2 ^ 32 - 1"
    using v(1) parseUint_digits [OF _ is_digit_val_less [OF d(2)] d(1), of 32]
    by (auto split: if_splits)
  have u: "unat m = digits_value 10 0 raw"
    using v(2) p by (simp add: unat_word_of_nat_32)
  then have "m \<noteq> 0" using v(3) p(1) by auto
  then show "m \<noteq> 0 \<and> raw = utoa (unat m)"
    using utoa_digits_value [OF d(2) d(1) d(3)] u by simp
next
  assume m: "m \<noteq> 0 \<and> raw = utoa (unat m)"
  have "unat m \<le> 2 ^ 32 - 1" using unsigned_less [of m, where ?'a = nat] by simp
  then have "parseUint raw 10 32 = Some (unat m)" using m parseUint_utoa by simp
  moreover have "0 < unat m" using m by (simp add: unat_gt_0)
  ultimately show "parseSocketMark raw = Inr m"
    using m assms utoa_digits [of "unat m"] utoa_hd_nonzero [of "unat m"]
    by (simp add: parseSocketMark_def Let_def markRune_10_bytes)
qed

lemma parseSocketMark_hex:
  assumes "p = ''0x'' \<or> p = ''0X''"
  shows "parseSocketMark (p @ ds) = Inr m \<longleftrightarrow>
    m \<noteq> 0 \<and> ds \<noteq> [] \<and> list_all is_hex ds \<and> digits_value 16 0 ds = unat m"
proof -
  have pre: "hasPrefix (p @ ds) ''0x'' \<or> hasPrefix (p @ ds) ''0X''" "drop 2 (p @ ds) = ds"
    using assms by auto
  have eq: "parseSocketMark (p @ ds) =
      (if ds = [] then Inl EmptyMark
       else if \<not> list_all is_hex ds then Inl InvalidMark
       else case parseUint ds 16 32 of
           None \<Rightarrow> Inl MarkOutOfRange
         | Some v \<Rightarrow> if v = 0 then Inl MarkZero else Inr (word_of_nat v))"
    unfolding parseSocketMark_def using pre by (simp add: markRune_16_bytes)
  show ?thesis
  proof (cases "ds \<noteq> [] \<and> list_all is_hex ds")
    case True
    have bound: "unat m \<le> 2 ^ 32 - 1" using unsigned_less [of m, where ?'a = nat] by simp
    have p: "parseUint ds 16 32 = (if digits_value 16 0 ds \<le> 2 ^ 32 - 1
        then Some (digits_value 16 0 ds) else None)"
      using parseUint_digits [of 16 ds 32] True is_hex_val_less by simp
    show ?thesis
    proof
      assume "parseSocketMark (p @ ds) = Inr m"
      then have "digits_value 16 0 ds \<le> 2 ^ 32 - 1" "digits_value 16 0 ds \<noteq> 0"
        "m = word_of_nat (digits_value 16 0 ds)"
        unfolding eq p using True by (simp_all split: if_splits)
      then have "unat m = digits_value 16 0 ds" "digits_value 16 0 ds \<noteq> 0"
        using unat_word_of_nat_32 by blast+
      then show "m \<noteq> 0 \<and> ds \<noteq> [] \<and> list_all is_hex ds \<and> digits_value 16 0 ds = unat m"
        using True by auto
    next
      assume "m \<noteq> 0 \<and> ds \<noteq> [] \<and> list_all is_hex ds \<and> digits_value 16 0 ds = unat m"
      then show "parseSocketMark (p @ ds) = Inr m"
        unfolding eq p using True bound by (simp add: unat_eq_zero)
    qed
  next
    case False
    then show ?thesis unfolding eq by auto
  qed
qed

text \<open>
  C27: \<open>parseSocketMark\<close> accepts exactly the documented syntax of a non-zero 32-bit mark
  and returns that mark: the decimal numeral without leading zeros, or \<open>0x\<close>/\<open>0X\<close>
  followed by hexadecimal digits. No other string has a value, none has two.
\<close>

theorem parseSocketMark_exact:
  "parseSocketMark raw = Inr m \<longleftrightarrow> m \<noteq> 0 \<and> markWritten raw m"
proof (cases "hasPrefix raw ''0x'' \<or> hasPrefix raw ''0X''")
  case False
  then have "\<not> (\<exists>p ds. raw = p @ ds \<and> (p = ''0x'' \<or> p = ''0X''))" by auto
  then show ?thesis using False parseSocketMark_decimal by (auto simp: markWritten_def)
next
  case True
  then obtain p ds where p: "raw = p @ ds" "p = ''0x'' \<or> p = ''0X''"
    unfolding hasPrefix_iff by blast
  have "raw = utoa (unat m) \<Longrightarrow> m = 0"
    using utoa_not_hex_prefix [of "unat m"] True by (auto simp: unat_gt_0)
  moreover have "(\<exists>q es. raw = q @ es \<and> (q = ''0x'' \<or> q = ''0X'') \<and> es \<noteq> [] \<and> list_all is_hex es
      \<and> digits_value 16 0 es = unat m)
    \<longleftrightarrow> ds \<noteq> [] \<and> list_all is_hex ds \<and> digits_value 16 0 ds = unat m"
    using p by auto
  ultimately show ?thesis
    using parseSocketMark_hex [OF p(2), of ds m] p(1) by (auto simp: markWritten_def)
qed

section \<open>Setting the mark on a socket\<close>

text \<open>
  \<open>RawConn.Control\<close> either fails without running the function it is given, or runs it on
  the descriptor. A control returns the \<open>setsockopt\<close> calls it made and its error.
\<close>

type_synonym errno = int
type_synonym rawConn = "errno + int"
type_synonym sockoptCall = "int \<times> int \<times> int \<times> int"

type_synonym setsockoptIntFunc = "int \<Rightarrow> int \<Rightarrow> int \<Rightarrow> int \<Rightarrow> errno option"

datatype mark_refusal = RefusedBy errno | MarkUnsupported

datatype dial_error =
    SocketMarkRefused mark_refusal | InvalidNetwork | RetryDenied | ConnectFailed errno

type_synonym dialControl = "rawConn \<Rightarrow> sockoptCall list \<times> dial_error option"

definition socketMarkControlWith ::
  "int \<Rightarrow> int \<Rightarrow> 32 word \<Rightarrow> setsockoptIntFunc \<Rightarrow> dialControl" where
  "socketMarkControlWith level opt mark setopt c =
     (case c of
        Inl e \<Rightarrow> ([], Some (SocketMarkRefused (RefusedBy e)))
      | Inr fd \<Rightarrow>
          ([(fd, level, opt, uint mark)],
           (case setopt fd level opt (uint mark) of
              None \<Rightarrow> None
            | Some e \<Rightarrow> Some (SocketMarkRefused (RefusedBy e)))))"

text \<open>
  The control returns without error exactly when the raw connection could be used and
  \<open>setsockopt\<close> accepted the mark on its descriptor; it makes at most one call, with the
  given level and option; and the 32-bit value the kernel reads from the C \<open>int\<close> that
  \<open>SetsockoptInt\<close> passes is the mark, bit for bit.
\<close>

theorem socketMarkControl_sets_mark:
  "(snd (socketMarkControlWith level opt mark setopt c) = None
      \<longleftrightarrow> (\<exists>fd. c = Inr fd \<and> setopt fd level opt (uint mark) = None))
   \<and> (\<forall>(fd, l, p, v) \<in> set (fst (socketMarkControlWith level opt mark setopt c)).
        c = Inr fd \<and> l = level \<and> p = opt
        \<and> (word_of_int (sint (word_of_int v :: 32 word)) :: 32 word) = mark)
   \<and> length (fst (socketMarkControlWith level opt mark setopt c)) \<le> 1"
  by (cases c) (auto simp: socketMarkControlWith_def split: option.splits)

theorem socketMarkControl_sets_mark_witness:
  "snd (socketMarkControlWith 1 36 0xffffffff (\<lambda>_ _ _ _. None) (Inr 5)) = None
   \<and> fst (socketMarkControlWith 1 36 0xffffffff (\<lambda>_ _ _ _. None) (Inr 5)) = [(5, 1, 36, 0xffffffff)]"
  using socketMarkControl_sets_mark [of 1 36 "0xffffffff" "\<lambda>_ _ _ _. None" "Inr 5"]
  by (simp add: socketMarkControlWith_def)

definition SOL_SOCKET :: int where "SOL_SOCKET = 1"
definition SO_MARK :: int where "SO_MARK = 36"

definition socketMarkControlLinux :: "setsockoptIntFunc \<Rightarrow> 32 word \<Rightarrow> dialControl" where
  "socketMarkControlLinux setopt mark = socketMarkControlWith SOL_SOCKET SO_MARK mark setopt"

definition socketMarkControlOther :: "32 word \<Rightarrow> dialControl" where
  "socketMarkControlOther mark = (\<lambda>_. ([], Some (SocketMarkRefused MarkUnsupported)))"

definition socketMarkControl :: "bool \<Rightarrow> setsockoptIntFunc \<Rightarrow> 32 word \<Rightarrow> dialControl" where
  \<comment> \<open>the build constraint: \<open>socket_mark_linux.go\<close> on Linux, \<open>socket_mark_other.go\<close> elsewhere\<close>
  "socketMarkControl supported setopt mark =
     (if supported then socketMarkControlLinux setopt mark else socketMarkControlOther mark)"

lemma socketMarkControl_ok:
  "socketMarkControl supported setopt mark c = (calls, None) \<Longrightarrow>
     supported \<and> (\<exists>fd. c = Inr fd \<and> calls = [(fd, SOL_SOCKET, SO_MARK, uint mark)])"
  by (auto simp: socketMarkControl_def socketMarkControlLinux_def socketMarkControlOther_def
      socketMarkControlWith_def split: if_splits sum.splits option.splits)

section \<open>Reading the flag\<close>

definition detailSocketMarkInvalid :: bytes where
  "detailSocketMarkInvalid = ''socket_mark_invalid''"

definition detailSocketMarkUnsupported :: bytes where
  "detailSocketMarkUnsupported = ''socket_mark_unsupported''"

definition detailSocketMarkRefused :: bytes where
  "detailSocketMarkRefused = ''socket_mark_refused''"

definition constrainedSocketControl ::
  "bool \<Rightarrow> setsockoptIntFunc \<Rightarrow> cliContext \<Rightarrow> dialControl option \<times> failureReason option" where
  "constrainedSocketControl supported setopt c =
     (if \<not> isSet c ''socket-mark'' then (None, None)
      else
        (case parseSocketMark (stringFlag c ''socket-mark'') of
           Inl _ \<Rightarrow>
             (None, constrainedFailureWithDetail ClassInvalidInvocation detailSocketMarkInvalid)
         | Inr mark \<Rightarrow>
             if \<not> supported then
               (None, constrainedFailureWithDetail ClassInvalidInvocation detailSocketMarkUnsupported)
             else (Some (socketMarkControl supported setopt mark), None)))"

definition rejectSocketMarkOutsideConstrainedMode :: "cliContext \<Rightarrow> bool" where
  \<comment> \<open>whether the error (exit status 1) is returned\<close>
  "rejectSocketMarkOutsideConstrainedMode c = isSet c ''socket-mark''"

lemma constrainedSocketControl_ok:
  "constrainedSocketControl supported setopt c = (control, None) \<Longrightarrow>
     (if isSet c ''socket-mark''
      then supported \<and> (\<exists>m. parseSocketMark (stringFlag c ''socket-mark'') = Inr m
             \<and> control = Some (socketMarkControl supported setopt m))
      else control = None)"
  by (auto simp: constrainedSocketControl_def split: if_splits sum.splits)

end
