(* ===== verification/Constrained_Http.thy ===== *)
theory Constrained_Http
  imports Constrained_AddKey Constrained_CA Credentials Socket_Mark
begin

text \<open>
  The network of constrained mode: \<open>constrainedHTTPClient\<close>, its dial function and its TLS
  verification, and the two requests. The HTTP transport of the standard library may dial
  several times for one request, and decides after each failure whether to try again; it is
  given as the list of rounds it attempts, with what the network answers in each. Every
  effect on the outside is an event of a trace: a socket option set, a connection attempted,
  a request sent. The theorems hold for every list of rounds.
\<close>

section \<open>TLS verification\<close>

definition trustDetail_missing_ca :: bytes where "trustDetail_missing_ca = ''missing_ca_bundle''"
definition trustDetail_missing_cert :: bytes where "trustDetail_missing_cert = ''missing_certificate''"
definition trustDetail_chain :: bytes where "trustDetail_chain = ''ca_chain''"
definition trustDetail_identity :: bytes where "trustDetail_identity = ''endpoint_identity''"

definition verifyConstrainedTLSConnection ::
  "pki \<Rightarrow> certificate list \<Rightarrow> bytes \<Rightarrow> certPool option \<Rightarrow> bool \<Rightarrow> bytes option" where
  \<comment> \<open>the detail of the \<open>constrainedTrustError\<close>, or \<open>None\<close> when the connection is accepted\<close>
  "verifyConstrainedTLSConnection x peers serverName roots allowCommonNameIdentity =
     (case roots of
        None \<Rightarrow> Some trustDetail_missing_ca
      | Some pool \<Rightarrow>
          (case peers of
             [] \<Rightarrow> Some trustDetail_missing_cert
           | leaf # others \<Rightarrow>
               if \<not> verifyChain x pool (foldl addCert [] others) leaf then Some trustDetail_chain
               else if verifyHostname x leaf serverName then None
               else if allowCommonNameIdentity \<and> certDNSNames leaf = [] \<and> certIPAddresses leaf = []
                       \<and> validTLSCommonName serverName \<and> certCommonName leaf = serverName
                 then None
               else Some trustDetail_identity))"

section \<open>The client\<close>

record httpClient =
  hcIP :: bytes
  hcPort :: int
  hcServerName :: bytes
  hcRoots :: "certPool option"
  hcAllowCN :: bool
  hcControl :: "dialControl option"

definition constrainedHTTPClient ::
  "bytes \<Rightarrow> int \<Rightarrow> bytes \<Rightarrow> certPool option \<Rightarrow> bool \<Rightarrow> dialControl option \<Rightarrow> httpClient" where
  "constrainedHTTPClient ip port serverName roots allowCN control =
     \<lparr>hcIP = ip, hcPort = port, hcServerName = serverName, hcRoots = roots, hcAllowCN = allowCN,
      hcControl = control\<rparr>"

record request =
  rqPost :: bool
  rqURL :: bytes
  rqBody :: bytes

datatype net_event = EvSockopt sockoptCall | EvConnect bytes | EvSend request

definition dialAddress :: "httpClient \<Rightarrow> bytes" where
  "dialAddress c = joinHostPort (hcIP c) (itoa (hcPort c))"

definition runControl :: "dialControl option \<Rightarrow> rawConn \<Rightarrow> sockoptCall list \<times> dial_error option" where
  "runControl control conn = (case control of None \<Rightarrow> ([], None) | Some ctl \<Rightarrow> ctl conn)"

definition dialSocket ::
  "httpClient \<Rightarrow> rawConn \<Rightarrow> errno option \<Rightarrow> dial_error option \<times> net_event list" where
  \<comment> \<open>\<open>net.Dialer.DialContext\<close>: the control runs on the socket before it connects\<close>
  "dialSocket c conn connect =
     (let (calls, err) = runControl (hcControl c) conn
      in case err of
           Some e \<Rightarrow> (Some e, map EvSockopt calls)
         | None \<Rightarrow> (map_option ConnectFailed connect, map EvSockopt calls @ [EvConnect (dialAddress c)]))"

definition dialContext ::
  "httpClient \<Rightarrow> nat \<Rightarrow> bytes \<Rightarrow> rawConn \<Rightarrow> errno option
     \<Rightarrow> dial_error option \<times> nat \<times> net_event list" where
  \<comment> \<open>the closure \<open>DialContext\<close>, with \<open>dialCount\<close> before and after\<close>
  "dialContext c dialCount network conn connect =
     (if network \<noteq> ''tcp'' \<and> network \<noteq> ''tcp4'' then (Some InvalidNetwork, dialCount, [])
      else if 0 < dialCount then (Some RetryDenied, dialCount, [])
      else (let (err, evs) = dialSocket c conn connect in (err, dialCount + 1, evs)))"

datatype exchange = ExchangeFails | ExchangeResponse int source

record round_trip =
  rdNetwork :: bytes
  rdConn :: rawConn
  rdConnect :: "errno option"
  rdPeers :: "certificate list"
  rdExchange :: exchange

datatype do_error = TrustError bytes | DialError dial_error | TransportError

text \<open>
  \<open>Client.Do\<close> with \<open>CheckRedirect\<close> returning \<open>http.ErrUseLastResponse\<close>: a redirect is a
  response like any other. The request is sent only on a connection that was dialled and
  whose peer was verified.
\<close>

fun clientDo ::
  "pki \<Rightarrow> httpClient \<Rightarrow> request \<Rightarrow> nat \<Rightarrow> round_trip list \<Rightarrow> (do_error + int \<times> source) \<times> net_event list" where
  "clientDo x c req dialCount [] = (Inl TransportError, [])"
| "clientDo x c req dialCount (r # rs) =
     (case dialContext c dialCount (rdNetwork r) (rdConn r) (rdConnect r) of
        (Some e, n, evs) \<Rightarrow>
          if rs = [] then (Inl (DialError e), evs)
          else (let (res, more) = clientDo x c req n rs in (res, evs @ more))
      | (None, n, evs) \<Rightarrow>
          (case verifyConstrainedTLSConnection x (rdPeers r) (hcServerName c) (hcRoots c) (hcAllowCN c) of
             Some detail \<Rightarrow>
               if rs = [] then (Inl (TrustError detail), evs)
               else (let (res, more) = clientDo x c req n rs in (res, evs @ more))
           | None \<Rightarrow>
               (case rdExchange r of
                  ExchangeResponse status body \<Rightarrow> (Inr (status, body), evs @ [EvSend req])
                | ExchangeFails \<Rightarrow>
                    if rs = [] then (Inl TransportError, evs @ [EvSend req])
                    else (let (res, more) = clientDo x c req n rs in (res, evs @ EvSend req # more)))))"

section \<open>What a client can do to the network\<close>

lemma dialContext_count:
  "dialContext c n net conn connect = (err, n', evs) \<Longrightarrow>
     n \<le> n' \<and> (0 < n \<longrightarrow> evs = [] \<and> err \<noteq> None) \<and> (err = None \<longrightarrow> 0 < n')"
  by (auto simp: dialContext_def Let_def split: if_splits prod.splits)

lemma clientDo_stopped: "0 < n \<Longrightarrow> snd (clientDo x c req n rs) = []"
proof (induction rs arbitrary: n)
  case (Cons r rs)
  obtain err n' evs where d: "dialContext c n (rdNetwork r) (rdConn r) (rdConnect r) = (err, n', evs)"
    by (cases "dialContext c n (rdNetwork r) (rdConn r) (rdConnect r)") auto
  then have "0 < n'" "evs = []" "\<exists>e. err = Some e"
    using dialContext_count [OF d] Cons.prems by auto
  then show ?case using d Cons.IH [of n'] by (auto simp: Let_def split: prod.splits)
qed simp

definition dial_shape :: "httpClient \<Rightarrow> request \<Rightarrow> net_event list \<Rightarrow> bool" where
  \<comment> \<open>nothing; or what the control does to one socket, then, if the control accepted the
      socket, one connection attempt and at most one request\<close>
  "dial_shape c req evs \<longleftrightarrow>
     evs = [] \<or>
     (\<exists>conn socks err. runControl (hcControl c) conn = (socks, err) \<and>
        (if err \<noteq> None then evs = map EvSockopt socks
         else evs = map EvSockopt socks @ [EvConnect (dialAddress c)]
              \<or> evs = map EvSockopt socks @ [EvConnect (dialAddress c), EvSend req]))"

definition accepted_peer :: "pki \<Rightarrow> httpClient \<Rightarrow> certificate list \<Rightarrow> bool" where
  "accepted_peer x c peers \<longleftrightarrow>
     (\<exists>pool leaf others. hcRoots c = Some pool \<and> peers = leaf # others
        \<and> verifyChain x pool (foldl addCert [] others) leaf
        \<and> (verifyHostname x leaf (hcServerName c)
           \<or> hcAllowCN c \<and> certDNSNames leaf = [] \<and> certIPAddresses leaf = []
             \<and> certCommonName leaf = hcServerName c))"

lemma verify_accepted:
  "verifyConstrainedTLSConnection x peers (hcServerName c) (hcRoots c) (hcAllowCN c) = None
     \<Longrightarrow> accepted_peer x c peers"
  by (auto simp: verifyConstrainedTLSConnection_def accepted_peer_def
      split: option.splits list.splits if_splits)

lemma dialSocket_shape:
  assumes "dialSocket c conn connect = (err, evs)"
  shows "dial_shape c req evs \<and> (err = None \<longrightarrow> dial_shape c req (evs @ [EvSend req]))"
proof -
  obtain socks e where "runControl (hcControl c) conn = (socks, e)" by fastforce
  then show ?thesis
    using assms by (cases e) (auto simp: dialSocket_def dial_shape_def)
qed

lemma dial_shape_Nil [simp]: "dial_shape c req []"
  by (simp add: dial_shape_def)

lemma dialContext_shape:
  assumes "dialContext c n net conn connect = (err, n', evs)"
  shows "dial_shape c req evs \<and> (err = None \<longrightarrow> dial_shape c req (evs @ [EvSend req]))
    \<and> (n' = n \<longrightarrow> evs = [])"
  using assms dialSocket_shape [of c conn connect _ _ req]
  by (auto simp: dialContext_def Let_def split: if_splits prod.splits)

lemma dialContext_no_send:
  "dialContext c n net conn connect = (err, n', evs) \<Longrightarrow> EvSend req \<notin> set evs"
  by (auto simp: dialContext_def dialSocket_def Let_def split: if_splits prod.splits option.splits)

lemma clientDo_shape:
  "clientDo x c req n rs = (res, evs) \<Longrightarrow>
     dial_shape c req evs
     \<and> (EvSend req \<in> set evs \<longrightarrow> (\<exists>r \<in> set rs. accepted_peer x c (rdPeers r)))
     \<and> (\<forall>out. res = Inr out \<longrightarrow> EvSend req \<in> set evs)"
proof (induction rs arbitrary: n res evs)
  case Nil
  then show ?case by auto
next
  case (Cons r rs)
  obtain err n' evs1 where d: "dialContext c n (rdNetwork r) (rdConn r) (rdConnect r) = (err, n', evs1)"
    by (cases "dialContext c n (rdNetwork r) (rdConn r) (rdConnect r)") auto
  note shape = dialContext_shape [OF d, of req]
  obtain res2 more where rec: "clientDo x c req n' rs = (res2, more)" by fastforce
  have more: "more = [] \<or> evs1 = [] \<and> n' = n"
    using clientDo_stopped [of n' x c req rs] rec dialContext_count [OF d] shape by (cases "n' = n") auto
  have nosend: "EvSend req \<notin> set evs1" by (rule dialContext_no_send [OF d])
  note IH = Cons.IH [OF rec]
  have both: "dial_shape c req (evs1 @ more)" using more shape IH by auto
  have send: "EvSend req \<in> set more \<Longrightarrow> \<exists>r \<in> set (r # rs). accepted_peer x c (rdPeers r)"
    using IH by auto
  show ?case
  proof (cases err)
    case (Some e)
    then show ?thesis
      using Cons.prems d rec shape nosend IH both send by (auto simp: Let_def split: if_splits)
  next
    case None
    then have stop: "more = []" "\<And>out. res2 \<noteq> Inr out"
      using more dialContext_count [OF d] clientDo_stopped [of n' x c req rs] rec IH by auto
    let ?v = "verifyConstrainedTLSConnection x (rdPeers r) (hcServerName c) (hcRoots c) (hcAllowCN c)"
    show ?thesis
    proof (cases ?v)
      case (Some detail)
      then show ?thesis
        using Cons.prems d rec shape nosend None stop by (auto simp: Let_def split: if_splits)
    next
      case v: None
      have acc: "accepted_peer x c (rdPeers r)" by (rule verify_accepted [OF v])
      show ?thesis
        using Cons.prems d rec shape None stop v acc
        by (auto simp: Let_def split: if_splits exchange.splits)
    qed
  qed
qed

fun connectOf :: "net_event \<Rightarrow> bytes option" where
  "connectOf (EvConnect a) = Some a"
| "connectOf _ = None"

fun sendOf :: "net_event \<Rightarrow> request option" where
  "sendOf (EvSend r) = Some r"
| "sendOf _ = None"

definition connects :: "net_event list \<Rightarrow> bytes list" where
  "connects evs = List.map_filter connectOf evs"

definition sends :: "net_event list \<Rightarrow> request list" where
  "sends evs = List.map_filter sendOf evs"

lemma trace_simps [simp]:
  "connects [] = []" "sends [] = []"
  "connects (e # evs) = (case connectOf e of None \<Rightarrow> connects evs | Some a \<Rightarrow> a # connects evs)"
  "sends (e # evs) = (case sendOf e of None \<Rightarrow> sends evs | Some a \<Rightarrow> a # sends evs)"
  "connects (evs @ evs') = connects evs @ connects evs'"
  "sends (evs @ evs') = sends evs @ sends evs'"
  "connects (map EvSockopt l) = []" "sends (map EvSockopt l) = []"
  by (auto simp: connects_def sends_def map_filter_simps map_filter_def comp_def split: option.split)

lemma sends_mem: "EvSend r \<in> set evs \<longleftrightarrow> r \<in> set (sends evs)"
proof (induction evs)
  case (Cons e evs)
  then show ?case by (cases e) auto
qed simp

lemma dial_shape_trace:
  assumes "dial_shape c req evs"
  shows "connects evs \<in> {[], [dialAddress c]}" "sends evs \<in> {[], [req]}"
    "sends evs \<noteq> [] \<Longrightarrow> connects evs \<noteq> []"
  using assms unfolding dial_shape_def by (auto split: if_splits)

lemma dial_shape_marked:
  assumes "dial_shape c req evs" and "hcControl c = Some (socketMarkControl supported setopt m)"
    and "connects evs \<noteq> []"
  shows "\<exists>fd. hd evs = EvSockopt (fd, SOL_SOCKET, SO_MARK, uint m)
    \<and> setopt fd SOL_SOCKET SO_MARK (uint m) = None"
proof -
  obtain conn socks where r: "socketMarkControl supported setopt m conn = (socks, None)"
    and e: "evs \<noteq> []" "\<exists>tail. evs = map EvSockopt socks @ tail"
    using assms by (auto simp: dial_shape_def runControl_def split: if_splits)
  obtain fd where "socks = [(fd, SOL_SOCKET, SO_MARK, uint m)]" "conn = Inr fd" "supported"
    using socketMarkControl_ok [OF r] by blast
  then show ?thesis
    using r e by (auto simp: socketMarkControl_def socketMarkControlLinux_def socketMarkControlWith_def split: option.splits)
qed

text \<open>
  C11: whatever the network answers and however often the transport tries, one client of
  constrained mode opens at most one connection, to the fixed address it was built with, and
  sends at most one copy of the one request; the request is sent only on an opened
  connection whose peer presented a certificate that chains to the given roots and carries
  the intended identity, and a response is only ever returned after that.
\<close>

theorem client_trace:
  assumes "clientDo x (constrainedHTTPClient ip port name roots allowCN control) req 0 rs = (res, evs)"
  shows "connects evs \<in> {[], [joinHostPort ip (itoa port)]} \<and> sends evs \<in> {[], [req]}
    \<and> (sends evs \<noteq> [] \<longrightarrow> connects evs \<noteq> []
         \<and> (\<exists>r \<in> set rs. \<exists>pool leaf others. roots = Some pool \<and> rdPeers r = leaf # others
              \<and> verifyChain x pool (foldl addCert [] others) leaf
              \<and> (verifyHostname x leaf name
                 \<or> allowCN \<and> certDNSNames leaf = [] \<and> certIPAddresses leaf = []
                   \<and> certCommonName leaf = name)))
    \<and> (\<forall>out. res = Inr out \<longrightarrow> sends evs = [req])"
proof -
  let ?c = "constrainedHTTPClient ip port name roots allowCN control"
  note shape = clientDo_shape [OF assms]
  note tr = dial_shape_trace [OF conjunct1 [OF shape]]
  have "sends evs \<noteq> [] \<longrightarrow> (\<exists>r \<in> set rs. accepted_peer x ?c (rdPeers r))"
    using shape tr(2) by (auto simp: sends_mem)
  moreover have "\<forall>out. res = Inr out \<longrightarrow> sends evs = [req]"
    using shape tr(2) by (auto simp: sends_mem)
  ultimately show ?thesis
    using tr by (auto simp: accepted_peer_def constrainedHTTPClient_def dialAddress_def)
qed

text \<open>
  With a socket mark, no connection is ever attempted on an unmarked socket: before the
  connection the trace starts with the \<open>SO_MARK\<close> option set to the mark on the socket, and
  the operating system accepted it.
\<close>

theorem marked_before_connect:
  assumes "clientDo x (constrainedHTTPClient ip port name roots allowCN
      (Some (socketMarkControl supported setopt m))) req 0 rs = (res, evs)"
    and "connects evs \<noteq> []"
  shows "\<exists>fd. hd evs = EvSockopt (fd, SOL_SOCKET, SO_MARK, uint m)
    \<and> setopt fd SOL_SOCKET SO_MARK (uint m) = None"
proof -
  have "dial_shape (constrainedHTTPClient ip port name roots allowCN
      (Some (socketMarkControl supported setopt m))) req evs"
    using clientDo_shape [OF assms(1)] by blast
  then show ?thesis
    by (rule dial_shape_marked [OF _ _ assms(2)]) (simp add: constrainedHTTPClient_def)
qed

definition exampleRound :: round_trip where
  "exampleRound =
     \<lparr>rdNetwork = ''tcp'', rdConn = Inr 7, rdConnect = None,
      rdPeers = [\<lparr>certRaw = ''root'', certIsCA = True, certKeyUsage = 96, certDNSNames = [''host''],
                  certIPAddresses = [], certCommonName = ''root''\<rparr>],
      rdExchange = ExchangeResponse 200 \<lparr>srcBytes = ''body'', srcFails = False\<rparr>\<rparr>"

definition exampleRequest :: request where
  "exampleRequest = \<lparr>rqPost = False, rqURL = ''https://host'', rqBody = []\<rparr>"

definition exampleClient :: httpClient where
  "exampleClient = constrainedHTTPClient ''192.0.2.1'' 443 ''host'' (Some (rdPeers exampleRound)) False
     (Some (socketMarkControl True (\<lambda>_ _ _ _. None) 9))"

lemma example_client_run:
  "connects (snd (clientDo examplePki exampleClient exampleRequest 0 [exampleRound, exampleRound]))
     = [''192.0.2.1:443'']"
  by code_simp

lemma example_client_answer:
  "\<not> isl (fst (clientDo examplePki exampleClient exampleRequest 0 [exampleRound, exampleRound]))"
  by code_simp

theorem client_trace_witness:
  "\<exists>out evs. clientDo examplePki exampleClient exampleRequest 0 [exampleRound, exampleRound] = (Inr out, evs)
     \<and> connects evs = [''192.0.2.1:443''] \<and> sends evs = [exampleRequest]"
proof -
  obtain res evs where run: "clientDo examplePki exampleClient exampleRequest 0 [exampleRound, exampleRound]
      = (res, evs)" by fastforce
  then obtain out where out: "res = Inr out" using example_client_answer by (cases res) auto
  have "connects evs = [''192.0.2.1:443'']" using example_client_run run by simp
  with client_trace [OF run [unfolded exampleClient_def]] run out show ?thesis by auto
qed

theorem marked_before_connect_witness:
  "\<exists>fd. hd (snd (clientDo examplePki exampleClient exampleRequest 0 [exampleRound, exampleRound]))
     = EvSockopt (fd, SOL_SOCKET, SO_MARK, 9)"
  using marked_before_connect [OF surjective_pairing, of examplePki "''192.0.2.1''" 443 "''host''"
      "Some (rdPeers exampleRound)" False True "\<lambda>_ _ _ _. None" 9 exampleRequest
      "[exampleRound, exampleRound]"] example_client_run
  unfolding exampleClient_def by simp

end
