(* ===== verification/Constrained_Request.thy ===== *)
theory Constrained_Request
  imports Constrained_Http
begin

text \<open>
  The two requests of constrained mode, \<open>constrainedTokenRequest\<close> and
  \<open>constrainedAddKeyRequest\<close>, with the classification of their failures. What the network
  answers during one request is a \<open>net_env\<close>: the rounds of the transport, the error of the
  context when a failure is classified, and whether \<open>http.NewRequestWithContext\<close> can parse
  the URL it is given.
\<close>

section \<open>Form encoding\<close>

definition unreserved :: "char \<Rightarrow> bool" where
  "unreserved c \<longleftrightarrow>
     is_lower c \<or> is_upper c \<or> is_digit c \<or> c = CHR ''-'' \<or> c = CHR ''_'' \<or> c = CHR ''.'' \<or> c = CHR ''~''"

definition upper_hex :: "nat \<Rightarrow> char" where
  "upper_hex n = (if n < 10 then char_of (48 + n) else char_of (55 + n))"

definition escapeChar :: "char \<Rightarrow> bytes" where
  "escapeChar c =
     (if unreserved c then [c]
      else if c = CHR '' '' then ''+''
      else [CHR ''%'', upper_hex (byte c div 16), upper_hex (byte c mod 16)])"

definition queryEscape :: "bytes \<Rightarrow> bytes" where
  \<comment> \<open>\<open>url.QueryEscape\<close>\<close>
  "queryEscape s = concat (map escapeChar s)"

fun queryUnescape :: "bytes \<Rightarrow> bytes option" where
  \<comment> \<open>\<open>url.QueryUnescape\<close>, which the server applies\<close>
  "queryUnescape [] = Some []"
| "queryUnescape (c # s) =
     (if c = CHR ''%'' then
        (case s of
           a # b # r \<Rightarrow>
             if is_hex a \<and> is_hex b
             then map_option ((#) (char_of (the (digit_val a) * 16 + the (digit_val b)))) (queryUnescape r)
             else None
         | _ \<Rightarrow> None)
      else map_option ((#) (if c = CHR ''+'' then CHR '' '' else c)) (queryUnescape s))"

definition tokenForm :: "credentials \<Rightarrow> bytes" where
  \<comment> \<open>\<open>url.Values.Encode\<close> sorts the keys\<close>
  "tokenForm c = ''password='' @ queryEscape (password c) @ ''&username='' @ queryEscape (username c)"

definition addKeyQuery :: "bytes \<Rightarrow> bytes \<Rightarrow> bytes" where
  "addKeyQuery token publicKey = ''pt='' @ queryEscape token @ ''&pubkey='' @ queryEscape publicKey"

section \<open>Failures\<close>

datatype ctx_error = ContextCanceled | ContextDeadlineExceeded

definition classifyNetworkError :: "ctx_error option \<Rightarrow> constrainedClass \<Rightarrow> constrainedClass" where
  "classifyNetworkError ctxErr fallback =
     (if ctxErr = Some ContextCanceled then ClassCancelled
      else if ctxErr = Some ContextDeadlineExceeded then ClassDeadlineExceeded
      else fallback)"

fun isConstrainedTrustError :: "do_error \<Rightarrow> bool" where
  "isConstrainedTrustError (TrustError _) = True"
| "isConstrainedTrustError _ = False"

fun constrainedTrustDetail :: "do_error \<Rightarrow> bytes" where
  "constrainedTrustDetail (TrustError detail) = detail"
| "constrainedTrustDetail _ = ''trust_validation''"

fun isSocketMarkRefused :: "do_error \<Rightarrow> bool" where
  "isSocketMarkRefused (DialError (SocketMarkRefused _)) = True"
| "isSocketMarkRefused _ = False"

section \<open>The requests\<close>

record net_env =
  neRounds :: "round_trip list"
  neCtxErr :: "ctx_error option"
  neUrlOk :: "bytes \<Rightarrow> bool"

definition tokenURL :: bytes where
  "tokenURL = ''https://www.privateinternetaccess.com/api/client/v2/token''"

definition tokenHost :: bytes where
  "tokenHost = ''www.privateinternetaccess.com''"

definition tokenRequest :: "credentials \<Rightarrow> request" where
  "tokenRequest creds = \<lparr>rqPost = True, rqURL = tokenURL, rqBody = tokenForm creds\<rparr>"

definition addKeyRequest :: "candidate \<Rightarrow> bytes \<Rightarrow> bytes \<Rightarrow> request" where
  "addKeyRequest cand token publicKey =
     \<lparr>rqPost = False,
      rqURL = ''https://'' @ rcTLSCommonName cand @ '':1337/addKey?'' @ addKeyQuery token publicKey,
      rqBody = []\<rparr>"

definition tokenClient :: "bytes \<Rightarrow> certPool \<Rightarrow> dialControl option \<Rightarrow> httpClient" where
  "tokenClient ip roots control = constrainedHTTPClient ip 443 tokenHost (Some roots) False control"

definition addKeyClient :: "candidate \<Rightarrow> certPool \<Rightarrow> dialControl option \<Rightarrow> httpClient" where
  "addKeyClient cand roots control =
     constrainedHTTPClient (rcIPv4 cand) 1337 (rcTLSCommonName cand) (Some roots) True control"

definition tokenFailure :: "net_env \<Rightarrow> do_error \<Rightarrow> failureReason option" where
  "tokenFailure env e =
     (if isConstrainedTrustError e then constrainedFailureFor ClassInvalidTrust
      else if isSocketMarkRefused e
        then constrainedFailureWithDetail ClassTokenFailed detailSocketMarkRefused
      else constrainedFailureFor (classifyNetworkError (neCtxErr env) ClassTokenFailed))"

definition tokenResponse :: "int \<Rightarrow> source \<Rightarrow> bytes \<times> failureReason option" where
  "tokenResponse status body =
     (if status \<noteq> 200
      then ([], constrainedFailureWithDetail ClassTokenFailed (detailString DetailTokenHTTPStatus))
      else
        (case readAllLimited body (maxConstrainedTokenBodySize + 1) of
           None \<Rightarrow> ([], responseInvalid DetailTokenBodyReadFailed)
         | Some raw \<Rightarrow>
             if maxConstrainedTokenBodySize < length raw
             then ([], responseInvalid DetailTokenBodyTooLarge)
             else
               (case parseConstrainedTokenDetailed raw of
                  Inl detail \<Rightarrow> ([], responseInvalid detail)
                | Inr token \<Rightarrow> (token, None))))"

definition constrainedTokenRequest ::
  "pki \<Rightarrow> net_env \<Rightarrow> bytes \<Rightarrow> credentials \<Rightarrow> certPool \<Rightarrow> dialControl option
     \<Rightarrow> (bytes \<times> failureReason option) \<times> net_event list" where
  "constrainedTokenRequest x env ip creds roots control =
     (if \<not> neUrlOk env tokenURL then (([], constrainedFailureFor ClassInternalFailure), [])
      else
        (case clientDo x (tokenClient ip roots control) (tokenRequest creds) 0 (neRounds env) of
           (Inl e, evs) \<Rightarrow> (([], tokenFailure env e), evs)
         | (Inr (status, body), evs) \<Rightarrow> (tokenResponse status body, evs)))"

definition emptyAddKey :: addKeyResult where
  "emptyAddKey = \<lparr>akStatus = [], akServerKey = [], akServerPort = 0, akServerIP = [], akServerVIP = [],
     akPeerIP = [], akPeerPubKey = [], akDNSServers = []\<rparr>"

definition addKeyFailure :: "net_env \<Rightarrow> do_error \<Rightarrow> failureReason option" where
  "addKeyFailure env e =
     (if isConstrainedTrustError e
      then constrainedFailureWithDetail ClassInvalidTrust (constrainedTrustDetail e)
      else if isSocketMarkRefused e
        then constrainedFailureWithDetail ClassAddKeyFailed detailSocketMarkRefused
      else constrainedFailureFor (classifyNetworkError (neCtxErr env) ClassAddKeyFailed))"

definition addKeyResponse :: "int \<Rightarrow> source \<Rightarrow> addKeyResult \<times> failureReason option" where
  "addKeyResponse status body =
     (if status \<noteq> 200
      then (emptyAddKey, constrainedFailureWithDetail ClassAddKeyFailed (detailString DetailAddKeyHTTPStatus))
      else
        (case readAllLimited body (maxConstrainedAddKeyBodySize + 1) of
           None \<Rightarrow> (emptyAddKey, responseInvalid DetailAddKeyBodyReadFailed)
         | Some raw \<Rightarrow>
             if maxConstrainedAddKeyBodySize < length raw
             then (emptyAddKey, responseInvalid DetailAddKeyBodyTooLarge)
             else
               (case parseConstrainedAddKeyDetailed raw of
                  Inl detail \<Rightarrow> (emptyAddKey, responseInvalid detail)
                | Inr result \<Rightarrow> (result, None))))"

definition constrainedAddKeyRequest ::
  "pki \<Rightarrow> net_env \<Rightarrow> candidate \<Rightarrow> bytes \<Rightarrow> bytes \<Rightarrow> certPool \<Rightarrow> dialControl option
     \<Rightarrow> (addKeyResult \<times> failureReason option) \<times> net_event list" where
  "constrainedAddKeyRequest x env cand token publicKey roots control =
     (let req = addKeyRequest cand token publicKey in
      if \<not> neUrlOk env (rqURL req) then ((emptyAddKey, constrainedFailureFor ClassInternalFailure), [])
      else
        (case clientDo x (addKeyClient cand roots control) req 0 (neRounds env) of
           (Inl e, evs) \<Rightarrow> ((emptyAddKey, addKeyFailure env e), evs)
         | (Inr (status, body), evs) \<Rightarrow> (addKeyResponse status body, evs)))"

section \<open>The form carries the credentials and nothing else\<close>

lemma upper_hex_val: "n < 16 \<Longrightarrow> is_hex (upper_hex n) \<and> digit_val (upper_hex n) = Some n"
proof -
  have "\<forall>n < 16. is_hex (upper_hex n) \<and> digit_val (upper_hex n) = Some n" by code_simp
  then show "n < 16 \<Longrightarrow> is_hex (upper_hex n) \<and> digit_val (upper_hex n) = Some n" by blast
qed

lemma byte_nibbles: "byte c div 16 < 16" "byte c mod 16 < 16"
  "char_of (byte c div 16 * 16 + byte c mod 16) = c"
proof -
  show "byte c div 16 < 16" using byte_less_256 [of c] by (simp add: less_mult_imp_div_less)
  have "byte c div 16 * 16 + byte c mod 16 = byte c" by simp
  then show "char_of (byte c div 16 * 16 + byte c mod 16) = c" by (simp only: char_of_char)
qed simp

lemma unescape_escapeChar:
  "queryUnescape (escapeChar c @ s) = map_option ((#) c) (queryUnescape s)"
proof -
  have "unreserved c \<Longrightarrow> c \<noteq> CHR ''%'' \<and> c \<noteq> CHR ''+''"
    by (auto simp: unreserved_def is_lower_def is_upper_def is_digit_def)
  then show ?thesis
    using upper_hex_val [OF byte_nibbles(1), of c] upper_hex_val [OF byte_nibbles(2), of c]
      byte_nibbles(3) [of c]
    by (auto simp: escapeChar_def)
qed

lemma queryUnescape_Escape: "queryUnescape (queryEscape s) = Some s"
  by (induction s) (simp_all add: queryEscape_def unescape_escapeChar)

lemma is_hex_plain: "is_hex c \<Longrightarrow> c \<noteq> CHR ''&'' \<and> c \<noteq> CHR ''=''"
  by (auto simp: byte_class)

lemma queryEscape_safe: "CHR ''&'' \<notin> set (queryEscape s) \<and> CHR ''='' \<notin> set (queryEscape s)"
proof -
  have "CHR ''&'' \<notin> set (escapeChar c) \<and> CHR ''='' \<notin> set (escapeChar c)" for c
    using upper_hex_val [OF byte_nibbles(1), of c] upper_hex_val [OF byte_nibbles(2), of c]
      is_hex_plain [of "upper_hex (byte c div 16)"] is_hex_plain [of "upper_hex (byte c mod 16)"]
    by (auto simp: escapeChar_def unreserved_def is_lower_def is_upper_def is_digit_def)
  then show ?thesis by (auto simp: queryEscape_def)
qed

text \<open>
  Whatever characters the credentials hold, the form body splits at \<open>&\<close> into exactly the
  two fields, and decoding their values gives back the user name and the password: no
  credential can add or alter a field.
\<close>

theorem tokenForm_fields:
  "splitByte (CHR ''&'') (tokenForm c)
     = [''password='' @ queryEscape (password c), ''username='' @ queryEscape (username c)]
   \<and> queryUnescape (queryEscape (password c)) = Some (password c)
   \<and> queryUnescape (queryEscape (username c)) = Some (username c)"
proof -
  have none: "CHR ''&'' \<notin> set l \<Longrightarrow> splitByte (CHR ''&'') l = [l]" for l
    by (induction l) auto
  have form: "tokenForm c = (''password='' @ queryEscape (password c)) @ CHR ''&''
      # (''username='' @ queryEscape (username c))"
    by (simp add: tokenForm_def)
  have amp: "CHR ''&'' \<notin> set (''password='' @ queryEscape (password c))"
    "CHR ''&'' \<notin> set (''username='' @ queryEscape (username c))"
    using queryEscape_safe by simp_all
  have "splitByte (CHR ''&'') (tokenForm c)
     = [''password='' @ queryEscape (password c), ''username='' @ queryEscape (username c)]"
    unfolding form splitByte_line [OF amp(1)] none [OF amp(2)] ..
  then show ?thesis by (simp add: queryUnescape_Escape)
qed

section \<open>What a successful request means\<close>

lemma tokenResponse_ok:
  "tokenResponse status body = (token, None) \<Longrightarrow>
     status = 200 \<and> \<not> srcFails body \<and> length (srcBytes body) \<le> maxConstrainedTokenBodySize
     \<and> parseConstrainedTokenDetailed (srcBytes body) = Inr token"
  by (auto simp: tokenResponse_def readAllLimited_def split: if_splits option.splits sum.splits)

lemma addKeyResponse_ok:
  "addKeyResponse status body = (r, None) \<Longrightarrow>
     status = 200 \<and> \<not> srcFails body \<and> length (srcBytes body) \<le> maxConstrainedAddKeyBodySize
     \<and> parseConstrainedAddKeyDetailed (srcBytes body) = Inr r"
  by (auto simp: addKeyResponse_def readAllLimited_def split: if_splits option.splits sum.splits)

lemma failure_is_some [simp]:
  "\<exists>y. constrainedFailureFor c = Some y" "\<exists>y. constrainedFailureWithDetail c d = Some y"
  by (simp_all add: constrainedFailureFor_def constrainedFailureWithDetail_def)

lemma tokenFailure_some [simp]: "tokenFailure env e \<noteq> None" "\<exists>y. tokenFailure env e = Some y"
  by (simp_all add: tokenFailure_def)

lemma addKeyFailure_some [simp]: "addKeyFailure env e \<noteq> None" "\<exists>y. addKeyFailure env e = Some y"
  by (simp_all add: addKeyFailure_def)

lemma parseToken_visible:
  "parseConstrainedTokenDetailed raw = Inr t \<Longrightarrow> validVisibleASCII t maxConstrainedTokenSize"
  by (auto simp: parseConstrainedTokenDetailed_def split: sum.splits strict_error.splits
      if_splits option.splits)

lemma tokenRequest_cases:
  assumes "constrainedTokenRequest x env ip creds roots control = ((token, failure), evs)"
  shows "evs = [] \<and> failure \<noteq> None
    \<or> (\<exists>res. clientDo x (tokenClient ip roots control) (tokenRequest creds) 0 (neRounds env) = (res, evs)
         \<and> (failure = None \<longrightarrow> (\<exists>status body. res = Inr (status, body)
                \<and> tokenResponse status body = (token, None))))"
  using assms
  by (auto simp: constrainedTokenRequest_def split: if_splits prod.splits sum.splits)

lemma addKeyRequest_cases:
  assumes "constrainedAddKeyRequest x env cand token pk roots control = ((r, failure), evs)"
  shows "evs = [] \<and> failure \<noteq> None
    \<or> (\<exists>res. clientDo x (addKeyClient cand roots control) (addKeyRequest cand token pk) 0 (neRounds env)
          = (res, evs)
         \<and> (failure = None \<longrightarrow> (\<exists>status body. res = Inr (status, body)
                \<and> addKeyResponse status body = (r, None))))"
  using assms
  by (auto simp: constrainedAddKeyRequest_def Let_def split: if_splits prod.splits sum.splits)

lemma tokenRequest_trace:
  assumes "constrainedTokenRequest x env ip creds roots control = ((token, failure), evs)"
  shows "connects evs \<in> {[], [joinHostPort ip ''443'']} \<and> sends evs \<in> {[], [tokenRequest creds]}
    \<and> (failure = None \<longrightarrow> sends evs = [tokenRequest creds])"
proof -
  have p: "itoa 443 = ''443''" by code_simp
  show ?thesis
    using tokenRequest_cases [OF assms] p
      clientDo_shape [of x "tokenClient ip roots control" "tokenRequest creds" 0 "neRounds env" _ evs]
      dial_shape_trace [of "tokenClient ip roots control" "tokenRequest creds" evs]
    by (auto simp: tokenClient_def constrainedHTTPClient_def dialAddress_def sends_mem)
qed

end
