(* ===== verification/Constrained_Files.thy ===== *)
theory Constrained_Files
  imports Byte_Stream Cli_Context
begin

text \<open>
  The descriptors of constrained mode: \<open>validateConstrainedDescriptor\<close> for both platforms,
  \<open>openConstrainedFiles\<close>, and \<open>writeInvalidInvocationFailureFD\<close>, which reports an invocation
  that never got as far as a runner. The descriptors of the process are a table; opening
  returns which of them were closed again.
\<close>

unbundle bit_operations_syntax

datatype constrainedFDMode = FDRead | FDWrite

record fd_info =
  fiFile :: os_file
  fiStatOk :: bool
  fiIsPipe :: bool
  fiFlags :: "int option"

type_synonym fd_table = "int \<Rightarrow> fd_info option"

definition O_ACCMODE :: int where "O_ACCMODE = 3"
definition O_RDONLY :: int where "O_RDONLY = 0"
definition O_WRONLY :: int where "O_WRONLY = 1"
definition O_RDWR :: int where "O_RDWR = 2"

datatype descriptor_error =
    StatFailed | NotAPipe | FcntlFailed | NotReadable | NotWritable | DeadlineFailed os_error
  | RequiresLinux

definition validateDescriptorLinux :: "fd_info \<Rightarrow> constrainedFDMode \<Rightarrow> descriptor_error option" where
  "validateDescriptorLinux f want =
     (if \<not> fiStatOk f then Some StatFailed
      else if \<not> fiIsPipe f then Some NotAPipe
      else
        (case fiFlags f of
           None \<Rightarrow> Some FcntlFailed
         | Some flags \<Rightarrow>
             (let accessMode = flags AND O_ACCMODE in
              case want of
                FDRead \<Rightarrow>
                  if accessMode \<noteq> O_RDONLY \<and> accessMode \<noteq> O_RDWR then Some NotReadable
                  else map_option DeadlineFailed (setConstrainedReadDeadline (fiFile f))
              | FDWrite \<Rightarrow>
                  if accessMode \<noteq> O_WRONLY \<and> accessMode \<noteq> O_RDWR then Some NotWritable
                  else map_option DeadlineFailed (setConstrainedWriteDeadline (fiFile f)))))"

definition validateConstrainedDescriptor ::
  "bool \<Rightarrow> fd_info \<Rightarrow> constrainedFDMode \<Rightarrow> descriptor_error option" where
  "validateConstrainedDescriptor linux f want =
     (if linux then validateDescriptorLinux f want else Some RequiresLinux)"

section \<open>Opening the six descriptors\<close>

record constrainedFiles =
  cfPlan :: "fd_info option"
  cfCredentials :: "fd_info option"
  cfPublicCA :: "fd_info option"
  cfRegionalCA :: "fd_info option"
  cfConfigWriter :: "fd_info option"
  cfResultWriter :: "fd_info option"
  cfCloseOnReturn :: "int list"

definition noFiles :: constrainedFiles where
  "noFiles = \<lparr>cfPlan = None, cfCredentials = None, cfPublicCA = None, cfRegionalCA = None,
     cfConfigWriter = None, cfResultWriter = None, cfCloseOnReturn = []\<rparr>"

datatype open_error = MissingFD bytes | InvalidFD bytes

definition fdSpecs :: "(bytes \<times> constrainedFDMode) list" where
  "fdSpecs =
     [(''constrained-plan-fd'', FDRead), (''credentials-fd'', FDRead), (''public-ca-fd'', FDRead),
      (''regional-ca-fd'', FDRead), (''config-fd'', FDWrite), (''result-fd'', FDWrite)]"

definition assignFile :: "bytes \<Rightarrow> fd_info \<Rightarrow> constrainedFiles \<Rightarrow> constrainedFiles" where
  "assignFile name f files =
     (if name = ''constrained-plan-fd'' then files\<lparr>cfPlan := Some f\<rparr>
      else if name = ''credentials-fd'' then files\<lparr>cfCredentials := Some f\<rparr>
      else if name = ''public-ca-fd'' then files\<lparr>cfPublicCA := Some f\<rparr>
      else if name = ''regional-ca-fd'' then files\<lparr>cfRegionalCA := Some f\<rparr>
      else if name = ''config-fd'' then files\<lparr>cfConfigWriter := Some f\<rparr>
      else if name = ''result-fd'' then files\<lparr>cfResultWriter := Some f\<rparr>
      else files)"

fun open_loop ::
  "bool \<Rightarrow> fd_table \<Rightarrow> cliContext \<Rightarrow> int list \<Rightarrow> constrainedFiles
     \<Rightarrow> (bytes \<times> constrainedFDMode) list \<Rightarrow> (open_error + constrainedFiles) \<times> int list" where
  "open_loop linux tbl c seen files [] = (Inr files, [])"
| "open_loop linux tbl c seen files ((name, mode) # specs) =
     (if \<not> isSet c name then (Inl (MissingFD name), [])
      else
        (let fd = intFlag c name in
         if fd < 3 \<or> fd \<in> set seen then (Inl (InvalidFD name), [])
         else
           (case tbl fd of
              None \<Rightarrow> (Inl (InvalidFD name), [])
            | Some f \<Rightarrow>
                (let files1 = files\<lparr>cfCloseOnReturn := cfCloseOnReturn files @ [fd]\<rparr> in
                 if validateConstrainedDescriptor linux f mode \<noteq> None
                 then (Inl (InvalidFD name), cfCloseOnReturn files1)
                 else open_loop linux tbl c (fd # seen) (assignFile name f files1) specs))))"

definition openConstrainedFiles ::
  "bool \<Rightarrow> fd_table \<Rightarrow> cliContext \<Rightarrow> (open_error + constrainedFiles) \<times> int list" where
  \<comment> \<open>the files or the error, and the descriptors that were closed again\<close>
  "openConstrainedFiles linux tbl c = open_loop linux tbl c [] noFiles fdSpecs"

definition closeConstrainedFiles :: "constrainedFiles \<Rightarrow> int list" where
  "closeConstrainedFiles files = cfCloseOnReturn files"

section \<open>Reporting an invalid invocation\<close>

definition invalidInvocationDocument :: bytes where
  "invalidInvocationDocument = marshalFailure ClassInvalidInvocation [] @ [CHR 0x0A]"

definition writeInvalidInvocationFailureFD ::
  "bool \<Rightarrow> fd_table \<Rightarrow> int \<Rightarrow> constrainedClass \<times> bytes" where
  \<comment> \<open>the class of the exit error, and what was written to the descriptor\<close>
  "writeInvalidInvocationFailureFD linux tbl fd =
     (if fd < 3 then (ClassInvalidInvocation, [])
      else
        (case tbl fd of
           None \<Rightarrow> (ClassInvalidInvocation, [])
         | Some f \<Rightarrow>
             if validateConstrainedDescriptor linux f FDWrite \<noteq> None then (ClassInvalidInvocation, [])
             else
               (case writeLimitedFile (fiFile f) invalidInvocationDocument maxConstrainedResultSize of
                  (Some _, out) \<Rightarrow> (ClassResultWriteFailed, out)
                | (None, out) \<Rightarrow> (ClassInvalidInvocation, out))))"

section \<open>What opening guarantees\<close>

definition usable :: "constrainedFDMode \<Rightarrow> fd_info \<Rightarrow> bool" where
  \<comment> \<open>a pipe opened for the direction that is needed\<close>
  "usable mode f \<longleftrightarrow>
     fiStatOk f \<and> fiIsPipe f \<and>
     (\<exists>flags. fiFlags f = Some flags \<and>
        flags AND O_ACCMODE \<in> {O_RDWR, (case mode of FDRead \<Rightarrow> O_RDONLY | FDWrite \<Rightarrow> O_WRONLY)})"

lemma validate_usable:
  "validateConstrainedDescriptor linux f mode = None \<Longrightarrow> linux \<and> usable mode f"
  by (auto simp: validateConstrainedDescriptor_def validateDescriptorLinux_def usable_def Let_def
      split: if_splits option.splits constrainedFDMode.splits)

lemma open_loop_ok:
  assumes "open_loop linux tbl c seen files specs = (Inr files', closed)"
  shows "closed = []
    \<and> cfCloseOnReturn files' = cfCloseOnReturn files @ map (intFlag c \<circ> fst) specs
    \<and> distinct (map (intFlag c \<circ> fst) specs)
    \<and> set (map (intFlag c \<circ> fst) specs) \<inter> set seen = {}
    \<and> (\<forall>(name, mode) \<in> set specs. isSet c name \<and> 3 \<le> intFlag c name
         \<and> (\<exists>f. tbl (intFlag c name) = Some f \<and> validateConstrainedDescriptor linux f mode = None))
    \<and> files' = fold (\<lambda>(name, mode) fs. assignFile name (the (tbl (intFlag c name)))
         (fs\<lparr>cfCloseOnReturn := cfCloseOnReturn fs @ [intFlag c name]\<rparr>)) specs files"
  using assms
proof (induction linux tbl c seen files specs rule: open_loop.induct)
  case (1 linux tbl c seen files)
  then show ?case by simp
next
  case (2 linux tbl c seen files name mode specs)
  obtain f where f: "isSet c name" "3 \<le> intFlag c name" "intFlag c name \<notin> set seen"
      "tbl (intFlag c name) = Some f" "validateConstrainedDescriptor linux f mode = None"
    using "2.prems" by (auto simp: Let_def split: if_splits option.splits)
  let ?files1 = "assignFile name f (files\<lparr>cfCloseOnReturn := cfCloseOnReturn files @ [intFlag c name]\<rparr>)"
  have rec: "open_loop linux tbl c (intFlag c name # seen) ?files1 specs = (Inr files', closed)"
    using "2.prems" f by (simp add: Let_def)
  have cl: "cfCloseOnReturn ?files1 = cfCloseOnReturn files @ [intFlag c name]"
    by (simp add: assignFile_def)
  show ?case
    using "2.IH" [OF _ refl _ f(4) refl _ rec] f cl by auto
qed

text \<open>
  When \<open>openConstrainedFiles\<close> succeeds the platform is Linux, the six flags were set to
  six different descriptors, none of them a standard one, each is a pipe open for its
  direction, every file of the result is the one its flag names, exactly these six are
  closed on return, and none has been closed yet.
\<close>

theorem openConstrainedFiles_ok:
  assumes "openConstrainedFiles linux tbl c = (Inr files, closed)"
  shows "linux \<and> closed = []
    \<and> cfCloseOnReturn files = map (intFlag c) fdNames \<and> distinct (map (intFlag c) fdNames)
    \<and> (\<forall>(name, mode) \<in> set fdSpecs. isSet c name \<and> 3 \<le> intFlag c name
         \<and> (\<exists>f. tbl (intFlag c name) = Some f \<and> usable mode f))
    \<and> cfPlan files = tbl (intFlag c ''constrained-plan-fd'')
    \<and> cfCredentials files = tbl (intFlag c ''credentials-fd'')
    \<and> cfPublicCA files = tbl (intFlag c ''public-ca-fd'')
    \<and> cfRegionalCA files = tbl (intFlag c ''regional-ca-fd'')
    \<and> cfConfigWriter files = tbl (intFlag c ''config-fd'')
    \<and> cfResultWriter files = tbl (intFlag c ''result-fd'')"
proof -
  note ok = open_loop_ok [OF assms [unfolded openConstrainedFiles_def]]
  have names: "map (intFlag c \<circ> fst) fdSpecs = map (intFlag c) fdNames"
    by (simp add: fdSpecs_def fdNames_def)
  have u: "\<forall>(name, mode) \<in> set fdSpecs. isSet c name \<and> 3 \<le> intFlag c name
         \<and> (\<exists>f. tbl (intFlag c name) = Some f \<and> usable mode f)"
    using ok validate_usable by blast
  have "(''constrained-plan-fd'', FDRead) \<in> set fdSpecs" by (simp add: fdSpecs_def)
  then have "\<exists>f. validateConstrainedDescriptor linux f FDRead = None" using ok by blast
  then have lin: "linux" using validate_usable by blast
  have tab: "tbl (intFlag c name) \<noteq> None" if "name \<in> set fdNames" for name
    using that u by (auto simp: fdSpecs_def fdNames_def)
  have "files = fold (\<lambda>(name, mode) fs. assignFile name (the (tbl (intFlag c name)))
         (fs\<lparr>cfCloseOnReturn := cfCloseOnReturn fs @ [intFlag c name]\<rparr>)) fdSpecs noFiles"
    using ok by blast
  then have fs: "cfPlan files = Some (the (tbl (intFlag c ''constrained-plan-fd'')))"
    "cfCredentials files = Some (the (tbl (intFlag c ''credentials-fd'')))"
    "cfPublicCA files = Some (the (tbl (intFlag c ''public-ca-fd'')))"
    "cfRegionalCA files = Some (the (tbl (intFlag c ''regional-ca-fd'')))"
    "cfConfigWriter files = Some (the (tbl (intFlag c ''config-fd'')))"
    "cfResultWriter files = Some (the (tbl (intFlag c ''result-fd'')))"
    by (simp_all add: fdSpecs_def assignFile_def)
  have same: "Some (the (tbl (intFlag c name))) = tbl (intFlag c name)" if "name \<in> set fdNames" for name
    using tab [OF that] by auto
  have mem: "''constrained-plan-fd'' \<in> set fdNames" "''credentials-fd'' \<in> set fdNames"
    "''public-ca-fd'' \<in> set fdNames" "''regional-ca-fd'' \<in> set fdNames"
    "''config-fd'' \<in> set fdNames" "''result-fd'' \<in> set fdNames"
    by (simp_all add: fdNames_def)
  have "closed = []" "cfCloseOnReturn files = cfCloseOnReturn noFiles @ map (intFlag c) fdNames"
    "distinct (map (intFlag c) fdNames)"
    using ok unfolding names by blast+
  moreover have "cfCloseOnReturn noFiles = []" by (simp add: noFiles_def)
  ultimately show ?thesis
    using u lin fs [unfolded mem [THEN same]] by (intro conjI) simp_all
qed

definition examplePipe :: "int \<Rightarrow> fd_info" where
  "examplePipe flags = \<lparr>fiFile = exampleFile, fiStatOk = True, fiIsPipe = True, fiFlags = Some flags\<rparr>"

definition exampleTable :: fd_table where
  "exampleTable fd = (if fd < 3 \<or> 8 < fd then None else Some (examplePipe (if fd < 7 then 0 else 1)))"

definition exampleContext :: cliContext where
  "exampleContext = constrainedContextFromValues
     [''constrained-plan-fd'' \<mapsto> 3, ''credentials-fd'' \<mapsto> 4, ''public-ca-fd'' \<mapsto> 5,
      ''regional-ca-fd'' \<mapsto> 6, ''config-fd'' \<mapsto> 7, ''result-fd'' \<mapsto> 8] Map.empty"

lemma example_open: "\<not> isl (fst (openConstrainedFiles True exampleTable exampleContext))"
  by code_simp

theorem openConstrainedFiles_ok_witness:
  "\<exists>files. openConstrainedFiles True exampleTable exampleContext = (Inr files, [])
     \<and> cfCloseOnReturn files = [3, 4, 5, 6, 7, 8]"
proof -
  obtain files closed where o: "openConstrainedFiles True exampleTable exampleContext = (Inr files, closed)"
    using example_open
    by (cases "openConstrainedFiles True exampleTable exampleContext")
      (auto simp: isl_def, metis sum.exhaust)
  have "map (intFlag exampleContext) fdNames = [3, 4, 5, 6, 7, 8]" by code_simp
  then show ?thesis using openConstrainedFiles_ok [OF o] o by auto
qed

text \<open>
  \<open>writeInvalidInvocationFailureFD\<close> writes nothing but (a prefix of) the one
  \<open>invalid_invocation\<close> document, only to a writable pipe that is not a standard descriptor;
  it exits with \<open>result_write_failed\<close> only when that write was attempted and failed, and
  otherwise the document is complete or the descriptor unusable.
\<close>

theorem writeInvalidInvocation_effect:
  assumes "writeInvalidInvocationFailureFD linux tbl fd = (cls, out)"
  shows "(\<exists>n. out = take n invalidInvocationDocument)
    \<and> (out \<noteq> [] \<or> cls = ClassResultWriteFailed \<longrightarrow>
         3 \<le> fd \<and> (\<exists>f. tbl fd = Some f \<and> usable FDWrite f))
    \<and> cls \<in> {ClassInvalidInvocation, ClassResultWriteFailed}
    \<and> (cls = ClassInvalidInvocation \<longrightarrow> out = [] \<or> out = invalidInvocationDocument)"
proof -
  have nil: "\<exists>n. [] = take n invalidInvocationDocument" by (intro exI [of _ 0]) simp
  show ?thesis
  proof (cases "3 \<le> fd \<and> (\<exists>f. tbl fd = Some f \<and> validateConstrainedDescriptor linux f FDWrite = None)")
    case False
    then show ?thesis
      using assms nil by (auto simp: writeInvalidInvocationFailureFD_def split: option.splits if_splits)
  next
    case True
    then obtain f where f: "tbl fd = Some f" "validateConstrainedDescriptor linux f FDWrite = None"
      "3 \<le> fd" by blast
    obtain err w where w: "writeLimitedFile (fiFile f) invalidInvocationDocument
        maxConstrainedResultSize = (err, w)" by fastforce
    then have "\<exists>n. w = take n invalidInvocationDocument"
      using writeLimitedFile_prefix [of "fiFile f" invalidInvocationDocument maxConstrainedResultSize]
      by simp
    moreover have "err = None \<Longrightarrow> w = invalidInvocationDocument"
      using writeLimitedFile_ok w by blast
    moreover have "usable FDWrite f" using validate_usable f(2) by blast
    ultimately show ?thesis
      using assms f w by (cases err) (auto simp: writeInvalidInvocationFailureFD_def)
  qed
qed

theorem writeInvalidInvocation_effect_witness:
  "snd (writeInvalidInvocationFailureFD True exampleTable 8) \<noteq> []
   \<and> fst (writeInvalidInvocationFailureFD True exampleTable 8) \<in> {ClassInvalidInvocation, ClassResultWriteFailed}"
proof
  show "snd (writeInvalidInvocationFailureFD True exampleTable 8) \<noteq> []" by code_simp
  show "fst (writeInvalidInvocationFailureFD True exampleTable 8) \<in> {ClassInvalidInvocation, ClassResultWriteFailed}"
    using writeInvalidInvocation_effect [OF surjective_pairing, of True exampleTable 8] by blast
qed

end
