(* ===== verification/Raw_Args.thy ===== *)
theory Raw_Args
  imports Cli_Context
begin

text \<open>
  The raw command-line scan of constrained mode (\<open>rawConstrainedRequested\<close>,
  \<open>parseRawConstrainedArgs\<close>, \<open>rawFlagName\<close>): it runs before the command-line library, and
  decides on its own which invocations are constrained and complete. The main theorem
  gives the exact set of argument vectors it accepts.
\<close>

section \<open>The scan\<close>

definition rawFlagName :: "bytes \<Rightarrow> bytes" where
  "rawFlagName arg =
     (if hasPrefix arg ''--'' \<and> 2 < length arg then cutAt (trimPrefix arg ''--'') (CHR ''='')
      else if hasPrefix arg ''-'' then trimPrefix arg ''-''
      else [])"

definition rawConstrainedFDFlag :: "bytes \<Rightarrow> bool" where
  "rawConstrainedFDFlag name \<longleftrightarrow> name \<in> set fdNames"

fun rawConstrainedRequested :: "bytes list \<Rightarrow> bool" where
  "rawConstrainedRequested [] = False"
| "rawConstrainedRequested (arg # args) =
     (if arg = ''--'' then False
      else if rawFlagName arg \<in> set requestNames then True
      else rawConstrainedRequested args)"

datatype raw_error =
    RawPositional | RawInvalidFlag | RawDuplicate | RawIncompatible | RawMissingValue
  | RawInvalidFD | RawMissingFD

type_synonym raw_result = "raw_error option \<times> (bytes \<rightharpoonup> int) \<times> (bytes \<rightharpoonup> bytes)"

definition rawFlagValue :: "bytes \<Rightarrow> bytes list \<Rightarrow> (bytes \<times> bytes list) option" where
  \<comment> \<open>the value of a flag and the arguments that are left; None when the value is missing\<close>
  "rawFlagValue arg args =
     (case indexByte arg (CHR ''='') of
        Some eq \<Rightarrow> Some (drop (Suc eq) arg, args)
      | None \<Rightarrow> (case args of [] \<Rightarrow> None | v # rest \<Rightarrow> Some (v, rest)))"

lemma rawFlagValue_length: "rawFlagValue arg args = Some (v, rest) \<Longrightarrow> length rest \<le> length args"
  by (auto simp: rawFlagValue_def split: option.splits list.splits)

function raw_loop ::
  "bytes list \<Rightarrow> bytes list \<Rightarrow> (bytes \<rightharpoonup> int) \<Rightarrow> (bytes \<rightharpoonup> bytes) \<Rightarrow> raw_result" where
  "raw_loop seen [] vals strs = (None, vals, strs)"
| "raw_loop seen (arg # args) vals strs =
     (if arg = ''--'' \<or> \<not> hasPrefix arg ''-'' then (Some RawPositional, vals, strs)
      else
        (let name = rawFlagName arg in
         if name = [] then (Some RawInvalidFlag, vals, strs)
         else if name \<in> set seen then (Some RawDuplicate, vals, strs)
         else if \<not> rawConstrainedFDFlag name \<and> name \<noteq> ''socket-mark''
           then (Some RawIncompatible, vals, strs)
         else
           (case rawFlagValue arg args of
              None \<Rightarrow> (Some RawMissingValue, vals, strs)
            | Some (rawValue, rest) \<Rightarrow>
                if name = ''socket-mark'' then
                  raw_loop (name # seen) rest vals (strs(name \<mapsto> rawValue))
                else
                  (case atoi rawValue of
                     None \<Rightarrow> (Some RawInvalidFD, vals, strs)
                   | Some value \<Rightarrow> raw_loop (name # seen) rest (vals(name \<mapsto> value)) strs))))"
  by pat_completeness auto
termination
  by (relation "measure (\<lambda>(_, args, _, _). length args)") (auto dest!: rawFlagValue_length)

declare raw_loop.simps(2) [simp del]

definition parseRawConstrainedArgs :: "bytes list \<Rightarrow> raw_result" where
  "parseRawConstrainedArgs args =
     (case raw_loop [] args Map.empty Map.empty of
        (Some e, vals, strs) \<Rightarrow> (Some e, vals, strs)
      | (None, vals, strs) \<Rightarrow>
          if list_all (\<lambda>n. vals n \<noteq> None) fdNames then (None, vals, strs)
          else (Some RawMissingFD, vals, strs))"

section \<open>The argument vectors that are accepted\<close>

text \<open>
  An item is one flag as it can be written: with its value in the same argument (two
  dashes only) or in the next one (one dash or two).
\<close>

datatype item = Joined bytes bytes | Split bool bytes bytes

fun itemName :: "item \<Rightarrow> bytes" where
  "itemName (Joined n v) = n"
| "itemName (Split two n v) = n"

fun itemValue :: "item \<Rightarrow> bytes" where
  "itemValue (Joined n v) = v"
| "itemValue (Split two n v) = v"

fun itemWords :: "item \<Rightarrow> bytes list" where
  "itemWords (Joined n v) = [''--'' @ n @ CHR ''='' # v]"
| "itemWords (Split two n v) = [(if two then ''--'' else ''-'') @ n, v]"

definition rawNames :: "bytes list" where
  "rawNames = fdNames @ [''socket-mark'']"

definition okItem :: "item \<Rightarrow> bool" where
  "okItem i \<longleftrightarrow>
     itemName i \<in> set rawNames \<and>
     (itemName i \<noteq> ''socket-mark'' \<longrightarrow> atoi (itemValue i) \<noteq> None)"

definition itemValues :: "item list \<Rightarrow> (bytes \<rightharpoonup> int)" where
  "itemValues its = map_of (map (\<lambda>i. (itemName i, the (atoi (itemValue i))))
     (filter (\<lambda>i. itemName i \<noteq> ''socket-mark'') its))"

definition itemStrings :: "item list \<Rightarrow> (bytes \<rightharpoonup> bytes)" where
  "itemStrings its = map_of (map (\<lambda>i. (itemName i, itemValue i))
     (filter (\<lambda>i. itemName i = ''socket-mark'') its))"

lemma rawNames_plain:
  assumes "n \<in> set rawNames"
  shows "n \<noteq> []" "CHR ''='' \<notin> set n" "hd n \<noteq> CHR ''-''"
  using assms by (auto simp: rawNames_def fdNames_def)

lemma trim_dashes [simp]:
  "trimPrefix (CHR ''-'' # CHR ''-'' # t) ''--'' = t" "trimPrefix (CHR ''-'' # t) ''-'' = t"
  by (simp_all add: trimPrefix_def)

lemma rawFlagName_words:
  assumes "n \<in> set rawNames"
  shows "rawFlagName (''--'' @ n @ CHR ''='' # v) = n"
    and "rawFlagName (''--'' @ n) = n"
    and "rawFlagName (''-'' @ n) = n"
proof -
  note plain = rawNames_plain [OF assms]
  obtain c t where n: "n = c # t" "c \<noteq> CHR ''-''" using plain by (cases n) auto
  show "rawFlagName (''--'' @ n @ CHR ''='' # v) = n"
    using plain(2) by (simp add: rawFlagName_def)
  show "rawFlagName (''--'' @ n) = n"
    using plain(1,2) by (simp add: rawFlagName_def cutAt_notin)
  show "rawFlagName (''-'' @ n) = n"
    using n by (simp add: rawFlagName_def)
qed

lemma indexByte_dashes:
  assumes "n \<in> set rawNames"
  shows "indexByte (''--'' @ n) (CHR ''='') = None" "indexByte (''-'' @ n) (CHR ''='') = None"
    "indexByte (''--'' @ n @ CHR ''='' # v) (CHR ''='') = Some (length n + 2)"
  using rawNames_plain(2) [OF assms]
  by (simp_all add: indexByte_None_iff indexByte_append_notin)

lemma rawName_cases:
  "name \<in> set rawNames \<longleftrightarrow> rawConstrainedFDFlag name \<or> name = ''socket-mark''"
  by (auto simp: rawNames_def rawConstrainedFDFlag_def)

lemma socketMark_not_fd: "\<not> rawConstrainedFDFlag ''socket-mark''"
  by (simp add: rawConstrainedFDFlag_def fdNames_def)

text \<open>One step of the loop, on an item.\<close>

lemma raw_loop_item:
  assumes "okItem i" and "itemName i \<notin> set seen"
  shows "raw_loop seen (itemWords i @ args) vals strs =
    (if itemName i = ''socket-mark''
     then raw_loop (itemName i # seen) args vals (strs(itemName i \<mapsto> itemValue i))
     else raw_loop (itemName i # seen) args
            (vals(itemName i \<mapsto> the (atoi (itemValue i)))) strs)"
proof -
  have n: "itemName i \<in> set rawNames" using assms(1) by (simp add: okItem_def)
  note plain = rawNames_plain [OF n]
  have v: "itemName i \<noteq> ''socket-mark'' \<Longrightarrow> \<exists>x. atoi (itemValue i) = Some x"
    using assms(1) by (auto simp: okItem_def)
  obtain w rest where w: "itemWords i @ args = w # rest" "rawFlagName w = itemName i"
      "w \<noteq> ''--''" "hasPrefix w ''-''" "rawFlagValue w rest = Some (itemValue i, args)"
  proof (cases i)
    case (Joined m x)
    then show ?thesis
      using that n plain rawFlagName_words(1) [of m x] indexByte_dashes(3) [of m x]
      by (auto simp: rawFlagValue_def)
  next
    case (Split two m x)
    then show ?thesis
      using that n plain rawFlagName_words(2,3) [of m] indexByte_dashes(1,2) [of m]
      by (cases two) (auto simp: rawFlagValue_def neq_Nil_conv)
  qed
  show ?thesis
    unfolding w(1)
    using w assms(2) plain(1) n v
    by (auto simp: raw_loop.simps(2) Let_def rawName_cases socketMark_not_fd)
qed

text \<open>Conversely, an accepting run starts with an item.\<close>

lemma trimmed_word:
  assumes "hasPrefix w ''-''" and "w \<noteq> ''--''" and "rawFlagName w \<in> set rawNames"
    and "rawFlagValue w args = Some (v, rest)"
  shows "\<exists>i. itemWords i @ rest = w # args \<and> itemName i = rawFlagName w \<and> itemValue i = v"
proof -
  obtain u where u: "w = CHR ''-'' # u" using assms(1) by (auto simp: hasPrefix_iff)
  show ?thesis
  proof (cases "hasPrefix w ''--'' \<and> 2 < length w")
    case True
    then obtain t where t: "w = ''--'' @ t" by (auto simp: hasPrefix_iff)
    have name: "rawFlagName w = cutAt t (CHR ''='')" using True t by (simp add: rawFlagName_def)
    show ?thesis
    proof (cases "indexByte t (CHR ''='')")
      case None
      then have "v # rest = args" "rawFlagName w = t"
        using assms(4) t name by (auto simp: rawFlagValue_def cutAt_def split: list.splits)
      then show ?thesis using t by (intro exI [of _ "Split True t v"]) auto
    next
      case (Some k)
      then have "t = take k t @ CHR ''='' # drop (Suc k) t"
        using indexByte_SomeD [OF Some] by (metis id_take_nth_drop)
      moreover have "rest = args" "v = drop (Suc k) t" "rawFlagName w = take k t"
        using assms(4) t name Some by (auto simp: rawFlagValue_def cutAt_def)
      ultimately show ?thesis
        using t by (intro exI [of _ "Joined (take k t) (drop (Suc k) t)"]) auto
    qed
  next
    case False
    then have name: "rawFlagName w = u" using u by (auto simp: rawFlagName_def trimPrefix_def)
    then have "indexByte w (CHR ''='') = None"
      using rawNames_plain(2) [OF assms(3)] u by (simp add: indexByte_None_iff)
    then have "v # rest = args" using assms(4) by (auto simp: rawFlagValue_def split: list.splits)
    then show ?thesis using u name by (intro exI [of _ "Split False u v"]) auto
  qed
qed

lemma raw_loop_accepts:
  assumes "raw_loop seen args vals strs = (None, vals', strs')"
  shows "\<exists>its. args = concat (map itemWords its) \<and> list_all okItem its
    \<and> distinct (map itemName its) \<and> set (map itemName its) \<inter> set seen = {}"
  using assms
proof (induction "length args" arbitrary: seen args vals strs rule: less_induct)
  case less
  show ?case
  proof (cases args)
    case Nil
    then show ?thesis by (intro exI [of _ "[]"]) simp
  next
    case (Cons w ws)
    let ?n = "rawFlagName w"
    have acc: "w \<noteq> ''--''" "hasPrefix w ''-''" "?n \<notin> set seen" "?n \<in> set rawNames"
      using less.prems Cons
      by (auto simp: raw_loop.simps(2) Let_def rawName_cases split: if_splits)
    obtain v rest where v: "rawFlagValue w ws = Some (v, rest)"
      using less.prems Cons acc
      by (auto simp: raw_loop.simps(2) Let_def rawName_cases split: if_splits option.splits)
    obtain i where i: "itemWords i @ rest = w # ws" "itemName i = ?n" "itemValue i = v"
      using trimmed_word [OF acc(2,1,4) v] by blast
    have ok: "okItem i" "\<exists>vs ss. raw_loop (?n # seen) rest vs ss = (None, vals', strs')"
      using less.prems Cons acc v i
      by (auto simp: okItem_def raw_loop.simps(2) Let_def rawName_cases
          split: if_splits option.splits)
    have "length rest < length args" using rawFlagValue_length [OF v] Cons by simp
    then obtain its where "rest = concat (map itemWords its)" "list_all okItem its"
        "distinct (map itemName its)" "set (map itemName its) \<inter> set (?n # seen) = {}"
      using less.hyps ok(2) by blast
    then show ?thesis
      using i ok(1) Cons acc(3) by (intro exI [of _ "i # its"]) auto
  qed
qed

lemma itemValues_Cons:
  "itemValues (i # its) =
     (if itemName i = ''socket-mark'' then itemValues its
      else (itemValues its)(itemName i \<mapsto> the (atoi (itemValue i))))"
  by (simp add: itemValues_def)

lemma itemStrings_Cons:
  "itemStrings (i # its) =
     (if itemName i = ''socket-mark'' then (itemStrings its)(itemName i \<mapsto> itemValue i)
      else itemStrings its)"
  by (simp add: itemStrings_def)

lemma raw_loop_items:
  assumes "list_all okItem its" and "distinct (map itemName its)"
    and "set (map itemName its) \<inter> set seen = {}"
  shows "raw_loop seen (concat (map itemWords its)) vals strs
    = (None, vals ++ itemValues its, strs ++ itemStrings its)"
  using assms
proof (induction its arbitrary: seen vals strs)
  case Nil
  then show ?case by (simp add: itemValues_def itemStrings_def)
next
  case (Cons i its)
  have notin: "itemName i \<notin> set (map itemName its)" using Cons.prems(2) by simp
  have dom: "itemName i \<notin> dom (itemValues its)" "itemName i \<notin> dom (itemStrings its)"
    using notin unfolding itemValues_def itemStrings_def dom_map_of_conv_image_fst
    by (simp_all add: image_iff) metis
  have "raw_loop (itemName i # seen) (concat (map itemWords its)) vs ss
      = (None, vs ++ itemValues its, ss ++ itemStrings its)" for vs ss
    using Cons by (intro Cons.IH) auto
  moreover have "raw_loop seen (itemWords i @ concat (map itemWords its)) vals strs =
    (if itemName i = ''socket-mark''
     then raw_loop (itemName i # seen) (concat (map itemWords its)) vals
            (strs(itemName i \<mapsto> itemValue i))
     else raw_loop (itemName i # seen) (concat (map itemWords its))
            (vals(itemName i \<mapsto> the (atoi (itemValue i)))) strs)"
    using Cons.prems by (intro raw_loop_item) auto
  ultimately show ?case
    using map_add_upd_left [OF dom(1), of vals] map_add_upd_left [OF dom(2), of strs]
    by (simp only: itemValues_Cons itemStrings_Cons map_add_upd list.map concat.simps split: if_split)
      (simp add: fun_upd_def)
qed

lemma accepted_items:
  "parseRawConstrainedArgs args = (None, vals, strs) \<longleftrightarrow>
     (\<exists>its. args = concat (map itemWords its) \<and> list_all okItem its \<and> distinct (map itemName its)
        \<and> set fdNames \<subseteq> set (map itemName its)
        \<and> vals = itemValues its \<and> strs = itemStrings its)"
proof -
  have dom: "list_all (\<lambda>n. itemValues its n \<noteq> None) fdNames \<longleftrightarrow> set fdNames \<subseteq> set (map itemName its)"
    for its
  proof -
    have "itemValues its n \<noteq> None \<longleftrightarrow> n \<in> set (map itemName its)" if "n \<in> set fdNames" for n
    proof -
      have "n \<noteq> ''socket-mark''" using that by (auto simp: fdNames_def)
      then show ?thesis by (auto simp: itemValues_def map_of_eq_None_iff image_iff)
    qed
    then show ?thesis by (auto simp: list_all_iff)
  qed
  show ?thesis
  proof
    assume h: "parseRawConstrainedArgs args = (None, vals, strs)"
    then have run: "raw_loop [] args Map.empty Map.empty = (None, vals, strs)"
      and all: "list_all (\<lambda>n. vals n \<noteq> None) fdNames"
      by (auto simp: parseRawConstrainedArgs_def split: prod.splits option.splits if_splits)
    obtain its where its_def: "args = concat (map itemWords its)" "list_all okItem its"
        "distinct (map itemName its)"
      using raw_loop_accepts [OF run] by blast
    then have "vals = itemValues its" "strs = itemStrings its"
      using raw_loop_items [OF its_def(2,3), of "[]" Map.empty Map.empty] run by auto
    then show "\<exists>its. args = concat (map itemWords its) \<and> list_all okItem its \<and> distinct (map itemName its)
        \<and> set fdNames \<subseteq> set (map itemName its)
        \<and> vals = itemValues its \<and> strs = itemStrings its"
      using its_def all dom by blast
  next
    assume "\<exists>its. args = concat (map itemWords its) \<and> list_all okItem its \<and> distinct (map itemName its)
        \<and> set fdNames \<subseteq> set (map itemName its)
        \<and> vals = itemValues its \<and> strs = itemStrings its"
    then obtain its where i: "args = concat (map itemWords its)" "list_all okItem its"
        "distinct (map itemName its)" "set fdNames \<subseteq> set (map itemName its)"
        "vals = itemValues its" "strs = itemStrings its"
      by blast
    then show "parseRawConstrainedArgs args = (None, vals, strs)"
      using raw_loop_items [OF i(2,3), of "[]" Map.empty Map.empty] dom [of its]
      by (simp add: parseRawConstrainedArgs_def)
  qed
qed

text \<open>
  C26: \<open>parseRawConstrainedArgs\<close> accepts an argument vector exactly when it is a sequence
  of the known flags, each written in one of the supported forms and each at most once,
  with all six descriptor flags present and their values integers; and then it returns
  the values as written. In particular nothing positional, unknown or repeated is ever
  accepted.
\<close>

theorem parseRawConstrainedArgs_exact:
  "parseRawConstrainedArgs args = (None, vals, strs) \<longleftrightarrow>
     (\<exists>its. args = concat (map itemWords its) \<and> list_all okItem its \<and> distinct (map itemName its)
        \<and> set fdNames \<subseteq> set (map itemName its)
        \<and> vals = itemValues its \<and> strs = itemStrings its)"
  by (rule accepted_items)

end
