(* ===== verification/Constrained_Runner.thy ===== *)
theory Constrained_Runner
  imports Constrained_Request Constrained_Files Raw_Args
begin

text \<open>
  The constrained generation itself: \<open>constrainedRunner.execute\<close> with its admissions,
  \<open>writeFailure\<close>, \<open>constrainedAction\<close> and \<open>constrainedActionFromRawArgs\<close>. A run returns the
  failure reason and the trace of what it did: descriptors read, network events, what was
  written to the configuration and to the result descriptor. \<open>execute\<close> is one function in the
  code; here it is the composition of its three phases (inputs, network, output), each with
  the code's own sequence of early returns.
\<close>

section \<open>The environment of a run\<close>

record run_env =
  reSupported :: bool
  reSetsockopt :: setsockoptIntFunc
  reOsArgs :: "bytes list"
  reTimeLeft :: "nat \<Rightarrow> int"
  reCtxErr :: "nat \<Rightarrow> ctx_error option"
  reCtxErrAfter :: "nat \<Rightarrow> ctx_error option"
  rePki :: pki
  reTokenNet :: net_env
  reAddKeyNet :: net_env
  reRandom :: "bytes option"
  reScalarMult :: "bytes \<Rightarrow> bytes"

text \<open>
  The \<open>k\<close>-th admission of a run sees \<open>reTimeLeft k\<close> seconds left and the context error
  \<open>reCtxErr k\<close>; when it is refused, \<open>contextClass\<close> reads the context again and sees
  \<open>reCtxErrAfter k\<close>.
\<close>

datatype input_role = PlanInput | CredentialsInput | PublicCAInput | RegionalCAInput

datatype run_event = EvRead input_role | EvNet net_event | EvConfig bytes | EvResult bytes

definition admit :: "run_env \<Rightarrow> nat \<Rightarrow> int \<Rightarrow> bool" where
  "admit env k remaining \<longleftrightarrow> remaining \<le> reTimeLeft env k \<and> reCtxErr env k = None"

definition contextClass :: "run_env \<Rightarrow> nat \<Rightarrow> constrainedClass" where
  "contextClass env k =
     (if reCtxErrAfter env k = Some ContextCanceled then ClassCancelled else ClassDeadlineExceeded)"

definition readFD :: "fd_info option \<Rightarrow> nat \<Rightarrow> file_error + bytes" where
  \<comment> \<open>\<open>readLimitedFile\<close> on a file pointer; a nil file is an invalid argument to the deadline\<close>
  "readFD f limit =
     (case f of
        None \<Rightarrow> Inl (OsFailure \<lparr>errIsNoDeadline = False, errText = ''invalid argument''\<rparr>)
      | Some i \<Rightarrow> readLimitedFile (fiFile i) limit)"

definition writeFD :: "fd_info option \<Rightarrow> bytes \<Rightarrow> nat \<Rightarrow> file_error option \<times> bytes" where
  "writeFD f body limit =
     (case f of
        None \<Rightarrow>
          (if limit < length body then (Some OutputTooLong, [])
           else (Some (OsFailure \<lparr>errIsNoDeadline = False, errText = ''invalid argument''\<rparr>), []))
      | Some i \<Rightarrow> writeLimitedFile (fiFile i) body limit)"

definition after :: "'e list \<Rightarrow> 'a \<times> 'e list \<Rightarrow> 'a \<times> 'e list" where
  "after evs r = (fst r, evs @ snd r)"

section \<open>The phases of execute\<close>

record run_inputs =
  riPlan :: constrainedPlan
  riCreds :: credentials
  riPublic :: certPool
  riRegional :: certPool
  riControl :: "dialControl option"

definition trustFailure :: "bytes \<Rightarrow> failureReason option" where
  "trustFailure detail = constrainedFailureWithDetail ClassInvalidTrust detail"

definition executeTrust ::
  "run_env \<Rightarrow> constrainedFiles \<Rightarrow> constrainedPlan \<Rightarrow> credentials \<Rightarrow> dialControl option
     \<Rightarrow> (failureReason option + run_inputs) \<times> run_event list" where
  "executeTrust env files plan creds control =
     (case Option.bind (case readFD (cfPublicCA files) maxConstrainedCABundleSize of
                          Inl _ \<Rightarrow> None | Inr raw \<Rightarrow> Some raw)
             (\<lambda>raw. case parseConstrainedCABundle (rePki env) raw of Inl _ \<Rightarrow> None | Inr p \<Rightarrow> Some p) of
        None \<Rightarrow> (Inl (trustFailure ''public_ca_bundle''), [EvRead PublicCAInput])
      | Some publicPool \<Rightarrow>
          (case Option.bind (case readFD (cfRegionalCA files) maxConstrainedCABundleSize of
                               Inl _ \<Rightarrow> None | Inr raw \<Rightarrow> Some raw)
                  (\<lambda>raw. case parseConstrainedCABundle (rePki env) raw of Inl _ \<Rightarrow> None | Inr p \<Rightarrow> Some p) of
             None \<Rightarrow>
               (Inl (trustFailure ''regional_ca_bundle''), [EvRead PublicCAInput, EvRead RegionalCAInput])
           | Some regionalPool \<Rightarrow>
               (Inr \<lparr>riPlan = plan, riCreds = creds, riPublic = publicPool, riRegional = regionalPool,
                     riControl = control\<rparr>,
                [EvRead PublicCAInput, EvRead RegionalCAInput])))"

definition executeCredentials ::
  "run_env \<Rightarrow> constrainedFiles \<Rightarrow> constrainedPlan \<Rightarrow> dialControl option
     \<Rightarrow> (failureReason option + run_inputs) \<times> run_event list" where
  "executeCredentials env files plan control =
     (case readFD (cfCredentials files) maxConstrainedCredentialSize of
        Inl _ \<Rightarrow> (Inl (constrainedFailureFor ClassInvalidCredentials), [EvRead CredentialsInput])
      | Inr credentialRaw \<Rightarrow>
          (case parseConstrainedCredentials credentialRaw of
             None \<Rightarrow> (Inl (constrainedFailureFor ClassInvalidCredentials), [EvRead CredentialsInput])
           | Some creds \<Rightarrow>
               if \<not> validConstrainedCredential (username creds)
                  \<or> \<not> validConstrainedCredential (password creds)
               then (Inl (constrainedFailureFor ClassInvalidCredentials), [EvRead CredentialsInput])
               else after [EvRead CredentialsInput] (executeTrust env files plan creds control)))"

definition executeInputs ::
  "run_env \<Rightarrow> constrainedFiles \<Rightarrow> cliContext
     \<Rightarrow> (failureReason option + run_inputs) \<times> run_event list" where
  "executeInputs env files c =
     (case validateConstrainedInvocation c (reOsArgs env) of
        Some _ \<Rightarrow> (Inl (constrainedFailureFor ClassInvalidInvocation), [])
      | None \<Rightarrow>
          (let (control, failure) = constrainedSocketControl (reSupported env) (reSetsockopt env) c in
           if failure \<noteq> None then (Inl failure, [])
           else if \<not> admit env 0 45 then (Inl (constrainedFailureFor (contextClass env 0)), [])
           else
             (case readFD (cfPlan files) maxConstrainedPlanSize of
                Inl _ \<Rightarrow> (Inl (constrainedFailureFor ClassInvalidPlan), [EvRead PlanInput])
              | Inr planRaw \<Rightarrow>
                  (case parseConstrainedPlan planRaw of
                     Inl _ \<Rightarrow> (Inl (constrainedFailureFor ClassInvalidPlan), [EvRead PlanInput])
                   | Inr plan \<Rightarrow>
                       after [EvRead PlanInput] (executeCredentials env files plan control)))))"

definition endpointReused :: "constrainedPlan \<Rightarrow> addKeyResult \<Rightarrow> bool" where
  "endpointReused plan r \<longleftrightarrow>
     cpExcludedWireguardEndpointSet plan \<and>
     (case cpExcludedWireguardEndpoint plan of
        None \<Rightarrow> False
      | Some e \<Rightarrow> epIPv4 e = akServerIP r \<and> epUDPPort e = akServerPort r)"

definition executeAddKey ::
  "run_env \<Rightarrow> run_inputs \<Rightarrow> bytes \<Rightarrow> key
     \<Rightarrow> (failureReason option + bytes \<times> addKeyResult) \<times> run_event list" where
  "executeAddKey env i token privateKey =
     (let publicKey = keyString (PublicKey (reScalarMult env) privateKey);
          ((addKey, failure), evs) =
            constrainedAddKeyRequest (rePki env) (reAddKeyNet env)
              (cpRegistrationCandidate (riPlan i)) token publicKey (riRegional i) (riControl i)
      in
      (if failure \<noteq> None then Inl failure
       else if validateConstrainedAddKey (riPlan i) addKey publicKey \<noteq> None
         then Inl (validateConstrainedAddKey (riPlan i) addKey publicKey)
       else if endpointReused (riPlan i) addKey then Inl (constrainedFailureFor ClassEndpointReused)
       else Inr (keyString privateKey, addKey),
       map EvNet evs))"

definition executeNetwork ::
  "run_env \<Rightarrow> run_inputs
     \<Rightarrow> (failureReason option + bytes \<times> addKeyResult) \<times> run_event list" where
  "executeNetwork env i =
     (if \<not> admit env 1 45 then (Inl (constrainedFailureFor (contextClass env 1)), [])
      else
        (let ((token, failure), evs) =
           constrainedTokenRequest (rePki env) (reTokenNet env) (cpTokenDestinationIPv4 (riPlan i))
             (riCreds i) (riPublic i) (riControl i)
         in
         if failure \<noteq> None then (Inl failure, map EvNet evs)
         else if \<not> admit env 2 30
           then (Inl (constrainedFailureFor (contextClass env 2)), map EvNet evs)
         else
           (case GeneratePrivateKey (reRandom env) of
              Inl _ \<Rightarrow> (Inl (constrainedFailureFor ClassInternalFailure), map EvNet evs)
            | Inr privateKey \<Rightarrow>
                after (map EvNet evs) (executeAddKey env i token privateKey))))"

definition successOf :: "constrainedPlan \<Rightarrow> addKeyResult \<Rightarrow> constrainedSuccess" where
  "successOf plan r =
     \<lparr>csRegion = cpRegion plan, csPortForwardEnabled = cpPortForwarding plan,
      csSelectedRegistrationCN = rcTLSCommonName (cpRegistrationCandidate plan),
      csSelectedRegistrationIPv4 = rcIPv4 (cpRegistrationCandidate plan),
      csWireguardEndpointIPv4 = akServerIP r, csWireguardEndpointUDPPort = akServerPort r,
      csPortForwardGatewayIPv4 = (if cpPortForwarding plan then akServerVIP r else [])\<rparr>"

definition successLine :: "constrainedPlan \<Rightarrow> addKeyResult \<Rightarrow> bytes" where
  \<comment> \<open>\<open>append(result, '\n')\<close>\<close>
  "successLine plan r = marshalSuccess (successOf plan r) @ [LF]"

definition executeResult ::
  "run_env \<Rightarrow> constrainedFiles \<Rightarrow> constrainedPlan \<Rightarrow> addKeyResult
     \<Rightarrow> failureReason option \<times> run_event list" where
  "executeResult env files plan r =
     (if \<not> admit env 4 10 then (constrainedFailureFor (contextClass env 4), [])
      else
        (if maxConstrainedResultSize < length (marshalSuccess (successOf plan r))
         then (constrainedFailureFor ClassInternalFailure, [])
         else
           (case writeFD (cfResultWriter files) (successLine plan r) maxConstrainedResultSize of
              (Some _, out) \<Rightarrow> (constrainedFailureFor ClassResultWriteFailed, [EvResult out])
            | (None, out) \<Rightarrow> (None, [EvResult out]))))"

definition executeOutput ::
  "run_env \<Rightarrow> constrainedFiles \<Rightarrow> constrainedPlan \<Rightarrow> bytes \<Rightarrow> addKeyResult
     \<Rightarrow> failureReason option \<times> run_event list" where
  "executeOutput env files plan privateKey r =
     (if \<not> admit env 3 15 then (constrainedFailureFor (contextClass env 3), [])
      else
        (let config = renderConstrainedConfig privateKey r in
         if maxConstrainedConfigSize < length config
         then (constrainedFailureFor ClassInternalFailure, [])
         else
           (case writeFD (cfConfigWriter files) config maxConstrainedConfigSize of
              (Some _, out) \<Rightarrow> (constrainedFailureFor ClassConfigWriteFailed, [EvConfig out])
            | (None, out) \<Rightarrow> after [EvConfig out] (executeResult env files plan r))))"

definition execute ::
  "run_env \<Rightarrow> constrainedFiles \<Rightarrow> cliContext \<Rightarrow> failureReason option \<times> run_event list" where
  "execute env files c =
     (let (r1, evs1) = executeInputs env files c in
      case r1 of
        Inl failure \<Rightarrow> (failure, evs1)
      | Inr i \<Rightarrow>
          (let (r2, evs2) = executeNetwork env i in
           case r2 of
             Inl failure \<Rightarrow> (failure, evs1 @ evs2)
           | Inr (privateKey, r) \<Rightarrow>
               after (evs1 @ evs2) (executeOutput env files (riPlan i) privateKey r)))"

section \<open>The actions\<close>

definition writeFailure ::
  "constrainedFiles \<Rightarrow> failureReason \<Rightarrow> constrainedClass \<times> run_event list" where
  "writeFailure files failure =
     (case cfResultWriter files of
        None \<Rightarrow> (frClass failure, [])
      | Some f \<Rightarrow>
          (case writeLimitedFile (fiFile f) (marshalFailure (frClass failure) (frDetail failure) @ [LF])
                  maxConstrainedResultSize of
             (Some _, out) \<Rightarrow> (ClassResultWriteFailed, [EvResult out])
           | (None, out) \<Rightarrow> (frClass failure, [EvResult out])))"

definition afterClose :: "fd_table \<Rightarrow> int list \<Rightarrow> fd_table" where
  \<comment> \<open>a closed descriptor can be wrapped in a file again, but it has no status\<close>
  "afterClose tbl closed fd =
     (if fd \<in> set closed then map_option (\<lambda>f. f\<lparr>fiStatOk := False\<rparr>) (tbl fd) else tbl fd)"

definition reportInvalid :: "bool \<Rightarrow> fd_table \<Rightarrow> int \<Rightarrow> constrainedClass option \<times> run_event list" where
  "reportInvalid linux tbl fd =
     (let (cls, out) = writeInvalidInvocationFailureFD linux tbl fd
      in (Some cls, if out = [] then [] else [EvResult out]))"

definition constrainedAction ::
  "bool \<Rightarrow> fd_table \<Rightarrow> run_env \<Rightarrow> cliContext \<Rightarrow> constrainedClass option \<times> run_event list" where
  \<comment> \<open>the class of the exit error (status 1), \<open>None\<close> for success, and the trace\<close>
  "constrainedAction linux tbl env c =
     (case openConstrainedFiles linux tbl c of
        (Inl _, closed) \<Rightarrow> reportInvalid linux (afterClose tbl closed) (intFlag c ''result-fd'')
      | (Inr files, _) \<Rightarrow>
          (let (failure, evs) = execute env files c in
           case failure of
             None \<Rightarrow> (None, evs)
           | Some f \<Rightarrow> (let (cls, more) = writeFailure files f in (Some cls, evs @ more))))"

definition constrainedActionFromRawArgs ::
  "bool \<Rightarrow> fd_table \<Rightarrow> run_env \<Rightarrow> bytes list \<Rightarrow> constrainedClass option \<times> run_event list" where
  "constrainedActionFromRawArgs linux tbl env args =
     (let (err, ints, strs) = parseRawConstrainedArgs args in
      if err \<noteq> None then
        reportInvalid linux tbl (case ints ''result-fd'' of None \<Rightarrow> 0 | Some fd \<Rightarrow> fd)
      else constrainedAction linux tbl env (constrainedContextFromValues ints strs))"

section \<open>Reading a trace\<close>

fun netOf :: "run_event \<Rightarrow> net_event option" where
  "netOf (EvNet e) = Some e"
| "netOf _ = None"

fun configOf :: "run_event \<Rightarrow> bytes option" where
  "configOf (EvConfig w) = Some w"
| "configOf _ = None"

fun resultOf :: "run_event \<Rightarrow> bytes option" where
  "resultOf (EvResult w) = Some w"
| "resultOf _ = None"

definition netEvents :: "run_event list \<Rightarrow> net_event list" where
  "netEvents evs = List.map_filter netOf evs"

definition configWrites :: "run_event list \<Rightarrow> bytes list" where
  "configWrites evs = List.map_filter configOf evs"

definition resultWrites :: "run_event list \<Rightarrow> bytes list" where
  "resultWrites evs = List.map_filter resultOf evs"

lemma map_filter_append: "List.map_filter f (xs @ ys) = List.map_filter f xs @ List.map_filter f ys"
  by (simp add: map_filter_def)

lemma run_trace_simps [simp]:
  "netEvents [] = []" "configWrites [] = []" "resultWrites [] = []"
  "netEvents (e # evs) = (case netOf e of None \<Rightarrow> netEvents evs | Some a \<Rightarrow> a # netEvents evs)"
  "configWrites (e # evs) = (case configOf e of None \<Rightarrow> configWrites evs | Some a \<Rightarrow> a # configWrites evs)"
  "resultWrites (e # evs) = (case resultOf e of None \<Rightarrow> resultWrites evs | Some a \<Rightarrow> a # resultWrites evs)"
  "netEvents (evs @ evs') = netEvents evs @ netEvents evs'"
  "configWrites (evs @ evs') = configWrites evs @ configWrites evs'"
  "resultWrites (evs @ evs') = resultWrites evs @ resultWrites evs'"
  "netEvents (map EvNet ns) = ns" "configWrites (map EvNet ns) = []" "resultWrites (map EvNet ns) = []"
  by (auto simp: netEvents_def configWrites_def resultWrites_def map_filter_simps map_filter_append
      split: option.split) (induction ns; simp add: map_filter_simps)+

lemma after_eq [simp]: "after evs (r, evs') = (r, evs @ evs')"
  by (simp add: after_def)

lemma fst_after [simp]: "fst (after evs x) = fst x" "snd (after evs x) = evs @ snd x"
  by (simp_all add: after_def)

section \<open>Phase by phase\<close>

definition inputs_valid ::
  "run_env \<Rightarrow> constrainedFiles \<Rightarrow> cliContext \<Rightarrow> run_inputs \<Rightarrow> bool" where
  \<comment> \<open>what has been established when the network is first used\<close>
  "inputs_valid env files c i \<longleftrightarrow>
     validateConstrainedInvocation c (reOsArgs env) = None \<and>
     constrainedSocketControl (reSupported env) (reSetsockopt env) c = (riControl i, None) \<and>
     (\<exists>raw. readFD (cfPlan files) maxConstrainedPlanSize = Inr raw
        \<and> parseConstrainedPlan raw = Inr (riPlan i)) \<and>
     (\<exists>raw. readFD (cfCredentials files) maxConstrainedCredentialSize = Inr raw
        \<and> parseConstrainedCredentials raw = Some (riCreds i)) \<and>
     validConstrainedCredential (username (riCreds i)) \<and>
     validConstrainedCredential (password (riCreds i)) \<and>
     (\<exists>raw. readFD (cfPublicCA files) maxConstrainedCABundleSize = Inr raw
        \<and> parseConstrainedCABundle (rePki env) raw = Inr (riPublic i)) \<and>
     (\<exists>raw. readFD (cfRegionalCA files) maxConstrainedCABundleSize = Inr raw
        \<and> parseConstrainedCABundle (rePki env) raw = Inr (riRegional i))"

definition only_reads :: "run_event list \<Rightarrow> bool" where
  "only_reads evs \<longleftrightarrow> netEvents evs = [] \<and> configWrites evs = [] \<and> resultWrites evs = []"

lemma executeTrust_ok:
  assumes "executeTrust env files plan creds control = (r, evs)"
  shows "only_reads evs \<and> (\<forall>i. r = Inr i \<longrightarrow> riPlan i = plan \<and> riCreds i = creds \<and> riControl i = control
     \<and> (\<exists>raw. readFD (cfPublicCA files) maxConstrainedCABundleSize = Inr raw
          \<and> parseConstrainedCABundle (rePki env) raw = Inr (riPublic i))
     \<and> (\<exists>raw. readFD (cfRegionalCA files) maxConstrainedCABundleSize = Inr raw
          \<and> parseConstrainedCABundle (rePki env) raw = Inr (riRegional i)))"
  using assms
  by (auto simp: executeTrust_def only_reads_def split: option.splits sum.splits bind_splits)

lemma executeCredentials_ok:
  assumes "executeCredentials env files plan control = (r, evs)"
  shows "only_reads evs \<and> (\<forall>i. r = Inr i \<longrightarrow> riPlan i = plan \<and> riControl i = control
     \<and> (\<exists>raw. readFD (cfCredentials files) maxConstrainedCredentialSize = Inr raw
          \<and> parseConstrainedCredentials raw = Some (riCreds i))
     \<and> validConstrainedCredential (username (riCreds i))
     \<and> validConstrainedCredential (password (riCreds i))
     \<and> (\<exists>raw. readFD (cfPublicCA files) maxConstrainedCABundleSize = Inr raw
          \<and> parseConstrainedCABundle (rePki env) raw = Inr (riPublic i))
     \<and> (\<exists>raw. readFD (cfRegionalCA files) maxConstrainedCABundleSize = Inr raw
          \<and> parseConstrainedCABundle (rePki env) raw = Inr (riRegional i)))"
proof -
  have stop: "only_reads [EvRead CredentialsInput]" by (simp add: only_reads_def)
  show ?thesis
  proof (cases "\<exists>raw creds. readFD (cfCredentials files) maxConstrainedCredentialSize = Inr raw
      \<and> parseConstrainedCredentials raw = Some creds \<and> validConstrainedCredential (username creds)
      \<and> validConstrainedCredential (password creds)")
    case False
    then show ?thesis
      using assms stop by (auto simp: executeCredentials_def split: sum.splits option.splits if_splits)
  next
    case True
    then obtain raw creds where c: "readFD (cfCredentials files) maxConstrainedCredentialSize = Inr raw"
      "parseConstrainedCredentials raw = Some creds" "validConstrainedCredential (username creds)"
      "validConstrainedCredential (password creds)" by blast
    obtain r' evs' where t: "executeTrust env files plan creds control = (r', evs')" by fastforce
    have "r = r'" "evs = EvRead CredentialsInput # evs'"
      using assms c t by (auto simp: executeCredentials_def)
    then show ?thesis using executeTrust_ok [OF t] c by (auto simp: only_reads_def)
  qed
qed

lemma executeInputs_ok:
  assumes "executeInputs env files c = (r, evs)"
  shows "only_reads evs \<and> (\<forall>i. r = Inr i \<longrightarrow> inputs_valid env files c i)"
proof (cases "\<exists>control raw plan. validateConstrainedInvocation c (reOsArgs env) = None
    \<and> constrainedSocketControl (reSupported env) (reSetsockopt env) c = (control, None)
    \<and> admit env 0 45 \<and> readFD (cfPlan files) maxConstrainedPlanSize = Inr raw
    \<and> parseConstrainedPlan raw = Inr plan")
  case False
  then show ?thesis
    using assms
    by (auto simp: executeInputs_def only_reads_def
        split: option.splits prod.splits if_splits sum.splits)
next
  case True
  then obtain control raw plan where c: "validateConstrainedInvocation c (reOsArgs env) = None"
      "constrainedSocketControl (reSupported env) (reSetsockopt env) c = (control, None)"
      "admit env 0 45" "readFD (cfPlan files) maxConstrainedPlanSize = Inr raw"
      "parseConstrainedPlan raw = Inr plan" by blast
  obtain r' evs' where t: "executeCredentials env files plan control = (r', evs')" by fastforce
  have "r = r'" "evs = EvRead PlanInput # evs'"
    using assms c t by (auto simp: executeInputs_def)
  then show ?thesis
    using executeCredentials_ok [OF t] c by (auto simp: only_reads_def inputs_valid_def)
qed

definition tokenAddress :: "constrainedPlan \<Rightarrow> bytes" where
  "tokenAddress plan = joinHostPort (cpTokenDestinationIPv4 plan) ''443''"

definition registrationAddress :: "constrainedPlan \<Rightarrow> bytes" where
  "registrationAddress plan = joinHostPort (rcIPv4 (cpRegistrationCandidate plan)) ''1337''"

lemma addKeyRequest_trace:
  assumes "constrainedAddKeyRequest x env cand token pk roots control = ((r, failure), evs)"
  shows "connects evs \<in> {[], [joinHostPort (rcIPv4 cand) ''1337'']}
    \<and> sends evs \<in> {[], [addKeyRequest cand token pk]}
    \<and> (sends evs \<noteq> [] \<longrightarrow> connects evs \<noteq> [])
    \<and> (failure = None \<longrightarrow> sends evs = [addKeyRequest cand token pk])"
proof -
  have p: "itoa 1337 = ''1337''" by code_simp
  show ?thesis
    using addKeyRequest_cases [OF assms] p
      clientDo_shape [of x "addKeyClient cand roots control" "addKeyRequest cand token pk" 0
        "neRounds env" _ evs]
      dial_shape_trace [of "addKeyClient cand roots control" "addKeyRequest cand token pk" evs]
    by (auto simp: addKeyClient_def constrainedHTTPClient_def dialAddress_def sends_mem)
qed

lemma tokenRequest_connected:
  assumes "constrainedTokenRequest x env ip creds roots control = ((token, failure), evs)"
  shows "sends evs \<noteq> [] \<longrightarrow> connects evs \<noteq> []"
  using tokenRequest_cases [OF assms]
    clientDo_shape [of x "tokenClient ip roots control" "tokenRequest creds" 0 "neRounds env" _ evs]
    dial_shape_trace(3) [of "tokenClient ip roots control" "tokenRequest creds" evs]
  by auto

lemma executeAddKey_ok:
  assumes "executeAddKey env i token k = (r, evs)"
  defines "pk \<equiv> keyString (PublicKey (reScalarMult env) k)"
  shows "configWrites evs = [] \<and> resultWrites evs = []
    \<and> connects (netEvents evs) \<in> {[], [registrationAddress (riPlan i)]}
    \<and> sends (netEvents evs) \<in> {[], [addKeyRequest (cpRegistrationCandidate (riPlan i)) token pk]}
    \<and> (sends (netEvents evs) \<noteq> [] \<longrightarrow> connects (netEvents evs) \<noteq> [])
    \<and> (\<forall>priv res. r = Inr (priv, res) \<longrightarrow>
         sends (netEvents evs) \<noteq> [] \<and> priv = keyString k
         \<and> validateConstrainedAddKey (riPlan i) res pk = None \<and> \<not> endpointReused (riPlan i) res)"
proof -
  obtain res failure net where q: "constrainedAddKeyRequest (rePki env) (reAddKeyNet env)
      (cpRegistrationCandidate (riPlan i)) token pk (riRegional i) (riControl i) = ((res, failure), net)"
    by (metis surj_pair)
  then have "evs = map EvNet net"
    and "\<And>priv res'. r = Inr (priv, res') \<Longrightarrow> failure = None \<and> priv = keyString k \<and> res' = res
         \<and> validateConstrainedAddKey (riPlan i) res pk = None \<and> \<not> endpointReused (riPlan i) res"
    using assms by (auto simp: executeAddKey_def Let_def pk_def split: if_splits)
  then show ?thesis
    using addKeyRequest_trace [OF q] by (auto simp: registrationAddress_def)
qed

lemma executeNetwork_ok:
  assumes "executeNetwork env i = (r, evs)"
  shows "configWrites evs = [] \<and> resultWrites evs = []
    \<and> (\<exists>n m token pk. n \<le> 2 \<and> m \<le> n
         \<and> connects (netEvents evs) = take n [tokenAddress (riPlan i), registrationAddress (riPlan i)]
         \<and> sends (netEvents evs) = take m [tokenRequest (riCreds i),
              addKeyRequest (cpRegistrationCandidate (riPlan i)) token pk]
         \<and> (\<forall>priv res. r = Inr (priv, res) \<longrightarrow> m = 2 \<and> (\<exists>k. GeneratePrivateKey (reRandom env) = Inr k
              \<and> priv = keyString k \<and> pk = keyString (PublicKey (reScalarMult env) k)
              \<and> validateConstrainedAddKey (riPlan i) res pk = None
              \<and> \<not> endpointReused (riPlan i) res)))"
  (is "_ \<and> _ \<and> (\<exists>n m token pk. ?P n m token pk)")
proof (cases "admit env 1 45")
  case False
  then have "?P 0 0 [] []" "evs = []" using assms by (auto simp: executeNetwork_def)
  then show ?thesis by (metis run_trace_simps(2,3))
next
  case True
  obtain token failure net where q: "constrainedTokenRequest (rePki env) (reTokenNet env)
      (cpTokenDestinationIPv4 (riPlan i)) (riCreds i) (riPublic i) (riControl i) = ((token, failure), net)"
    by (metis surj_pair)
  note tr = tokenRequest_trace [OF q] tokenRequest_connected [OF q]
  show ?thesis
  proof (cases "failure = None \<and> admit env 2 30 \<and> (\<exists>k. GeneratePrivateKey (reRandom env) = Inr k)")
    case False
    then have e: "evs = map EvNet net" "\<And>x. r \<noteq> Inr x"
      using assms True q by (auto simp: executeNetwork_def split: if_splits sum.splits)
    have "?P (length (connects net)) (length (sends net)) [] []"
      using tr e by (auto simp: tokenAddress_def)
    then show ?thesis using e(1) by (metis run_trace_simps(11,12))
  next
    case ok: True
    then obtain k where k: "GeneratePrivateKey (reRandom env) = Inr k" by blast
    obtain r' evs' where a: "executeAddKey env i token k = (r', evs')" by fastforce
    have e: "r = r'" "evs = map EvNet net @ evs'"
      using assms True q ok k a by (auto simp: executeNetwork_def)
    note ak = executeAddKey_ok [OF a]
    define pk where "pk = keyString (PublicKey (reScalarMult env) k)"
    have first: "connects (netEvents evs) = tokenAddress (riPlan i) # connects (netEvents evs')"
      "sends (netEvents evs) = tokenRequest (riCreds i) # sends (netEvents evs')"
      using tr ok unfolding e(2) by (auto simp: tokenAddress_def)
    have final: "r = Inr (priv, res) \<Longrightarrow> sends (netEvents evs') \<noteq> []
        \<and> (\<exists>k. GeneratePrivateKey (reRandom env) = Inr k \<and> priv = keyString k
          \<and> pk = keyString (PublicKey (reScalarMult env) k)
          \<and> validateConstrainedAddKey (riPlan i) res pk = None
          \<and> \<not> endpointReused (riPlan i) res)" for priv res
      using ak k e(1) pk_def by blast
    consider "connects (netEvents evs') = []" "sends (netEvents evs') = []"
      | "connects (netEvents evs') = [registrationAddress (riPlan i)]" "sends (netEvents evs') = []"
      | "connects (netEvents evs') = [registrationAddress (riPlan i)]"
        "sends (netEvents evs') = [addKeyRequest (cpRegistrationCandidate (riPlan i)) token pk]"
      using ak unfolding pk_def by blast
    then have "\<exists>n m. ?P n m token pk"
    proof cases
      case 1
      then have "?P 1 1 token pk" using first final by auto
      then show ?thesis by blast
    next
      case 2
      then have "?P 2 1 token pk" using first final by auto
      then show ?thesis by blast
    next
      case 3
      then have "?P 2 2 token pk" using first final by simp
      then show ?thesis by blast
    qed
    moreover have "configWrites evs = []" "resultWrites evs = []"
      using ak by (simp_all add: e(2))
    ultimately show ?thesis by blast
  qed
qed

lemma executeNetwork_done:
  assumes "executeNetwork env i = (Inr (priv, res), evs)"
  obtains token k where
    "sends (netEvents evs) = [tokenRequest (riCreds i), addKeyRequest (cpRegistrationCandidate (riPlan i))
        token (keyString (PublicKey (reScalarMult env) k))]"
    "GeneratePrivateKey (reRandom env) = Inr k" "priv = keyString k"
    "validateConstrainedAddKey (riPlan i) res (keyString (PublicKey (reScalarMult env) k)) = None"
    "\<not> endpointReused (riPlan i) res"
    "configWrites evs = []" "resultWrites evs = []"
proof -
  obtain m token pk k where m: "m = 2"
    and s: "sends (netEvents evs) = take m [tokenRequest (riCreds i),
        addKeyRequest (cpRegistrationCandidate (riPlan i)) token pk]"
    and k: "GeneratePrivateKey (reRandom env) = Inr k" "priv = keyString k"
      "pk = keyString (PublicKey (reScalarMult env) k)"
      "validateConstrainedAddKey (riPlan i) res pk = None" "\<not> endpointReused (riPlan i) res"
    using executeNetwork_ok [OF assms] by auto
  have "configWrites evs = []" "resultWrites evs = []" using executeNetwork_ok [OF assms] by simp_all
  then show ?thesis using that [of token k] s k unfolding m by (simp add: numeral_2_eq_2)
qed

section \<open>Failures carry a class and a clean detail\<close>

definition good_failure :: "failureReason option \<Rightarrow> bool" where
  "good_failure f \<longleftrightarrow>
     (case f of
        None \<Rightarrow> False
      | Some x \<Rightarrow> validConstrainedFailureDetail (frDetail x) = frDetail x)"

lemma detail_idem [simp]:
  "validConstrainedFailureDetail (validConstrainedFailureDetail d) = validConstrainedFailureDetail d"
  "validConstrainedFailureDetail [] = []"
  by (simp_all add: validConstrainedFailureDetail_def)

text \<open>The two constructors, unfolded, are enough for every early return.\<close>

lemmas good_defs = good_failure_def constrainedFailureFor_def constrainedFailureWithDetail_def

lemma good_not_None: "good_failure f \<Longrightarrow> f \<noteq> None"
  by (cases f) (simp_all add: good_failure_def)

lemma good_control:
  "constrainedSocketControl supported setopt c = (control, Some f) \<Longrightarrow> good_failure (Some f)"
  by (auto simp: constrainedSocketControl_def good_defs split: if_splits sum.splits)

lemma good_validate: "validateConstrainedAddKey plan r pk = Some f \<Longrightarrow> good_failure (Some f)"
  by (simp add: validateConstrainedAddKey_def constrainedFailureWithDetail_def split: if_split_asm)
    (auto simp: good_failure_def)

lemma good_tokenResponse: "tokenResponse status body = (t, Some f) \<Longrightarrow> good_failure (Some f)"
  by (auto simp: tokenResponse_def good_defs split: if_splits option.splits sum.splits)

lemma good_addKeyResponse: "addKeyResponse status body = (r, Some f) \<Longrightarrow> good_failure (Some f)"
  by (auto simp: addKeyResponse_def good_defs split: if_splits option.splits sum.splits)

lemma good_tokenFailure: "good_failure (tokenFailure env e)"
  by (simp add: tokenFailure_def good_defs)

lemma good_addKeyFailure: "good_failure (addKeyFailure env e)"
  by (simp add: addKeyFailure_def good_defs)

lemma good_built:
  "good_failure (constrainedFailureFor c)" "good_failure (constrainedFailureWithDetail c d)"
  by (simp_all add: good_defs)

lemma good_eq:
  "constrainedFailureFor c = Some f \<Longrightarrow> good_failure (Some f)"
  "tokenFailure env e = Some f \<Longrightarrow> good_failure (Some f)"
  "addKeyFailure env e = Some f \<Longrightarrow> good_failure (Some f)"
  using good_built(1) good_tokenFailure good_addKeyFailure by metis+

lemma good_token:
  assumes "constrainedTokenRequest x env ip creds roots control = ((t, Some f), evs)"
  shows "good_failure (Some f)"
  using assms
  by (auto simp: constrainedTokenRequest_def dest: good_eq good_tokenResponse
      split: if_splits prod.splits sum.splits)

lemma good_addKey:
  assumes "constrainedAddKeyRequest x env cand t pk roots control = ((r, Some f), evs)"
  shows "good_failure (Some f)"
  using assms
  by (auto simp: constrainedAddKeyRequest_def Let_def dest: good_eq good_addKeyResponse
      split: if_splits prod.splits sum.splits)

lemma good_trust: "executeTrust env files plan creds control = (Inl f, evs) \<Longrightarrow> good_failure f"
  by (auto simp: executeTrust_def trustFailure_def good_built split: option.splits)

lemma after_eq_iff: "after evs x = (r, evs') \<longleftrightarrow> fst x = r \<and> evs' = evs @ snd x"
  by (auto simp: after_def)

lemma good_credentials:
  assumes "executeCredentials env files plan control = (Inl f, evs)"
  shows "good_failure f"
proof -
  have "good_failure f" if "fst (executeTrust env files plan creds control) = Inl f" for creds
    using that good_trust by (metis prod.collapse)
  then show ?thesis
    using assms
    by (auto simp: executeCredentials_def good_built after_eq_iff split: sum.splits option.splits if_splits)
qed

lemma good_inputs:
  assumes "executeInputs env files c = (Inl f, evs)"
  shows "good_failure f"
proof -
  have "good_failure f" if "fst (executeCredentials env files plan control) = Inl f" for plan control
    using that good_credentials by (metis prod.collapse)
  then show ?thesis
    using assms
    by (auto simp: executeInputs_def good_built after_eq_iff dest: good_control
        split: sum.splits option.splits if_splits prod.splits)
qed

lemma good_validate_sym:
  "Some f = validateConstrainedAddKey plan r pk \<Longrightarrow> good_failure (validateConstrainedAddKey plan r pk)"
  using good_validate [of plan r pk f] by simp

lemma good_executeAddKey: "executeAddKey env i t k = (Inl f, evs) \<Longrightarrow> good_failure f"
  by (auto simp: executeAddKey_def Let_def good_built dest: good_addKey intro: good_validate_sym
      split: if_splits prod.splits)

lemma good_network:
  assumes "executeNetwork env i = (Inl f, evs)"
  shows "good_failure f"
proof -
  have "good_failure f" if "fst (executeAddKey env i t k) = Inl f" for t k
    using that good_executeAddKey by (metis prod.collapse)
  then show ?thesis
    using assms
    by (auto simp: executeNetwork_def Let_def good_built after_eq_iff dest: good_token
        split: if_splits prod.splits sum.splits)
qed

end
