(* ===== verification/Constrained_Output.thy ===== *)
theory Constrained_Output
  imports Constrained_Runner
begin

text \<open>
  The last phase of a constrained run: the success document, which always fits its limit and is
  read back, what \<open>executeOutput\<close> can have written, and the division of a run into its phases.
\<close>

section \<open>The documents fit\<close>

lemma wf_plan_of_inputs: "inputs_valid env files c i \<Longrightarrow> wf_plan (riPlan i)"
  using parseConstrainedPlan_wf by (auto simp: inputs_valid_def)

lemma length_utoa_port: "n < 100000 \<Longrightarrow> length (utoa n) \<le> 5"
proof -
  have step: "length (utoa n) \<le> (if n < 10 then 1 else Suc (length (utoa (n div 10))))" for n
    by (subst utoa.simps) simp
  have d: "n < 10 * m \<Longrightarrow> n div 10 < m" for n m :: nat by (simp add: less_mult_imp_div_less mult.commute)
  have "n < 10 \<Longrightarrow> length (utoa n) \<le> 1" for n using step [of n] by simp
  then have "n < 100 \<Longrightarrow> length (utoa n) \<le> 2" for n
    using step [of n] d [of n 10] by (fastforce split: if_splits)
  then have "n < 1000 \<Longrightarrow> length (utoa n) \<le> 3" for n
    using step [of n] d [of n 100] by (fastforce split: if_splits)
  then have "n < 10000 \<Longrightarrow> length (utoa n) \<le> 4" for n
    using step [of n] d [of n 1000] by (fastforce split: if_splits)
  then show "n < 100000 \<Longrightarrow> length (utoa n) \<le> 5"
    using step [of n] d [of n 10000] by (fastforce split: if_splits)
qed

definition wf_success :: "constrainedSuccess \<Rightarrow> bool" where
  "wf_success s \<longleftrightarrow>
     validConstrainedRegion (csRegion s) \<and> validTLSCommonName (csSelectedRegistrationCN s) \<and>
     validIPv4 (csSelectedRegistrationIPv4 s) \<and> validIPv4 (csWireguardEndpointIPv4 s) \<and>
     1 \<le> csWireguardEndpointUDPPort s \<and> csWireguardEndpointUDPPort s \<le> 65535 \<and>
     (csPortForwardGatewayIPv4 s = [] \<or> validIPv4 (csPortForwardGatewayIPv4 s))"

lemma successOf_wf:
  "wf_plan plan \<Longrightarrow> validateConstrainedAddKey plan r pk = None \<Longrightarrow> wf_success (successOf plan r)"
  by (auto simp: validateConstrainedAddKey_None wf_addKey_def wf_plan_def wf_candidate_def wf_success_def
      successOf_def)

lemma success_fits:
  assumes "wf_success s"
  shows "length (marshalSuccess s) + 1 \<le> maxConstrainedResultSize"
proof -
  have lits: "length (marshalString constrainedSchema) = 35" "length (marshalString ''success'') = 9"
      "length (marshalString ''schema'') = 8" "length (marshalString ''status'') = 8"
      "length (marshalString ''region'') = 8" "length (marshalString ''port_forward_enabled'') = 22"
      "length (marshalString ''selected_registration_cn'') = 26"
      "length (marshalString ''selected_registration_ipv4'') = 28"
      "length (marshalString ''wireguard_endpoint_ipv4'') = 25"
      "length (marshalString ''wireguard_endpoint_udp_port'') = 29"
      "length (marshalString ''port_forward_gateway_ipv4'') = 27"
    by code_simp+
  have port: "length (marshalInt (csWireguardEndpointUDPPort s)) \<le> 5"
    using assms length_utoa_port [of "nat (csWireguardEndpointUDPPort s)"]
    by (auto simp: marshalInt_def itoa_def wf_success_def)
  have bool: "length (marshalBool b) \<le> 5" for b by (simp add: marshalBool_def)
  have ip: "validIPv4 a \<Longrightarrow> length (marshalString a) \<le> 92" for a
    using ipv4.escape_bound [of a] by simp
  have "length (marshalString (csRegion s)) \<le> 386" "length (marshalString (csSelectedRegistrationCN s)) \<le> 1520"
    using region.escape_bound [of "csRegion s"] cn.escape_bound [of "csSelectedRegistrationCN s"] assms
    by (simp_all add: wf_success_def)
  moreover have "length (marshalString (csSelectedRegistrationIPv4 s)) \<le> 92"
    "length (marshalString (csWireguardEndpointIPv4 s)) \<le> 92"
    "csPortForwardGatewayIPv4 s \<noteq> [] \<Longrightarrow> length (marshalString (csPortForwardGatewayIPv4 s)) \<le> 92"
    using ip assms by (auto simp: wf_success_def)
  ultimately show ?thesis
    using port bool [of "csPortForwardEnabled s"]
    by (auto simp: marshalSuccess_def objectText_def successFields_def lits maxConstrainedResultSize_def)
qed

text \<open>
  The success document of a run whose plan was parsed and whose registration was
  validated is a JSON object that the strict reader reads back to exactly the fields written,
  and with its newline it fits the result limit: the size check before the write and the
  limit of the write can never refuse it.
\<close>

theorem success_document_roundtrip:
  assumes "parseConstrainedPlan raw = Inr plan" and "validateConstrainedAddKey plan r pk = None"
  shows "strictJSONObject (marshalSuccess (successOf plan r)) (\<lambda>_. True)
      = Inr (successFields (successOf plan r))
    \<and> length (marshalSuccess (successOf plan r) @ [LF]) \<le> maxConstrainedResultSize"
proof -
  define s where "s = successOf plan r"
  have wf: "wf_success s"
    using successOf_wf parseConstrainedPlan_wf [OF assms(1)] assms(2) by (simp add: s_def)
  have ms: "members_ok 0 (successFields s)"
    using wf by (auto simp: members_ok_def successFields_def wf_success_def ascii_lit region.check_ascii
        cn.check_ascii ipv4.check_ascii json_text_marshalBool json_text_marshalInt)
  have asc: "ascii (marshalSuccess s)"
    unfolding marshalSuccess_def
    by (intro ascii_objectText)
      (use wf in \<open>auto simp: successFields_def wf_success_def ascii_lit region.json_ok cn.json_ok
        ipv4.json_ok bool.enc_ascii ascii_marshalString marshalInt_def ascii_itoa\<close>)
  have "distinct (map fst (successFields s))" by (auto simp: successFields_def)
  then have "accept_members (\<lambda>_. True) [] (successFields s) = Inr (successFields s)"
    using accept_members_ok [of "[]" "successFields s" "\<lambda>_. True"] by simp
  then have "strictJSONObject (marshalSuccess s) (\<lambda>_. True) = Inr (successFields s)"
    using strictJSONObject_objectText [OF ms] asc by (simp add: marshalSuccess_def maxNestingDepth_def)
  then show ?thesis using success_fits [OF wf] by (simp add: s_def)
qed

theorem success_document_roundtrip_witness:
  "strictJSONObject (marshalSuccess (successOf examplePlan exampleAddKey)) (\<lambda>_. True)
     = Inr (successFields (successOf examplePlan exampleAddKey))"
  using success_document_roundtrip [OF parse_examplePlan exampleAddKey_valid] by blast

section \<open>Whole runs\<close>

lemma writeFD_cases:
  assumes "writeFD f body limit = (err, out)"
  shows "(\<exists>n. out = take n body) \<and> (err = None \<longrightarrow> out = body \<and> length body \<le> limit)"
proof (cases f)
  case None
  moreover have "\<exists>n. [] = take n body" by (intro exI [of _ 0]) simp
  ultimately show ?thesis using assms by (auto simp: writeFD_def split: if_splits)
next
  case (Some i)
  then show ?thesis
    using assms writeLimitedFile_prefix [of "fiFile i" body limit]
      writeLimitedFile_ok [of "fiFile i" body limit out]
    by (auto simp: writeFD_def)
qed

lemma executeResult_cases:
  assumes "executeResult env files plan r = (failure, evs)"
  obtains (nothing) "netEvents evs = [] \<and> configWrites evs = [] \<and> resultWrites evs = []
      \<and> good_failure failure"
  | (wrote) m where "netEvents evs = []" "configWrites evs = []"
      "resultWrites evs = [take m (successLine plan r)]"
      "failure = None \<longrightarrow> take m (successLine plan r) = successLine plan r"
      "failure \<noteq> None \<longrightarrow> failure = constrainedFailureFor ClassResultWriteFailed"
proof (cases "admit env 4 10 \<and> \<not> maxConstrainedResultSize < length (marshalSuccess (successOf plan r))")
  case False
  then have "evs = []" "good_failure failure"
    using assms by (auto simp: executeResult_def good_built split: if_splits)
  then show ?thesis using that(1) by auto
next
  case True
  obtain err out where w: "writeFD (cfResultWriter files) (successLine plan r) maxConstrainedResultSize
      = (err, out)" by fastforce
  then have "evs = [EvResult out]"
      "failure = (if err = None then None else constrainedFailureFor ClassResultWriteFailed)"
    using assms True by (cases err; simp add: executeResult_def)+
  moreover obtain m where "out = take m (successLine plan r)" using writeFD_cases [OF w] by blast
  moreover have "err = None \<longrightarrow> out = successLine plan r" using writeFD_cases [OF w] by blast
  ultimately show ?thesis by (intro that(2) [of m]) auto
qed

lemma executeOutput_cases:
  assumes "executeOutput env files plan priv r = (failure, evs)"
  obtains (nothing) "netEvents evs = [] \<and> configWrites evs = [] \<and> resultWrites evs = []
      \<and> good_failure failure"
  | (config) n where "netEvents evs = []" "configWrites evs = [take n (renderConstrainedConfig priv r)]"
      "resultWrites evs = []" "good_failure failure"
  | (both) m where "netEvents evs = []" "configWrites evs = [renderConstrainedConfig priv r]"
      "length (renderConstrainedConfig priv r) \<le> maxConstrainedConfigSize"
      "resultWrites evs = [take m (successLine plan r)]"
      "failure = None \<longrightarrow> take m (successLine plan r) = successLine plan r"
      "failure \<noteq> None \<longrightarrow> failure = constrainedFailureFor ClassResultWriteFailed"
proof (cases "admit env 3 15 \<and> \<not> maxConstrainedConfigSize < length (renderConstrainedConfig priv r)")
  case False
  then have "evs = []" "good_failure failure"
    using assms by (auto simp: executeOutput_def Let_def good_built split: if_splits)
  then show ?thesis using that(1) by auto
next
  case True
  obtain err out where w: "writeFD (cfConfigWriter files) (renderConstrainedConfig priv r)
      maxConstrainedConfigSize = (err, out)" by fastforce
  obtain n where n: "out = take n (renderConstrainedConfig priv r)" using writeFD_cases [OF w] by blast
  show ?thesis
  proof (cases err)
    case (Some e)
    then have "evs = [EvConfig out]" "good_failure failure"
      using assms True w by (auto simp: executeOutput_def Let_def good_built)
    then show ?thesis using config [of n] n by simp
  next
    case None
    then have out: "out = renderConstrainedConfig priv r"
        "length (renderConstrainedConfig priv r) \<le> maxConstrainedConfigSize"
      using writeFD_cases [OF w] by simp_all
    obtain f' evs' where x: "executeResult env files plan r = (f', evs')" by fastforce
    have e: "evs = EvConfig out # evs'" "failure = f'"
      using assms True w None x by (auto simp: executeOutput_def Let_def)
    show ?thesis
      using x
    proof (cases rule: executeResult_cases)
      case nothing
      then show ?thesis using config [of n] e n by simp
    next
      case (wrote m)
      then show ?thesis using both [of m] e out by simp
    qed
  qed
qed

lemma executeOutput_net: "executeOutput env files plan priv r = (failure, evs) \<Longrightarrow> netEvents evs = []"
  by (erule executeOutput_cases) simp_all

lemma execute_cases:
  assumes "execute env files c = (failure, evs)"
  obtains (early) evs1 where "executeInputs env files c = (Inl failure, evs1)" "evs = evs1"
  | (network) i evs1 evs2 where "executeInputs env files c = (Inr i, evs1)"
      "executeNetwork env i = (Inl failure, evs2)" "evs = evs1 @ evs2"
  | (full) i evs1 evs2 priv r evs3 where "executeInputs env files c = (Inr i, evs1)"
      "executeNetwork env i = (Inr (priv, r), evs2)"
      "executeOutput env files (riPlan i) priv r = (failure, evs3)" "evs = evs1 @ evs2 @ evs3"
proof -
  obtain r1 evs1 where r1: "executeInputs env files c = (r1, evs1)" by fastforce
  show ?thesis
  proof (cases r1)
    case (Inl f)
    then show ?thesis using early r1 assms by (simp add: execute_def)
  next
    case (Inr i)
    obtain r2 evs2 where r2: "executeNetwork env i = (r2, evs2)" by fastforce
    show ?thesis
    proof (cases r2)
      case (Inl f)
      then show ?thesis using network [of i evs1 evs2] r1 r2 Inr assms by (simp add: execute_def)
    next
      case out: (Inr pr)
      obtain priv r where pr: "pr = (priv, r)" by (cases pr)
      obtain f evs3 where "executeOutput env files (riPlan i) priv r = (f, evs3)" by fastforce
      then show ?thesis
        using full [of i evs1 priv r evs2 evs3] r1 r2 Inr out pr assms by (simp add: execute_def)
    qed
  qed
qed

lemma execute_phases:
  assumes "execute env files c = (failure, evs)"
  shows "evs = [] \<or> netEvents evs = [] \<and> configWrites evs = [] \<and> resultWrites evs = []
    \<or> (\<exists>i. inputs_valid env files c i)"
  using assms
proof (cases rule: execute_cases)
  case (early evs1)
  then show ?thesis using executeInputs_ok [of env files c] by (auto simp: only_reads_def)
next
  case (network i evs1 evs2)
  then show ?thesis using executeInputs_ok [of env files c] by blast
next
  case (full i evs1 evs2 priv r evs3)
  then show ?thesis using executeInputs_ok [of env files c] by blast
qed

definition writerAccepts :: "os_file \<Rightarrow> bool" where
  \<comment> \<open>a pipe whose reader takes everything\<close>
  "writerAccepts f \<longleftrightarrow> flWriteDeadline f = None \<and> (\<forall>n. flWrite f n = (n, None))"

lemma writerAccepts_write:
  "writerAccepts f \<Longrightarrow> length body \<le> limit \<Longrightarrow> writeLimitedFile f body limit = (None, body)"
  by (simp add: writerAccepts_def writeLimitedFile_def writeLimitedFileBody_def)

end
