(* ===== verification/Constrained_Runs.thy ===== *)
theory Constrained_Runs
  imports Constrained_Output
begin

text \<open>
  What a run of \<open>execute\<close> shows to the outside: nothing before its inputs are valid, a bounded use
  of the network, and the outputs of a success; with a complete run as the witness.
\<close>

section \<open>The trace of a run\<close>

text \<open>
  C1: nothing reaches the network, the configuration or the result descriptor before every
  input has been accepted: whenever the trace of a run shows more than reads, the invocation
  was valid, the socket mark was valid and supported, and the plan, the credentials and both
  CA bundles were read completely within their limits, parsed and validated.
\<close>

theorem execute_validates_first:
  assumes "execute env files c = (failure, evs)"
    and "netEvents evs \<noteq> [] \<or> configWrites evs \<noteq> [] \<or> resultWrites evs \<noteq> []"
  shows "\<exists>(i :: run_inputs) planRaw credRaw publicRaw regionalRaw.
      validateConstrainedInvocation c (reOsArgs env) = None
    \<and> constrainedSocketControl (reSupported env) (reSetsockopt env) c = (riControl i, None)
    \<and> readFD (cfPlan files) maxConstrainedPlanSize = Inr planRaw
    \<and> parseConstrainedPlan planRaw = Inr (riPlan i) \<and> wf_plan (riPlan i)
    \<and> readFD (cfCredentials files) maxConstrainedCredentialSize = Inr credRaw
    \<and> parseConstrainedCredentials credRaw = Some (riCreds i)
    \<and> validConstrainedCredential (username (riCreds i)) \<and> validConstrainedCredential (password (riCreds i))
    \<and> readFD (cfPublicCA files) maxConstrainedCABundleSize = Inr publicRaw
    \<and> parseConstrainedCABundle (rePki env) publicRaw = Inr (riPublic i)
    \<and> readFD (cfRegionalCA files) maxConstrainedCABundleSize = Inr regionalRaw
    \<and> parseConstrainedCABundle (rePki env) regionalRaw = Inr (riRegional i)"
proof -
  obtain i where i: "inputs_valid env files c i"
    using execute_phases [OF assms(1)] assms(2) by auto
  moreover obtain planRaw credRaw publicRaw regionalRaw
    where "readFD (cfPlan files) maxConstrainedPlanSize = Inr planRaw"
      "parseConstrainedPlan planRaw = Inr (riPlan i)"
      "readFD (cfCredentials files) maxConstrainedCredentialSize = Inr credRaw"
      "parseConstrainedCredentials credRaw = Some (riCreds i)"
      "readFD (cfPublicCA files) maxConstrainedCABundleSize = Inr publicRaw"
      "parseConstrainedCABundle (rePki env) publicRaw = Inr (riPublic i)"
      "readFD (cfRegionalCA files) maxConstrainedCABundleSize = Inr regionalRaw"
      "parseConstrainedCABundle (rePki env) regionalRaw = Inr (riRegional i)"
    using i unfolding inputs_valid_def by blast
  ultimately show ?thesis
    using wf_plan_of_inputs [OF i] unfolding inputs_valid_def
    by (intro exI [of _ i] exI [of _ planRaw] exI [of _ credRaw] exI [of _ publicRaw]
        exI [of _ regionalRaw]) simp
qed

text \<open>
  C2: the network use of a run is bounded and goes only where the plan says: the connections
  attempted are a prefix of the two planned ones (token destination port 443, then the
  registration candidate port 1337), the requests sent are a prefix of the token request and
  the registration request, and never more requests than connections, whatever the network
  answers.
\<close>

theorem execute_network_bound:
  assumes "execute env files c = (failure, evs)"
  shows "netEvents evs = [] \<or>
    (\<exists>plan creds n m token pk. n \<le> 2 \<and> m \<le> n
       \<and> (\<exists>raw. readFD (cfPlan files) maxConstrainedPlanSize = Inr raw
            \<and> parseConstrainedPlan raw = Inr plan)
       \<and> connects (netEvents evs) = take n [tokenAddress plan, registrationAddress plan]
       \<and> sends (netEvents evs)
           = take m [tokenRequest creds, addKeyRequest (cpRegistrationCandidate plan) token pk])"
  (is "_ \<or> ?Q (netEvents evs)")
proof -
  have net: "?Q (netEvents evs2)"
    if "executeInputs env files c = (Inr i, evs1)" "executeNetwork env i = (r2, evs2)" for i evs1 r2 evs2
  proof -
    have "inputs_valid env files c i" using executeInputs_ok [OF that(1)] by blast
    then show ?thesis using executeNetwork_ok [OF that(2)] unfolding inputs_valid_def by meson
  qed
  show ?thesis
    using assms
  proof (cases rule: execute_cases)
    case (early evs1)
    then show ?thesis using executeInputs_ok [of env files c] by (auto simp: only_reads_def)
  next
    case (network i evs1 evs2)
    have "netEvents evs = netEvents evs2"
      using executeInputs_ok [OF network(1)] network(3) by (simp add: only_reads_def)
    then show ?thesis using net [OF network(1,2)] by simp
  next
    case (full i evs1 evs2 priv r evs3)
    have "netEvents evs = netEvents evs2"
      using executeInputs_ok [OF full(1)] full(4) executeOutput_net [OF full(3)]
      by (simp add: only_reads_def)
    then show ?thesis using net [OF full(1,2)] by simp
  qed
qed

lemma execute_ok:
  assumes "execute env files c = (None, evs)"
  shows "\<exists>plan creds k r token.
      (\<exists>raw. readFD (cfPlan files) maxConstrainedPlanSize = Inr raw \<and> parseConstrainedPlan raw = Inr plan)
    \<and> GeneratePrivateKey (reRandom env) = Inr k
    \<and> validateConstrainedAddKey plan r (keyString (PublicKey (reScalarMult env) k)) = None
    \<and> \<not> endpointReused plan r
    \<and> sends (netEvents evs) = [tokenRequest creds, addKeyRequest (cpRegistrationCandidate plan) token
         (keyString (PublicKey (reScalarMult env) k))]
    \<and> configWrites evs = [renderConstrainedConfig (keyString k) r]
    \<and> length (renderConstrainedConfig (keyString k) r) \<le> maxConstrainedConfigSize
    \<and> resultWrites evs = [successLine plan r]"
  using assms
proof (cases rule: execute_cases)
  case (early evs1)
  then show ?thesis using good_inputs good_not_None by blast
next
  case (network i evs1 evs2)
  then show ?thesis using good_network good_not_None by blast
next
  case (full i evs1 evs2 priv r evs3)
  have valid: "inputs_valid env files c i" using executeInputs_ok [OF full(1)] by blast
  have quiet: "only_reads evs1" using executeInputs_ok [OF full(1)] by blast
  obtain token k where net:
      "sends (netEvents evs2) = [tokenRequest (riCreds i),
         addKeyRequest (cpRegistrationCandidate (riPlan i)) token (keyString (PublicKey (reScalarMult env) k))]"
      "GeneratePrivateKey (reRandom env) = Inr k" "priv = keyString k"
      "validateConstrainedAddKey (riPlan i) r (keyString (PublicKey (reScalarMult env) k)) = None"
      "\<not> endpointReused (riPlan i) r" "configWrites evs2 = []" "resultWrites evs2 = []"
    using executeNetwork_done [OF full(2)] .
  have out: "netEvents evs3 = [] \<and> configWrites evs3 = [renderConstrainedConfig priv r]
      \<and> length (renderConstrainedConfig priv r) \<le> maxConstrainedConfigSize
      \<and> resultWrites evs3 = [successLine (riPlan i) r]"
    using full(3)
  proof (cases rule: executeOutput_cases)
    case nothing
    then show ?thesis using good_not_None by blast
  next
    case (config n)
    then show ?thesis using good_not_None by blast
  next
    case (both m)
    then show ?thesis by simp
  qed
  have "\<exists>raw. readFD (cfPlan files) maxConstrainedPlanSize = Inr raw
      \<and> parseConstrainedPlan raw = Inr (riPlan i)"
    using valid by (simp add: inputs_valid_def)
  then show ?thesis
    using net out quiet full(4)
    by (intro exI [of _ "riPlan i"] exI [of _ "riCreds i"] exI [of _ k] exI [of _ r] exI [of _ token])
      (simp add: only_reads_def)
qed

text \<open>
  C3: when a run reports success, the configuration descriptor received exactly one complete
  configuration, rendered from a registration result that passed every check and does not
  reuse the excluded endpoint, with the private key that was generated; the result descriptor
  received exactly one complete success document for the same plan and result; both requests
  were sent once.
\<close>

theorem execute_success:
  assumes "execute env files c = (None, evs)"
  shows "\<exists>plan creds k r token.
      (\<exists>raw. readFD (cfPlan files) maxConstrainedPlanSize = Inr raw \<and> parseConstrainedPlan raw = Inr plan)
    \<and> GeneratePrivateKey (reRandom env) = Inr k
    \<and> validateConstrainedAddKey plan r (keyString (PublicKey (reScalarMult env) k)) = None
    \<and> \<not> endpointReused plan r
    \<and> sends (netEvents evs) = [tokenRequest creds, addKeyRequest (cpRegistrationCandidate plan) token
         (keyString (PublicKey (reScalarMult env) k))]
    \<and> configWrites evs = [renderConstrainedConfig (keyString k) r]
    \<and> length (renderConstrainedConfig (keyString k) r) \<le> maxConstrainedConfigSize
    \<and> resultWrites evs = [successLine plan r]"
  using assms by (rule execute_ok)

text \<open>
  The configuration descriptor is written at most once in a run, with (a prefix of) a
  configuration rendered from a validated result, and the result descriptor is written by
  \<open>execute\<close> only after the whole configuration was written. So no consumer can see a success
  document without a complete configuration.
\<close>

theorem execute_config_before_result:
  assumes "execute env files c = (failure, evs)"
  shows "configWrites evs = [] \<and> resultWrites evs = [] \<and> failure \<noteq> None
    \<or> (\<exists>plan r pk priv n. validateConstrainedAddKey plan r pk = None \<and> \<not> endpointReused plan r
         \<and> configWrites evs = [take n (renderConstrainedConfig priv r)]
         \<and> (resultWrites evs = [] \<and> failure \<noteq> None
            \<or> configWrites evs = [renderConstrainedConfig priv r]
              \<and> (\<exists>m. resultWrites evs = [take m (successLine plan r)])))"
  using assms
proof (cases rule: execute_cases)
  case (early evs1)
  then have "configWrites evs = []" "resultWrites evs = []" "failure \<noteq> None"
    using executeInputs_ok [OF early(1)] good_inputs [OF early(1)] good_not_None
    by (simp_all add: only_reads_def)
  then show ?thesis by blast
next
  case (network i evs1 evs2)
  then have "configWrites evs = []" "resultWrites evs = []" "failure \<noteq> None"
    using executeInputs_ok [OF network(1)] executeNetwork_ok [OF network(2)] good_network [OF network(2)]
      good_not_None
    by (simp_all add: only_reads_def)
  then show ?thesis by blast
next
  case (full i evs1 evs2 priv r evs3)
  obtain k where v:
      "validateConstrainedAddKey (riPlan i) r (keyString (PublicKey (reScalarMult env) k)) = None"
      "\<not> endpointReused (riPlan i) r" "configWrites evs2 = []" "resultWrites evs2 = []"
    using executeNetwork_done [OF full(2)] .
  have same: "configWrites evs = configWrites evs3" "resultWrites evs = resultWrites evs3"
    using executeInputs_ok [OF full(1)] v full(4) by (simp_all add: only_reads_def)
  show ?thesis
    using full(3)
  proof (cases rule: executeOutput_cases)
    case nothing
    then show ?thesis unfolding same using good_not_None by blast
  next
    case (config n)
    then show ?thesis unfolding same using v(1,2) good_not_None by blast
  next
    case (both m)
    have "renderConstrainedConfig priv r
        = take (length (renderConstrainedConfig priv r)) (renderConstrainedConfig priv r)" by simp
    then show ?thesis unfolding same using both(2,4) v(1,2) by metis
  qed
qed

section \<open>A run\<close>

definition exampleInput :: "bytes \<Rightarrow> fd_info" where
  "exampleInput body =
     (examplePipe 0)\<lparr>fiFile := exampleFile\<lparr>flSource := \<lparr>srcBytes = body, srcFails = False\<rparr>\<rparr>\<rparr>"

definition exampleCredentials :: bytes where
  "exampleCredentials = objectText [(''username'', marshalString ''p1234567''), (''password'', marshalString ''a&b=c'')]"

definition runTable :: fd_table where
  "runTable fd =
     (if fd = 3 then Some (exampleInput (planText examplePlan))
      else if fd = 4 then Some (exampleInput exampleCredentials)
      else if fd = 5 \<or> fd = 6 then Some (exampleInput exampleBundle)
      else if fd = 7 \<or> fd = 8 then Some (examplePipe 1)
      else None)"

definition exampleResponse :: bytes where
  "exampleResponse = objectText
     [(''status'', marshalString ''OK''), (''server_key'', marshalString (keyString zeroKey)),
      (''server_port'', marshalInt 1337), (''server_ip'', marshalString ''203.0.113.10''),
      (''server_vip'', marshalString ''10.0.0.1''), (''peer_ip'', marshalString ''10.1.2.3''),
      (''peer_pubkey'', marshalString exampleKey),
      (''dns_servers'', ''['' @ marshalString ''10.0.0.242'' @ '']'')]"

definition exampleNet :: "bytes \<Rightarrow> bytes \<Rightarrow> net_env" where
  "exampleNet host body =
     \<lparr>neRounds =
        [\<lparr>rdNetwork = ''tcp'', rdConn = Inr 9, rdConnect = None,
          rdPeers = [\<lparr>certRaw = ''root'', certIsCA = True, certKeyUsage = 96,
                      certDNSNames = [], certIPAddresses = [], certCommonName = ''root''\<rparr>],
          rdExchange = ExchangeResponse 200 \<lparr>srcBytes = body, srcFails = False\<rparr>\<rparr>],
      neCtxErr = None, neUrlOk = (\<lambda>_. True)\<rparr>"

definition runPki :: pki where
  "runPki = examplePki\<lparr>verifyHostname := (\<lambda>_ _. True)\<rparr>"

definition exampleEnv :: run_env where
  "exampleEnv =
     \<lparr>reSupported = True, reSetsockopt = (\<lambda>_ _ _ _. None), reOsArgs = [], reTimeLeft = (\<lambda>_. 60),
      reCtxErr = (\<lambda>_. None), reCtxErrAfter = (\<lambda>_. None), rePki = runPki,
      reTokenNet = exampleNet tokenHost (objectText [(''token'', marshalString ''secret'')]),
      reAddKeyNet = exampleNet ''toronto<401>'' exampleResponse,
      reRandom = Some zeroKey, reScalarMult = (\<lambda>k. k)\<rparr>"

definition runFiles :: constrainedFiles where
  "runFiles = \<lparr>cfPlan = runTable 3, cfCredentials = runTable 4, cfPublicCA = runTable 5,
     cfRegionalCA = runTable 6, cfConfigWriter = runTable 7, cfResultWriter = runTable 8,
     cfCloseOnReturn = [3, 4, 5, 6, 7, 8]\<rparr>"

lemma example_phases:
  "case fst (executeInputs exampleEnv runFiles exampleContext) of
      Inl _ \<Rightarrow> False
    | Inr i \<Rightarrow>
        (case fst (executeNetwork exampleEnv i) of
           Inl _ \<Rightarrow> False
         | Inr (priv, r) \<Rightarrow>
             length (renderConstrainedConfig priv r) \<le> maxConstrainedConfigSize
             \<and> length (successLine (riPlan i) r) \<le> maxConstrainedResultSize)"
  by code_simp

lemma writerAccepts_example: "writerAccepts (fiFile (examplePipe n))"
  by (simp add: writerAccepts_def examplePipe_def exampleFile_def)

lemma example_writers:
  "cfConfigWriter runFiles = Some (examplePipe 1)" "cfResultWriter runFiles = Some (examplePipe 1)"
  by (simp_all add: runFiles_def runTable_def)

lemma example_output:
  assumes "length (renderConstrainedConfig priv r) \<le> maxConstrainedConfigSize"
    and "length (successLine plan r) \<le> maxConstrainedResultSize"
  shows "executeOutput exampleEnv runFiles plan priv r
    = (None, [EvConfig (renderConstrainedConfig priv r), EvResult (successLine plan r)])"
proof -
  have w: "writeFD (Some (examplePipe 1)) body limit = (None, body)" if "length body \<le> limit" for body limit
    using that writerAccepts_write [OF writerAccepts_example] by (simp add: writeFD_def)
  have a: "admit exampleEnv k n" if "n \<le> 60" for k n
    using that by (simp add: admit_def exampleEnv_def)
  have "length (marshalSuccess (successOf plan r)) \<le> maxConstrainedResultSize"
    using assms(2) by (simp add: successLine_def)
  then show ?thesis
    using assms by (simp add: executeOutput_def executeResult_def Let_def a w example_writers not_less)
qed

lemma example_run: "\<exists>evs. execute exampleEnv runFiles exampleContext = (None, evs)"
proof -
  obtain i evs1 where i: "executeInputs exampleEnv runFiles exampleContext = (Inr i, evs1)"
    using example_phases by (cases "executeInputs exampleEnv runFiles exampleContext") (auto split: sum.splits)
  obtain priv r evs2 where n: "executeNetwork exampleEnv i = (Inr (priv, r), evs2)"
    using example_phases i by (cases "executeNetwork exampleEnv i") (auto split: sum.splits)
  then have "executeOutput exampleEnv runFiles (riPlan i) priv r
    = (None, [EvConfig (renderConstrainedConfig priv r), EvResult (successLine (riPlan i) r)])"
    using example_phases i by (intro example_output) simp_all
  then show ?thesis using i n by (simp add: execute_def)
qed

theorem execute_success_witness:
  "\<exists>evs config. execute exampleEnv runFiles exampleContext = (None, evs) \<and> configWrites evs = [config]"
  using example_run execute_success by meson

theorem execute_network_bound_witness:
  "\<exists>evs. execute exampleEnv runFiles exampleContext = (None, evs)
     \<and> length (connects (netEvents evs)) = 2 \<and> length (sends (netEvents evs)) = 2"
proof -
  obtain evs where e: "execute exampleEnv runFiles exampleContext = (None, evs)" using example_run by blast
  have two: "length (sends (netEvents evs)) = 2" using execute_ok [OF e] by auto
  then have "netEvents evs \<noteq> []" by auto
  then obtain n m :: nat and xs :: "bytes list" and ys :: "request list"
    where "n \<le> 2" "m \<le> n" "length xs = 2" "connects (netEvents evs) = take n xs"
      "length ys = 2" "sends (netEvents evs) = take m ys"
    using execute_network_bound [OF e] by (metis One_nat_def Suc_1 length_Cons list.size(3))
  then show ?thesis using e two by auto
qed

theorem execute_config_before_result_witness:
  "\<exists>evs n priv r. execute exampleEnv runFiles exampleContext = (None, evs)
     \<and> configWrites evs = [take n (renderConstrainedConfig priv r)]"
  using example_run execute_config_before_result by (metis (no_types, lifting))

theorem execute_validates_first_witness:
  "\<exists>evs raw plan. execute exampleEnv runFiles exampleContext = (None, evs) \<and> resultWrites evs \<noteq> []
     \<and> readFD (cfPlan runFiles) maxConstrainedPlanSize = Inr raw \<and> parseConstrainedPlan raw = Inr plan"
proof -
  obtain evs where e: "execute exampleEnv runFiles exampleContext = (None, evs)" using example_run by blast
  have "resultWrites evs \<noteq> []" using execute_ok [OF e] by auto
  then show ?thesis using e execute_validates_first [OF e] by blast
qed

end
