(* ===== verification/Constrained_Protocol.thy ===== *)
theory Constrained_Protocol
  imports Constrained_Runs
begin

text \<open>
  What a supervisor may rely on when it watches a constrained run, as a transition system: the
  stages of a run with the events each may show, the budget and the checks it needs before it
  starts. \<open>execute\<close> is shown to refine it.
\<close>

section \<open>The protocol\<close>

datatype stage =
    Reading "input_role list"              \<comment> \<open>the inputs still to be read\<close>
  | Asking run_inputs                      \<comment> \<open>about to ask for a token\<close>
  | Answered run_inputs bytes
  | Registering run_inputs bytes key
  | Registered run_inputs key addKeyResult
  | Configured run_inputs addKeyResult     \<comment> \<open>the whole configuration is out\<close>
  | Delivered run_inputs addKeyResult      \<comment> \<open>so is the success document\<close>
  | Stopped

definition inputOrder :: "input_role list" where
  "inputOrder = [PlanInput, CredentialsInput, PublicCAInput, RegionalCAInput]"

definition exchanged :: "dialControl option \<Rightarrow> bytes \<Rightarrow> request \<Rightarrow> net_event list \<Rightarrow> bool" where
  \<comment> \<open>one socket, accepted by the control before it connects, and the request\<close>
  "exchanged control address req evs \<longleftrightarrow>
     (\<exists>conn calls. runControl control conn = (calls, None)
        \<and> evs = map EvSockopt calls @ [EvConnect address, EvSend req])"

definition attempted :: "dialControl option \<Rightarrow> bytes \<Rightarrow> request \<Rightarrow> net_event list \<Rightarrow> bool" where
  "attempted control address req evs \<longleftrightarrow>
     evs = [] \<or> exchanged control address req evs
     \<or> (\<exists>conn calls err. runControl control conn = (calls, err)
          \<and> evs = map EvSockopt calls @ (if err = None then [EvConnect address] else []))"

definition keyRequest :: "run_env \<Rightarrow> run_inputs \<Rightarrow> bytes \<Rightarrow> key \<Rightarrow> request" where
  "keyRequest env i token k =
     addKeyRequest (cpRegistrationCandidate (riPlan i)) token (keyString (PublicKey (reScalarMult env) k))"

inductive protocol_step ::
  "run_env \<Rightarrow> constrainedFiles \<Rightarrow> cliContext \<Rightarrow> stage \<Rightarrow> run_event list \<Rightarrow> stage \<Rightarrow> bool"
  for env :: run_env and files :: constrainedFiles and c :: cliContext where
  read: "validateConstrainedInvocation c (reOsArgs env) = None \<Longrightarrow> admit env 0 45
    \<Longrightarrow> protocol_step env files c (Reading (x # xs)) [EvRead x] (Reading xs)"
| accept: "inputs_valid env files c i \<Longrightarrow> admit env 1 45
    \<Longrightarrow> protocol_step env files c (Reading []) [] (Asking i)"
| token: "exchanged (riControl i) (tokenAddress (riPlan i)) (tokenRequest (riCreds i)) evs
    \<Longrightarrow> tokenResponse status body = (t, None)
    \<Longrightarrow> protocol_step env files c (Asking i) (map EvNet evs) (Answered i t)"
| token_fails: "attempted (riControl i) (tokenAddress (riPlan i)) (tokenRequest (riCreds i)) evs
    \<Longrightarrow> protocol_step env files c (Asking i) (map EvNet evs) Stopped"
| generate: "admit env 2 30 \<Longrightarrow> GeneratePrivateKey (reRandom env) = Inr k
    \<Longrightarrow> protocol_step env files c (Answered i t) [] (Registering i t k)"
| register: "exchanged (riControl i) (registrationAddress (riPlan i)) (keyRequest env i t k) evs
    \<Longrightarrow> addKeyResponse status body = (r, None)
    \<Longrightarrow> validateConstrainedAddKey (riPlan i) r (keyString (PublicKey (reScalarMult env) k)) = None
    \<Longrightarrow> \<not> endpointReused (riPlan i) r
    \<Longrightarrow> protocol_step env files c (Registering i t k) (map EvNet evs) (Registered i k r)"
| register_fails: "attempted (riControl i) (registrationAddress (riPlan i)) (keyRequest env i t k) evs
    \<Longrightarrow> protocol_step env files c (Registering i t k) (map EvNet evs) Stopped"
| configure: "admit env 3 15 \<Longrightarrow> config = renderConstrainedConfig (keyString k) r
    \<Longrightarrow> length config \<le> maxConstrainedConfigSize
    \<Longrightarrow> protocol_step env files c (Registered i k r) [EvConfig config] (Configured i r)"
| configure_fails: "admit env 3 15
    \<Longrightarrow> protocol_step env files c (Registered i k r)
          [EvConfig (take n (renderConstrainedConfig (keyString k) r))] Stopped"
| deliver: "admit env 4 10
    \<Longrightarrow> protocol_step env files c (Configured i r) [EvResult (successLine (riPlan i) r)] (Delivered i r)"
| deliver_fails: "admit env 4 10
    \<Longrightarrow> protocol_step env files c (Configured i r) [EvResult (take n (successLine (riPlan i) r))] Stopped"

inductive_simps stopped_step [simp]: "protocol_step env files c Stopped evs s'"
inductive_simps delivered_step [simp]: "protocol_step env files c (Delivered i r) evs s'"

inductive protocol_run ::
  "run_env \<Rightarrow> constrainedFiles \<Rightarrow> cliContext \<Rightarrow> stage \<Rightarrow> run_event list \<Rightarrow> stage \<Rightarrow> bool"
  for env :: run_env and files :: constrainedFiles and c :: cliContext where
  stay: "protocol_run env files c s [] s"
| move: "protocol_step env files c s evs t \<Longrightarrow> protocol_run env files c t evs' u
    \<Longrightarrow> protocol_run env files c s (evs @ evs') u"

lemma run_one: "protocol_step env files c s evs t \<Longrightarrow> protocol_run env files c s evs t"
  using move [OF _ stay, of env files c s evs t] by simp

lemma run_append:
  "protocol_run env files c s evs t \<Longrightarrow> protocol_run env files c t evs' u
    \<Longrightarrow> protocol_run env files c s (evs @ evs') u"
  by (induction rule: protocol_run.induct) (auto intro: move)

section \<open>The run refines it\<close>

lemma dial_shape_attempted:
  assumes "dial_shape cl req evs"
  shows "attempted (hcControl cl) (dialAddress cl) req evs"
    and "EvSend req \<in> set evs \<Longrightarrow> exchanged (hcControl cl) (dialAddress cl) req evs"
proof -
  have "evs = [] \<or> (\<exists>conn calls err. runControl (hcControl cl) conn = (calls, err)
      \<and> evs = map EvSockopt calls @ (if err = None then [EvConnect (dialAddress cl)] else []))
    \<or> exchanged (hcControl cl) (dialAddress cl) req evs"
    using assms by (fastforce simp: dial_shape_def exchanged_def split: if_splits)
  then show "attempted (hcControl cl) (dialAddress cl) req evs"
    and "EvSend req \<in> set evs \<Longrightarrow> exchanged (hcControl cl) (dialAddress cl) req evs"
    by (auto simp: attempted_def split: if_splits)
qed

lemma attempted_Nil [simp]: "attempted control address req []"
  by (simp add: attempted_def)

lemma clientDo_attempted:
  assumes "clientDo x cl req 0 rs = (res, evs)"
  shows "attempted (hcControl cl) (dialAddress cl) req evs
    \<and> (\<forall>out. res = Inr out \<longrightarrow> exchanged (hcControl cl) (dialAddress cl) req evs)"
  using clientDo_shape [OF assms] dial_shape_attempted [of cl req evs] by blast

lemma built_client:
  "hcControl (tokenClient ip roots control) = control"
  "dialAddress (tokenClient ip roots control) = joinHostPort ip ''443''"
  "hcControl (addKeyClient cand roots control) = control"
  "dialAddress (addKeyClient cand roots control) = joinHostPort (rcIPv4 cand) ''1337''"
proof -
  have "itoa 443 = ''443''" "itoa 1337 = ''1337''" by code_simp+
  then show "hcControl (tokenClient ip roots control) = control"
    "dialAddress (tokenClient ip roots control) = joinHostPort ip ''443''"
    "hcControl (addKeyClient cand roots control) = control"
    "dialAddress (addKeyClient cand roots control) = joinHostPort (rcIPv4 cand) ''1337''"
    by (simp_all add: tokenClient_def addKeyClient_def constrainedHTTPClient_def dialAddress_def)
qed

lemma token_exchange:
  assumes "constrainedTokenRequest x env (cpTokenDestinationIPv4 plan) creds roots control = ((t, failure), evs)"
  shows "attempted control (tokenAddress plan) (tokenRequest creds) evs"
    and "failure = None \<Longrightarrow> exchanged control (tokenAddress plan) (tokenRequest creds) evs"
    and "failure = None \<Longrightarrow> \<exists>status body. tokenResponse status body = (t, None)"
proof -
  note run = clientDo_attempted [of x "tokenClient (cpTokenDestinationIPv4 plan) roots control"
      "tokenRequest creds" "neRounds env" _ evs, unfolded built_client, folded tokenAddress_def]
  show "attempted control (tokenAddress plan) (tokenRequest creds) evs"
    using tokenRequest_cases [OF assms] run by auto
  show "failure = None \<Longrightarrow> exchanged control (tokenAddress plan) (tokenRequest creds) evs"
    and "failure = None \<Longrightarrow> \<exists>status body. tokenResponse status body = (t, None)"
    using tokenRequest_cases [OF assms] run by blast+
qed

lemma key_exchange:
  fixes t pk plan
  defines "req \<equiv> addKeyRequest (cpRegistrationCandidate plan) t pk"
  assumes "constrainedAddKeyRequest x env (cpRegistrationCandidate plan) t pk roots control = ((r, failure), evs)"
  shows "attempted control (registrationAddress plan) req evs"
    and "failure = None \<Longrightarrow> exchanged control (registrationAddress plan) req evs"
    and "failure = None \<Longrightarrow> \<exists>status body. addKeyResponse status body = (r, None)"
proof -
  note run = clientDo_attempted [of x "addKeyClient (cpRegistrationCandidate plan) roots control"
      req "neRounds env" _ evs, unfolded built_client, folded registrationAddress_def]
  show "attempted control (registrationAddress plan) req evs"
    using addKeyRequest_cases [OF assms(2)] run by (auto simp: req_def)
  show "failure = None \<Longrightarrow> exchanged control (registrationAddress plan) req evs"
    and "failure = None \<Longrightarrow> \<exists>status body. addKeyResponse status body = (r, None)"
    using addKeyRequest_cases [OF assms(2)] run unfolding req_def by blast+
qed

lemma reading_run:
  assumes "validateConstrainedInvocation c (reOsArgs env) = None" and "admit env 0 45"
  shows "protocol_run env files c (Reading (xs @ ys)) (map EvRead xs) (Reading ys)"
proof (induction xs)
  case Nil
  show ?case by (simp add: stay)
next
  case (Cons x xs)
  then show ?case using move [OF read [OF assms, of files x "xs @ ys"], of "map EvRead xs"] by simp
qed

definition reads_of :: "input_role list \<Rightarrow> ('f + 'i) \<times> run_event list \<Rightarrow> bool" where
  \<comment> \<open>inputs read in this order, all of them when the phase succeeds\<close>
  "reads_of order run \<longleftrightarrow>
     (\<exists>xs ys. order = xs @ ys \<and> snd run = map EvRead xs \<and> (\<forall>i. fst run = Inr i \<longrightarrow> ys = []))"

lemma reads_of_Nil [intro!]: "reads_of order (Inl f, [])" "reads_of [] (Inr i, [])"
  by (simp_all add: reads_of_def)

lemma reads_of_Cons: "reads_of order (r, evs) \<Longrightarrow> reads_of (x # order) (r, EvRead x # evs)"
  unfolding reads_of_def by (metis append_Cons fst_conv list.simps(9) snd_conv)

lemma reads_of_after: "reads_of order run \<Longrightarrow> reads_of (x # order) (after [EvRead x] run)"
  by (cases run) (simp add: reads_of_Cons)

lemma executeTrust_reads: "reads_of [PublicCAInput, RegionalCAInput] (executeTrust env files plan creds control)"
  by (auto simp: executeTrust_def intro!: reads_of_Cons split: option.splits)

lemma executeCredentials_reads: "reads_of (tl inputOrder) (executeCredentials env files plan control)"
  by (auto simp: executeCredentials_def inputOrder_def
      intro!: reads_of_Cons reads_of_after executeTrust_reads split: option.splits sum.splits)

lemma executeInputs_reads:
  "(\<exists>f. executeInputs env files c = (Inl f, []))
   \<or> validateConstrainedInvocation c (reOsArgs env) = None \<and> admit env 0 45
     \<and> reads_of inputOrder (executeInputs env files c)"
proof -
  have "inputOrder = PlanInput # tl inputOrder" by (simp add: inputOrder_def)
  then have "reads_of inputOrder (after [EvRead PlanInput] (executeCredentials env files plan control))"
    for plan control
    using reads_of_after [OF executeCredentials_reads] by metis
  then show ?thesis
    by (auto simp: executeInputs_def Let_def inputOrder_def intro!: reads_of_Cons split: option.splits prod.splits sum.splits)
qed

lemma inputs_refine:
  assumes "executeInputs env files c = (r, evs)"
  shows "\<exists>ys. protocol_run env files c (Reading inputOrder) evs (Reading ys) \<and> (\<forall>i. r = Inr i \<longrightarrow> ys = [])"
proof (cases "validateConstrainedInvocation c (reOsArgs env) = None \<and> admit env 0 45
    \<and> reads_of inputOrder (executeInputs env files c)")
  case True
  then obtain xs ys where "inputOrder = xs @ ys" "evs = map EvRead xs" "\<forall>i. r = Inr i \<longrightarrow> ys = []"
    using assms by (auto simp: reads_of_def)
  then show ?thesis using reading_run [of c env files xs ys] True by (intro exI [of _ ys]) simp
next
  case False
  then have "evs = []" "\<forall>i. r \<noteq> Inr i" using executeInputs_reads [of env files c] assms by auto
  then show ?thesis by (auto intro: stay)
qed

lemma register_refines:
  assumes "executeAddKey env i t k = (r, evs)"
  shows "\<exists>s. protocol_run env files c (Registering i t k) evs s
    \<and> (case r of Inl _ \<Rightarrow> s = Stopped | Inr (priv, res) \<Rightarrow> priv = keyString k \<and> s = Registered i k res)"
proof -
  define pk where "pk = keyString (PublicKey (reScalarMult env) k)"
  obtain res failure net where q: "constrainedAddKeyRequest (rePki env) (reAddKeyNet env)
      (cpRegistrationCandidate (riPlan i)) t pk (riRegional i) (riControl i) = ((res, failure), net)"
    by (metis surj_pair)
  have e: "evs = map EvNet net" using assms q by (auto simp: executeAddKey_def Let_def pk_def)
  show ?thesis
  proof (cases r)
    case (Inl f)
    have "protocol_step env files c (Registering i t k) evs Stopped"
      using register_fails [of i env t k net files c] key_exchange(1) [OF q] by (simp add: e keyRequest_def pk_def)
    then show ?thesis using run_one by (intro exI [of _ Stopped]) (simp add: Inl)
  next
    case (Inr pr)
    have "failure = None \<and> validateConstrainedAddKey (riPlan i) res pk = None
        \<and> \<not> endpointReused (riPlan i) res \<and> pr = (keyString k, res)"
      using assms q Inr by (auto simp: executeAddKey_def Let_def pk_def split: if_splits)
    moreover from this have "protocol_step env files c (Registering i t k) evs (Registered i k res)"
      using register [of i env t k net _ _ res files c] key_exchange(2,3) [OF q]
      by (auto simp: e keyRequest_def pk_def)
    ultimately show ?thesis using run_one by (intro exI [of _ "Registered i k res"]) (simp add: Inr)
  qed
qed

lemma network_refines:
  assumes "executeNetwork env i = (r, evs)" and "inputs_valid env files c i"
  shows "\<exists>s. protocol_run env files c (Reading []) evs s
    \<and> (case r of Inl _ \<Rightarrow> \<forall>j res. s \<noteq> Delivered j res
         | Inr (priv, res) \<Rightarrow> \<exists>k. priv = keyString k \<and> s = Registered i k res)"
proof (cases "admit env 1 45")
  case False
  then have "evs = []" "isl r" using assms(1) by (auto simp: executeNetwork_def)
  then show ?thesis by (intro exI [of _ "Reading []"]) (auto intro: stay split: sum.splits)
next
  case True
  obtain t failure net where q: "constrainedTokenRequest (rePki env) (reTokenNet env)
      (cpTokenDestinationIPv4 (riPlan i)) (riCreds i) (riPublic i) (riControl i) = ((t, failure), net)"
    by (metis surj_pair)
  note start = run_one [OF accept [OF assms(2) True]]
  show ?thesis
  proof (cases "failure = None \<and> admit env 2 30 \<and> (\<exists>k. GeneratePrivateKey (reRandom env) = Inr k)")
    case False
    then have e: "evs = map EvNet net" "isl r"
      using assms(1) True q by (auto simp: executeNetwork_def split: if_splits sum.splits)
    have "protocol_run env files c (Reading []) evs Stopped"
      using run_append [OF start run_one [OF token_fails [OF token_exchange(1) [OF q]]]] by (simp add: e)
    then show ?thesis using e(2) by (auto split: sum.splits)
  next
    case ok: True
    then obtain k where k: "GeneratePrivateKey (reRandom env) = Inr k" by blast
    obtain r' evs' where a: "executeAddKey env i t k = (r', evs')" by fastforce
    have e: "r = r'" "evs = map EvNet net @ evs'"
      using assms(1) True q ok k a by (auto simp: executeNetwork_def)
    have "protocol_step env files c (Asking i) (map EvNet net) (Answered i t)"
      using ok token_exchange(2,3) [OF q] token [of i net] by blast
    note asked = run_append [OF start run_one [OF this]]
    have "protocol_step env files c (Answered i t) [] (Registering i t k)" using ok k by (intro generate) simp_all
    note started = run_append [OF asked run_one [OF this]]
    obtain s where s: "protocol_run env files c (Registering i t k) evs' s"
      "case r' of Inl _ \<Rightarrow> s = Stopped | Inr (priv, res) \<Rightarrow> priv = keyString k \<and> s = Registered i k res"
      using register_refines [OF a] by blast
    have "protocol_run env files c (Reading []) evs s" using run_append [OF started s(1)] by (simp add: e)
    then show ?thesis using s(2) e(1) by (intro exI [of _ s]) (auto split: sum.splits)
  qed
qed

lemma result_refines:
  assumes "executeResult env files (riPlan i) r = (failure, evs)"
  shows "\<exists>s. protocol_run env files c (Configured i r) evs s
    \<and> (failure = None \<longleftrightarrow> (\<exists>j q. s = Delivered j q))"
proof (cases "admit env 4 10 \<and> \<not> maxConstrainedResultSize < length (marshalSuccess (successOf (riPlan i) r))")
  case False
  then have "evs = []" "failure \<noteq> None"
    using assms by (auto simp: executeResult_def good_not_None good_built split: if_splits)
  then show ?thesis by (intro exI [of _ "Configured i r"]) (simp add: stay)
next
  case True
  obtain err out where w: "writeFD (cfResultWriter files) (successLine (riPlan i) r) maxConstrainedResultSize
      = (err, out)" by fastforce
  then obtain n where n: "out = take n (successLine (riPlan i) r)"
    and full: "err = None \<longrightarrow> out = successLine (riPlan i) r" using writeFD_cases by metis
  have e: "evs = [EvResult out]" "failure = None \<longleftrightarrow> err = None"
    using assms True w good_not_None [OF good_built(1)] by (cases err; auto simp: executeResult_def)+
  have "protocol_step env files c (Configured i r) evs (if err = None then Delivered i r else Stopped)"
    using True full n by (auto simp: e intro: deliver deliver_fails)
  from run_one [OF this] show ?thesis using e(2) by (intro exI conjI) (auto split: if_splits)
qed

lemma output_refines:
  assumes "executeOutput env files (riPlan i) (keyString k) r = (failure, evs)"
  shows "\<exists>s. protocol_run env files c (Registered i k r) evs s
    \<and> (failure = None \<longleftrightarrow> (\<exists>j q. s = Delivered j q))"
proof (cases "admit env 3 15 \<and> \<not> maxConstrainedConfigSize < length (renderConstrainedConfig (keyString k) r)")
  case False
  then have "evs = []" "failure \<noteq> None"
    using assms by (auto simp: executeOutput_def Let_def good_not_None good_built split: if_splits)
  then show ?thesis by (intro exI [of _ "Registered i k r"]) (simp add: stay)
next
  case True
  let ?config = "renderConstrainedConfig (keyString k) r"
  obtain err out where w: "writeFD (cfConfigWriter files) ?config maxConstrainedConfigSize = (err, out)" by fastforce
  then obtain n where n: "out = take n ?config" and full: "err = None \<longrightarrow> out = ?config"
    using writeFD_cases by metis
  show ?thesis
  proof (cases err)
    case (Some e)
    then have "evs = [EvConfig out]" "failure \<noteq> None"
      using assms True w good_not_None [OF good_built(1)] by (auto simp: executeOutput_def Let_def)
    then show ?thesis using run_one [OF configure_fails, of env files c i k r n] True n
      by (intro exI [of _ Stopped]) simp
  next
    case None
    obtain f' evs' where x: "executeResult env files (riPlan i) r = (f', evs')" by fastforce
    have e: "evs = [EvConfig ?config] @ evs'" "failure = f'"
      using assms True w None full x by (auto simp: executeOutput_def Let_def)
    have "protocol_step env files c (Registered i k r) [EvConfig ?config] (Configured i r)"
      using True by (intro configure) simp_all
    then show ?thesis using result_refines [OF x, of c] e by (metis move)
  qed
qed

lemma execute_protocol:
  assumes "execute env files c = (failure, evs)"
  shows "\<exists>s. protocol_run env files c (Reading inputOrder) evs s
    \<and> (failure = None \<longleftrightarrow> (\<exists>i r. s = Delivered i r))"
  using assms
proof (cases rule: execute_cases)
  case (early evs1)
  then show ?thesis using inputs_refine [OF early(1)] good_not_None [OF good_inputs [OF early(1)]] by auto
next
  case (network i evs1 evs2)
  have "protocol_run env files c (Reading inputOrder) evs1 (Reading [])" "inputs_valid env files c i"
    using inputs_refine [OF network(1)] executeInputs_ok [OF network(1)] by auto
  then obtain s where "protocol_run env files c (Reading inputOrder) evs s" "\<forall>j res. s \<noteq> Delivered j res"
    using network_refines [OF network(2)] run_append network(3) by fastforce
  then show ?thesis using good_not_None [OF good_network [OF network(2)]] by blast
next
  case (full i evs1 evs2 priv r evs3)
  have "protocol_run env files c (Reading inputOrder) evs1 (Reading [])" "inputs_valid env files c i"
    using inputs_refine [OF full(1)] executeInputs_ok [OF full(1)] by auto
  then obtain k where k: "priv = keyString k"
    "protocol_run env files c (Reading inputOrder) (evs1 @ evs2) (Registered i k r)"
    using network_refines [OF full(2)] run_append by fastforce
  obtain s where "protocol_run env files c (Registered i k r) evs3 s"
    "failure = None \<longleftrightarrow> (\<exists>j q. s = Delivered j q)"
    using output_refines full(3) k(1) by blast
  then show ?thesis using run_append [OF k(2)] full(4) by auto
qed

section \<open>No phase starts without its time\<close>

fun admitted :: "run_env \<Rightarrow> stage \<Rightarrow> bool" where
  \<comment> \<open>the admissions a run has passed when it is in a stage\<close>
  "admitted env (Reading _) = True"
| "admitted env (Asking _) = admit env 1 45"
| "admitted env (Answered _ _) = admit env 1 45"
| "admitted env (Registering _ _ _) = (admit env 1 45 \<and> admit env 2 30)"
| "admitted env (Registered _ _ _) = (admit env 1 45 \<and> admit env 2 30)"
| "admitted env (Configured _ _) = (admit env 1 45 \<and> admit env 2 30 \<and> admit env 3 15)"
| "admitted env (Delivered _ _) = (admit env 1 45 \<and> admit env 2 30 \<and> admit env 3 15 \<and> admit env 4 10)"
| "admitted env Stopped = True"

fun beforeRegistration :: "stage \<Rightarrow> nat" where
  \<comment> \<open>the connections a run can still make without starting the registration\<close>
  "beforeRegistration (Reading _) = 1"
| "beforeRegistration (Asking _) = 1"
| "beforeRegistration _ = 0"

definition inTime :: "run_env \<Rightarrow> stage \<Rightarrow> run_event list \<Rightarrow> bool" where
  "inTime env s evs \<longleftrightarrow>
     ((\<exists>x. EvRead x \<in> set evs) \<longrightarrow> admit env 0 45)
     \<and> (netEvents evs \<noteq> [] \<longrightarrow> admit env 1 45)
     \<and> (beforeRegistration s < length (connects (netEvents evs)) \<longrightarrow> admit env 2 30)
     \<and> (configWrites evs \<noteq> [] \<longrightarrow> admit env 3 15)
     \<and> (resultWrites evs \<noteq> [] \<longrightarrow> admit env 4 10)"

lemma attempted_connects: "attempted control a req evs \<Longrightarrow> length (connects evs) \<le> 1"
  by (auto simp: attempted_def exchanged_def)

lemma exchanged_connects: "exchanged control a req evs \<Longrightarrow> length (connects evs) = 1"
  by (auto simp: exchanged_def)

lemma net_inTime:
  assumes "admit env 1 45" and "length (connects evs) \<le> beforeRegistration s \<or> admit env 2 30"
  shows "inTime env s (map EvNet evs)"
  using assms by (auto simp: inTime_def)

lemma step_inTime:
  assumes "protocol_step env files c s evs t" and "admitted env s"
  shows "admitted env t \<and> inTime env s evs
    \<and> (beforeRegistration t + length (connects (netEvents evs)) \<le> beforeRegistration s \<or> admit env 2 30)"
  using assms(1)
proof (cases rule: protocol_step.cases)
  case (token i es status body t')
  then show ?thesis using assms(2) exchanged_connects [OF token(4)] net_inTime [of env es s] by simp
next
  case (token_fails i es)
  then show ?thesis using assms(2) attempted_connects [OF token_fails(4)] net_inTime [of env es s] by simp
next
  case (register i t' k es status body r)
  then show ?thesis using assms(2) net_inTime [of env es s] by simp
next
  case (register_fails i t' k es)
  then show ?thesis using assms(2) net_inTime [of env es s] by simp
qed (use assms(2) in \<open>simp_all add: inTime_def\<close>)

lemma inTime_append:
  assumes "inTime env s evs" and "inTime env t evs'"
    and "beforeRegistration t + length (connects (netEvents evs)) \<le> beforeRegistration s \<or> admit env 2 30"
  shows "inTime env s (evs @ evs')"
proof -
  have "beforeRegistration s < length (connects (netEvents (evs @ evs'))) \<Longrightarrow> admit env 2 30"
    using assms(2,3) by (auto simp: inTime_def)
  moreover have "(\<exists>x. EvRead x \<in> set (evs @ evs')) \<Longrightarrow> admit env 0 45"
    using assms(1,2) unfolding inTime_def by auto
  moreover have "netEvents (evs @ evs') \<noteq> [] \<Longrightarrow> admit env 1 45"
    "configWrites (evs @ evs') \<noteq> [] \<Longrightarrow> admit env 3 15" "resultWrites (evs @ evs') \<noteq> [] \<Longrightarrow> admit env 4 10"
    using assms(1,2) unfolding inTime_def by auto
  ultimately show ?thesis unfolding inTime_def by blast
qed

lemma run_inTime:
  assumes "protocol_run env files c s evs t" and "admitted env s"
  shows "inTime env s evs"
  using assms
proof (induction rule: protocol_run.induct)
  case (move s evs t evs' u)
  note st = step_inTime [OF move.hyps(1) move.prems]
  have "inTime env t evs'" using move.IH st by blast
  then show ?case using inTime_append [of env s evs t evs'] st by blast
qed (simp add: inTime_def)

text \<open>
  C39: a run asks for the time left, and whether its context has ended, at five points, and what
  follows a point is done only if it was admitted there. An input is read only if 45 seconds were
  left at the first point, before the plan, where all four inputs are admitted together: the
  credentials and the CA bundles are read under that one answer. A socket is opened only if 45
  seconds were left at the second point; the second connection, which registers the key, is
  made only if 30 were left at the third; the configuration is written only if 15 were left at
  the fourth, and the result only if 10 were left at the fifth; and at each of these points
  the context had not ended. The time that passes between a point and the actions it admits is
  not bounded by this statement.
\<close>

theorem execute_within_budget:
  assumes "execute env files c = (failure, evs)"
  shows "((\<exists>x. EvRead x \<in> set evs) \<longrightarrow> 45 \<le> reTimeLeft env 0 \<and> reCtxErr env 0 = None)
    \<and> (netEvents evs \<noteq> [] \<longrightarrow> 45 \<le> reTimeLeft env 1 \<and> reCtxErr env 1 = None)
    \<and> (2 \<le> length (connects (netEvents evs)) \<longrightarrow> 30 \<le> reTimeLeft env 2 \<and> reCtxErr env 2 = None)
    \<and> (configWrites evs \<noteq> [] \<longrightarrow> 15 \<le> reTimeLeft env 3 \<and> reCtxErr env 3 = None)
    \<and> (resultWrites evs \<noteq> [] \<longrightarrow> 10 \<le> reTimeLeft env 4 \<and> reCtxErr env 4 = None)"
proof -
  obtain s where "protocol_run env files c (Reading inputOrder) evs s"
    using execute_protocol [OF assms] by blast
  then have "inTime env (Reading inputOrder) evs" by (rule run_inTime) simp
  then show ?thesis by (simp add: inTime_def admit_def)
qed

text \<open>
  C4: a run of constrained mode follows the protocol. Whatever the descriptors deliver, the
  network answers and the clock shows, the events of \<open>execute\<close> are those of a path through the
  stages: the four inputs in their order, one marked and accepted socket per request, the token
  request before the registration, the whole configuration before the result; each stage is
  entered only with its checks passed and its time budget left, and the run succeeds exactly
  when the path ends with the success document delivered.
\<close>

theorem execute_refines_protocol:
  assumes "execute env files c = (failure, evs)"
  shows "\<exists>s. protocol_run env files c (Reading [PlanInput, CredentialsInput, PublicCAInput, RegionalCAInput]) evs s
    \<and> (failure = None \<longleftrightarrow> (\<exists>i r. s = Delivered i r))"
  using execute_protocol [OF assms] by (simp add: inputOrder_def)

theorem execute_refines_protocol_witness:
  "\<exists>evs i r. protocol_run exampleEnv runFiles exampleContext (Reading inputOrder) evs (Delivered i r)"
proof -
  obtain evs where "execute exampleEnv runFiles exampleContext = (None, evs)" using example_run by blast
  from execute_refines_protocol [OF this] show ?thesis by (auto simp: inputOrder_def)
qed

theorem execute_within_budget_witness:
  "\<exists>evs. execute exampleEnv runFiles exampleContext = (None, evs) \<and> resultWrites evs \<noteq> []
    \<and> 10 \<le> reTimeLeft exampleEnv 4"
proof -
  obtain evs where e: "execute exampleEnv runFiles exampleContext = (None, evs)" using example_run by blast
  have "resultWrites evs \<noteq> []" using execute_ok [OF e] by auto
  with execute_within_budget [OF e] e show ?thesis by blast
qed

end
