(* ===== verification/Dns_Name.thy ===== *)
theory Dns_Name
  imports Prelude
begin

text \<open>
  Domain names on the wire (\<open>vendor/github.com/benburkert/dns/compression.go\<close>): the compressor
  with its table of names already written, the decompressor that follows pointers, and the
  big-endian integers of a DNS message. A message is a \<open>bytes\<close>; an index out of range, which
  panics in Go, is the error \<open>IndexPanic\<close>.
\<close>

section \<open>Big-endian integers\<close>

definition putUint16 :: "16 word \<Rightarrow> bytes" where
  "putUint16 w = [char_of (unat w div 256), char_of (unat w mod 256)]"

fun uint16 :: "bytes \<Rightarrow> 16 word" where
  \<comment> \<open>every call is guarded by the length of the slice\<close>
  "uint16 (a # b # _) = word_of_nat (byte a * 256 + byte b)"
| "uint16 _ = 0"

definition putUint32 :: "32 word \<Rightarrow> bytes" where
  "putUint32 w =
     [char_of (unat w div 2 ^ 24), char_of (unat w div 2 ^ 16 mod 256), char_of (unat w div 256 mod 256),
      char_of (unat w mod 256)]"

fun uint32 :: "bytes \<Rightarrow> 32 word" where
  "uint32 (a # b # c # d # _) =
     word_of_nat (byte a * 2 ^ 24 + byte b * 2 ^ 16 + byte c * 256 + byte d)"
| "uint32 _ = 0"

locale fixed_codec =
  fixes enc :: "'a \<Rightarrow> bytes" and dec :: "bytes \<Rightarrow> 'a" and width :: nat
  assumes length_enc: "length (enc x) = width"
    and dec_enc: "dec (enc x @ s) = x"
begin

lemma dec_enc_all: "dec (enc x) = x"
  using dec_enc [of x "[]"] by simp

lemma enc_inj: "enc x @ s = enc y @ t \<longleftrightarrow> x = y \<and> s = t"
  using dec_enc length_enc by (metis append_eq_append_conv)

lemma take_enc: "take width (enc x @ s) = enc x"
  by (simp add: length_enc)

lemma drop_enc: "drop width (enc x @ s) = s"
  by (simp add: length_enc)

end

lemma word16_split: "word_of_nat (unat w div 256 * 256 + unat w mod 256) = (w :: 16 word)"
  by (simp add: div_mult_mod_eq)

lemma byte_high16: "unat (w :: 16 word) div 256 < 256"
proof -
  have "unat w < 2 ^ LENGTH(16)" by (rule unsigned_less)
  then show ?thesis by (simp add: less_mult_imp_div_less)
qed

lemma byte_high32: "unat (w :: 32 word) div 2 ^ 24 < 256"
proof -
  have "unat w < 2 ^ LENGTH(32)" by (rule unsigned_less)
  then show ?thesis by (simp add: less_mult_imp_div_less)
qed

lemma word32_bytes:
  fixes n :: nat
  shows "n div 2 ^ 24 * 2 ^ 24 + n div 2 ^ 16 mod 256 * 2 ^ 16 + n div 256 mod 256 * 256 + n mod 256 = n"
proof -
  have e: "m = n1 * 256 + d \<Longrightarrow> n1 = n2 * 256 + c \<Longrightarrow> n2 = a * 256 + b
      \<Longrightarrow> a * 2 ^ 24 + b * 2 ^ 16 + c * 256 + d = m" for m n1 n2 a b c d :: nat
    by simp
  have "n div 2 ^ 16 = n div 256 div 256" "n div 2 ^ 24 = n div 256 div 256 div 256"
    by (simp_all flip: div_mult2_eq)
  then show ?thesis
    using e [OF div_mult_mod_eq [symmetric] div_mult_mod_eq [symmetric] div_mult_mod_eq [symmetric]]
    by metis
qed

interpretation u16: fixed_codec putUint16 uint16 2
proof
  show "length (putUint16 x) = 2" for x by (simp add: putUint16_def)
  show "uint16 (putUint16 x @ s) = x" for x s
    using byte_high16 [of x] by (simp add: putUint16_def word16_split)
qed

interpretation u32: fixed_codec putUint32 uint32 4
proof
  show "length (putUint32 x) = 4" for x by (simp add: putUint32_def)
  show "uint32 (putUint32 x @ s) = x" for x s
  proof -
    let ?n = "unat x"
    have "uint32 (putUint32 x @ s)
        = word_of_nat (?n div 2 ^ 24 * 2 ^ 24 + ?n div 2 ^ 16 mod 256 * 2 ^ 16
            + ?n div 256 mod 256 * 256 + ?n mod 256)"
      using byte_high32 [of x] by (simp add: putUint32_def)
    then show ?thesis by (simp add: word32_bytes del: power_numeral)
  qed
qed

declare u16.length_enc [simp] u16.dec_enc [simp] u32.length_enc [simp] u32.dec_enc [simp]

lemmas u16_dec_all [simp] = u16.dec_enc_all
lemmas u32_dec_all [simp] = u32.dec_enc_all

section \<open>The compressor\<close>

datatype dns_error =
    BaseLen | CalcLen | ResourceLen | PtrCycle | InvalidFQDN | InvalidPtr | SegTooLong | ZeroSegLen
  | ResTooLong | TooManyQuestions | TooManyAnswers | TooManyAuthorities | FieldOverflow
  | UnknownType | OptionLen | ShortBuffer | IndexPanic

definition hasSuffix :: "bytes \<Rightarrow> bytes \<Rightarrow> bool" where
  "hasSuffix s x \<longleftrightarrow> length x \<le> length s \<and> drop (length s - length x) s = x"

record compressor =
  comTbl :: "(bytes \<times> nat) list option"     \<comment> \<open>the map; \<open>None\<close> is the nil map\<close>
  comOffset :: nat

definition noCompressor :: compressor where
  "noCompressor = \<lparr>comTbl = None, comOffset = 0\<rparr>"

definition tblLookup :: "compressor \<Rightarrow> bytes \<Rightarrow> nat option" where
  "tblLookup com name = Option.bind (comTbl com) (\<lambda>t. map_of t name)"

definition pointerTo :: "nat \<Rightarrow> dns_error + bytes" where
  "pointerTo idx =
     (let ptr = (word_of_nat idx :: 16 word) in
      if unat ptr \<noteq> idx then Inl InvalidPtr else Inr (putUint16 (or ptr 0xC000)))"

definition isPointer :: "char \<Rightarrow> bool" where
  "isPointer b \<longleftrightarrow> and (word_of_nat (byte b) :: 8 word) 0xC0 > 0"

definition tblAdd :: "compressor \<Rightarrow> bytes \<Rightarrow> nat \<Rightarrow> dns_error + compressor" where
  \<comment> \<open>\<open>c.tbl[fqdn] = idx\<close> for the position relative to the start of the message\<close>
  "tblAdd com fqdn pos =
     (case comTbl com of
        None \<Rightarrow> Inr com
      | Some t \<Rightarrow>
          if unat (word_of_nat (pos - comOffset com) :: 16 word) \<noteq> pos - comOffset com then Inl InvalidPtr
          else Inr (com\<lparr>comTbl := Some ((fqdn, pos - comOffset com) # t)\<rparr>))"

function packName :: "compressor \<Rightarrow> bytes \<Rightarrow> bytes \<Rightarrow> dns_error + bytes \<times> compressor" where
  "packName com b fqdn =
     (if fqdn = ''.'' \<or> fqdn = [] then Inr (b @ [CHR 0x00], com)
      else
        (case tblLookup com fqdn of
           Some idx \<Rightarrow> (case pointerTo idx of Inl e \<Rightarrow> Inl e | Inr ptr \<Rightarrow> Inr (b @ ptr, com))
         | None \<Rightarrow>
             (case indexByte fqdn (CHR ''.'') of
                None \<Rightarrow> Inl InvalidFQDN
              | Some pvt \<Rightarrow>
                  if pvt = 0 then Inl ZeroSegLen
                  else if 63 < pvt then Inl SegTooLong
                  else
                    (case tblAdd com fqdn (length b) of
                       Inl e \<Rightarrow> Inl e
                     | Inr com' \<Rightarrow>
                         packName com' (b @ char_of pvt # take pvt fqdn) (drop (Suc pvt) fqdn)))))"
  by pat_completeness auto
termination
  by (relation "measure (\<lambda>(_, _, fqdn). length fqdn)") auto

declare packName.simps [simp del]

function lengthName :: "compressor \<Rightarrow> bytes \<Rightarrow> bytes list \<Rightarrow> dns_error + nat \<times> bytes list" where
  \<comment> \<open>\<open>compressor.length\<close>; the last argument is the set \<open>visited\<close>\<close>
  "lengthName com name visited =
     (if name = ''.'' \<or> name = [] then Inr (1, visited)
      else if \<not> hasSuffix name ''.'' then Inl InvalidFQDN
      else if comTbl com \<noteq> None \<and> tblLookup com name \<noteq> None then Inr (2, visited)
      else if comTbl com \<noteq> None \<and> name \<in> set visited then Inr (2, visited)
      else
        (let visited' = (if comTbl com \<noteq> None then name # visited else visited) in
         case indexByte name (CHR ''.'') of
           None \<Rightarrow> Inl IndexPanic
         | Some pvt \<Rightarrow>
             (case lengthName com (drop (Suc pvt) name) visited' of
                Inl e \<Rightarrow> Inl e
              | Inr (n, v) \<Rightarrow> Inr (pvt + 1 + n, v))))"
  by pat_completeness auto
termination
  by (relation "measure (\<lambda>(_, name, _). length name)") auto

declare lengthName.simps [simp del]

fun lengthNames :: "compressor \<Rightarrow> bytes list \<Rightarrow> bytes list \<Rightarrow> dns_error + nat" where
  "lengthNames com [] visited = Inr 0"
| "lengthNames com (name # names) visited =
     (case lengthName com name visited of
        Inl e \<Rightarrow> Inl e
      | Inr (n, v) \<Rightarrow>
          (case lengthNames com names v of Inl e \<Rightarrow> Inl e | Inr m \<Rightarrow> Inr (n + m)))"

section \<open>The decompressor\<close>

definition deref :: "bytes \<Rightarrow> 16 word \<Rightarrow> nat list \<Rightarrow> dns_error + nat" where
  \<comment> \<open>the checks of \<open>deref\<close> and the index it goes on at\<close>
  "deref d ptr visited =
     (let idx = unat (and ptr 0x3FFF) in
      if length d < idx then Inl InvalidPtr
      else if length d = idx then Inl IndexPanic
      else if isPointer (d ! idx) then Inl InvalidPtr
      else if idx \<in> set visited then Inl PtrCycle
      else Inr idx)"

function unpackName ::
  "bytes option \<Rightarrow> bytes \<Rightarrow> bytes \<Rightarrow> nat list \<Rightarrow> dns_error + bytes \<times> bytes" where
  \<comment> \<open>\<open>decompressor.unpack\<close>: the name so far, the rest of the input, the pointers followed\<close>
  "unpackName d name b visited =
     (case b of
        [] \<Rightarrow> Inl BaseLen
      | c # r \<Rightarrow>
          if c = CHR 0x00 then Inr (if name = [] then ''.'' else name, r)
          else if r = [] then Inl BaseLen
          else if isPointer c then
            (case d of
               None \<Rightarrow> Inl BaseLen
             | Some msg \<Rightarrow>
                 (case deref msg (uint16 b) visited of
                    Inl e \<Rightarrow> Inl e
                  | Inr idx \<Rightarrow>
                      (case unpackName d name (drop idx msg) (visited @ [idx]) of
                         Inl e \<Rightarrow> Inl e
                       | Inr (n, _) \<Rightarrow> Inr (n, drop 2 b))))
          else if length r < byte c then Inl CalcLen
          else unpackName d (name @ take (byte c) r @ ''.'') (drop (byte c) r) visited)"
  by pat_completeness auto
termination
proof (relation "measures [\<lambda>(d, _, _, visited). card ({..< length (the d)} - set visited),
    \<lambda>(_, _, b, _). length b]", goal_cases)
  case (2 d name b visited c r msg idx)
  then have "idx < length msg" "idx \<notin> set visited"
    by (auto simp: deref_def Let_def split: if_splits)
  then have "{..< length msg} - insert idx (set visited) \<subset> {..< length msg} - set visited" by auto
  then have "card ({..< length msg} - insert idx (set visited)) < card ({..< length msg} - set visited)"
    by (intro psubset_card_mono) auto
  with 2 show ?case by simp
qed auto

declare unpackName.simps [simp del]

definition unpackFQDN :: "bytes option \<Rightarrow> bytes \<Rightarrow> dns_error + bytes \<times> bytes" where
  \<comment> \<open>\<open>decompressor.Unpack\<close>\<close>
  "unpackFQDN d b = unpackName d [] b []"

end
