(* ===== verification/Dns_Message.thy ===== *)
theory Dns_Message
  imports Dns_Name Net_IP "HOL-Library.Signed_Division"
begin

text \<open>
  Messages of the name system (\<open>dns/message.go\<close> and \<open>dns/edns\<close>): the structs, their encoding
  and their decoding. A duration is an \<open>int\<close> of nanoseconds, an
  address the list of its bytes, the empty list for \<open>nil\<close>.
\<close>

section \<open>The structs\<close>

definition TypeANY :: "16 word" where "TypeANY = 0"
definition TypeA :: "16 word" where "TypeA = 1"
definition TypeNS :: "16 word" where "TypeNS = 2"
definition TypeCNAME :: "16 word" where "TypeCNAME = 5"
definition TypeSOA :: "16 word" where "TypeSOA = 6"
definition TypePTR :: "16 word" where "TypePTR = 12"
definition TypeMX :: "16 word" where "TypeMX = 15"
definition TypeTXT :: "16 word" where "TypeTXT = 16"
definition TypeAAAA :: "16 word" where "TypeAAAA = 28"
definition TypeSRV :: "16 word" where "TypeSRV = 33"
definition TypeDNAME :: "16 word" where "TypeDNAME = 39"
definition TypeOPT :: "16 word" where "TypeOPT = 41"
definition TypeCAA :: "16 word" where "TypeCAA = 257"

lemmas type_defs = TypeANY_def TypeA_def TypeNS_def TypeCNAME_def TypeSOA_def TypePTR_def TypeMX_def
  TypeTXT_def TypeAAAA_def TypeSRV_def TypeDNAME_def TypeOPT_def TypeCAA_def

definition ClassIN :: "16 word" where "ClassIN = 1"

definition NoError :: "16 word" where "NoError = 0"
definition ServFail :: "16 word" where "ServFail = 2"
definition NXDomain :: "16 word" where "NXDomain = 3"

record question =
  qName :: bytes
  qType :: "16 word"
  qClass :: "16 word"

record soa =
  soaNS :: bytes
  soaMBox :: bytes
  soaSerial :: int
  soaRefresh :: int
  soaRetry :: int
  soaExpire :: int
  soaMinTTL :: int

datatype rdata =
    RA bytes | RAAAA bytes | RCNAME bytes | RNS bytes | RPTR bytes | RDNAME bytes
  | RSOA "soa option"                       \<comment> \<open>a pointer, which may be \<open>nil\<close>\<close>
  | RMX int bytes | RTXT "bytes list" | RSRV int int int bytes
  | ROPT "(16 word \<times> bytes) list" | RCAA bool bytes bytes

record resource =
  rName :: bytes
  rClass :: "16 word"
  rTTL :: int
  rRecord :: rdata

record message =
  mID :: int
  mResponse :: bool
  mOpCode :: "16 word"
  mAuthoritative :: bool
  mTruncated :: bool
  mRecursionDesired :: bool
  mRecursionAvailable :: bool
  mRCode :: "16 word"
  mQuestions :: "question list"
  mAnswers :: "resource list"
  mAuthorities :: "resource list"
  mAdditionals :: "resource list"

fun rtype :: "rdata \<Rightarrow> 16 word" where
  "rtype (RA _) = TypeA"
| "rtype (RAAAA _) = TypeAAAA"
| "rtype (RCNAME _) = TypeCNAME"
| "rtype (RNS _) = TypeNS"
| "rtype (RPTR _) = TypePTR"
| "rtype (RDNAME _) = TypeDNAME"
| "rtype (RSOA _) = TypeSOA"
| "rtype (RMX _ _) = TypeMX"
| "rtype (RTXT _) = TypeTXT"
| "rtype (RSRV _ _ _ _) = TypeSRV"
| "rtype (ROPT _) = TypeOPT"
| "rtype (RCAA _ _ _) = TypeCAA"

section \<open>Encoding\<close>

definition packInt16 :: "int \<Rightarrow> dns_error + bytes" where
  \<comment> \<open>\<open>x := uint16(v); if int(x) != v\<close>\<close>
  "packInt16 v =
     (let w = (word_of_int v :: 16 word) in if uint w \<noteq> v then Inl FieldOverflow else Inr (putUint16 w))"

definition packUint32 :: "int \<Rightarrow> dns_error + bytes" where
  "packUint32 v =
     (let w = (word_of_int v :: 32 word) in if uint w \<noteq> v then Inl FieldOverflow else Inr (putUint32 w))"

definition packInt32 :: "int \<Rightarrow> dns_error + bytes" where
  "packInt32 v =
     (let w = (word_of_int v :: 32 word) in if sint w \<noteq> v then Inl FieldOverflow else Inr (putUint32 w))"

fun concatFields :: "(dns_error + bytes) list \<Rightarrow> dns_error + bytes" where
  "concatFields [] = Inr []"
| "concatFields (Inl e # _) = Inl e"
| "concatFields (Inr f # fs) = (case concatFields fs of Inl e \<Rightarrow> Inl e | Inr r \<Rightarrow> Inr (f @ r))"

definition ipTo4 :: "bytes \<Rightarrow> bytes option" where
  \<comment> \<open>\<open>net.IP.To4\<close>\<close>
  "ipTo4 ip =
     (if length ip = 4 then Some ip
      else if length ip = 16 \<and> take 12 ip = replicate 10 (CHR 0x00) @ [CHR 0xFF, CHR 0xFF]
      then Some (drop 12 ip) else None)"

definition packOption :: "16 word \<times> bytes \<Rightarrow> bytes" where
  \<comment> \<open>\<open>edns.Option.Pack\<close>; the length is cut to 16 bits\<close>
  "packOption opt = putUint16 (fst opt) @ putUint16 (word_of_nat (length (snd opt))) @ snd opt"

fun packTexts :: "bytes list \<Rightarrow> dns_error + bytes" where
  "packTexts [] = Inr []"
| "packTexts (s # ss) =
     (if 255 < length s then Inl SegTooLong
      else (case packTexts ss of Inl e \<Rightarrow> Inl e | Inr r \<Rightarrow> Inr (char_of (length s) # s @ r)))"

definition soaNumbers :: "soa \<Rightarrow> dns_error + bytes" where
  "soaNumbers s =
     concatFields [packUint32 (soaSerial s), packInt32 (soaRefresh s sdiv second),
       packInt32 (soaRetry s sdiv second), packInt32 (soaExpire s sdiv second),
       packUint32 (soaMinTTL s sdiv second)]"

definition appendTo :: "bytes \<Rightarrow> compressor \<Rightarrow> dns_error + bytes \<Rightarrow> dns_error + bytes \<times> compressor" where
  "appendTo b com r = (case r of Inl e \<Rightarrow> Inl e | Inr s \<Rightarrow> Inr (b @ s, com))"

fun packRData :: "rdata \<Rightarrow> bytes \<Rightarrow> compressor \<Rightarrow> dns_error + bytes \<times> compressor" where
  "packRData (RA ip) b com =
     (if length ip < 4 then Inl ResourceLen
      else Inr (b @ (case ipTo4 ip of None \<Rightarrow> [] | Some q \<Rightarrow> q), com))"
| "packRData (RAAAA ip) b com = (if length ip \<noteq> 16 then Inl ResourceLen else Inr (b @ ip, com))"
| "packRData (RCNAME n) b com = packName com b n"
| "packRData (RNS n) b com = packName com b n"
| "packRData (RPTR n) b com = packName com b n"
| "packRData (RDNAME n) b com = packName com b n"
| "packRData (RSOA None) b com = Inl IndexPanic"
| "packRData (RSOA (Some s)) b com =
     (case packName com b (soaNS s) of
        Inl e \<Rightarrow> Inl e
      | Inr (b1, com1) \<Rightarrow>
          (case packName com1 b1 (soaMBox s) of
             Inl e \<Rightarrow> Inl e
           | Inr (b2, com2) \<Rightarrow> appendTo b2 com2 (soaNumbers s)))"
| "packRData (RMX pref n) b com =
     (case packInt16 pref of Inl e \<Rightarrow> Inl e | Inr p \<Rightarrow> packName com (b @ p) n)"
| "packRData (RTXT ts) b com = appendTo b com (packTexts ts)"
| "packRData (RSRV prio weight port n) b com =
     (case concatFields [packInt16 prio, packInt16 weight, packInt16 port] of
        Inl e \<Rightarrow> Inl e
      | Inr p \<Rightarrow>
          (case packName noCompressor (b @ p) n of Inl e \<Rightarrow> Inl e | Inr (b', _) \<Rightarrow> Inr (b', com)))"
| "packRData (ROPT opts) b com = Inr (b @ concat (map packOption opts), com)"
| "packRData (RCAA crit tag val) b com =
     (if tag = [] then Inl ZeroSegLen
      else if 255 < length tag then Inl SegTooLong
      else Inr (b @ (if crit then CHR 0x01 else CHR 0x00) # char_of (length tag) # tag @ val, com))"

fun lengthRData :: "rdata \<Rightarrow> compressor \<Rightarrow> dns_error + nat" where
  "lengthRData (RA _) com = Inr 4"
| "lengthRData (RAAAA _) com = Inr 16"
| "lengthRData (RCNAME n) com = lengthNames com [n] []"
| "lengthRData (RNS n) com = lengthNames com [n] []"
| "lengthRData (RPTR n) com = lengthNames com [n] []"
| "lengthRData (RDNAME n) com = lengthNames com [n] []"
| "lengthRData (RSOA None) com = Inl IndexPanic"
| "lengthRData (RSOA (Some s)) com = map_sum id ((+) 20) (lengthNames com [soaNS s, soaMBox s] [])"
| "lengthRData (RMX _ n) com = map_sum id ((+) 2) (lengthNames com [n] [])"
| "lengthRData (RTXT ts) com = Inr (sum_list (map (\<lambda>s. 1 + length s) ts))"
| "lengthRData (RSRV _ _ _ n) com = map_sum id ((+) 6) (lengthNames noCompressor [n] [])"
| "lengthRData (ROPT opts) com = Inr (sum_list (map (\<lambda>opt. 4 + length (snd opt)) opts))"
| "lengthRData (RCAA _ tag val) com = Inr (2 + length tag + length val)"

definition packQuestion :: "question \<Rightarrow> bytes \<Rightarrow> compressor \<Rightarrow> dns_error + bytes \<times> compressor" where
  "packQuestion q b com =
     (case packName com b (qName q) of
        Inl e \<Rightarrow> Inl e
      | Inr (b', com') \<Rightarrow> Inr (b' @ putUint16 (qType q) @ putUint16 (qClass q), com'))"

definition packResource :: "resource \<Rightarrow> bytes \<Rightarrow> compressor \<Rightarrow> dns_error + bytes \<times> compressor" where
  "packResource r b com =
     (case packName com b (rName r) of
        Inl e \<Rightarrow> Inl e
      | Inr (b1, com1) \<Rightarrow>
          if rRecord r = RSOA None then Inl IndexPanic
          else
            (case packUint32 (rTTL r sdiv second) of
               Inl e \<Rightarrow> Inl e
             | Inr ttl \<Rightarrow>
                 (case lengthRData (rRecord r) com1 of
                    Inl e \<Rightarrow> Inl e
                  | Inr rlen \<Rightarrow>
                      (case packInt16 (int rlen) of
                         Inl e \<Rightarrow> Inl e
                       | Inr l \<Rightarrow>
                           packRData (rRecord r)
                             (b1 @ putUint16 (rtype (rRecord r)) @ putUint16 (rClass r) @ ttl @ l) com1))))"

fun packAll ::
  "('a \<Rightarrow> bytes \<Rightarrow> compressor \<Rightarrow> dns_error + bytes \<times> compressor) \<Rightarrow> 'a list \<Rightarrow> bytes \<Rightarrow> compressor
     \<Rightarrow> dns_error + bytes \<times> compressor" where
  "packAll pack [] b com = Inr (b, com)"
| "packAll pack (x # xs) b com =
     (case pack x b com of Inl e \<Rightarrow> Inl e | Inr (b', com') \<Rightarrow> packAll pack xs b' com')"

definition headerBits :: "message \<Rightarrow> 16 word" where
  "headerBits m =
     or (or (or (or (or (or (push_bit 11 (mOpCode m)) (mRCode m))
       (if mResponse m then 0x8000 else 0))
       (if mRecursionAvailable m then 0x80 else 0))
       (if mRecursionDesired m then 0x100 else 0))
       (if mTruncated m then 0x200 else 0))
       (if mAuthoritative m then 0x400 else 0)"

definition packHeader :: "message \<Rightarrow> dns_error + bytes" where
  \<comment> \<open>the number of additional records is not checked: the source tests \<open>nscount\<close> twice\<close>
  "packHeader m =
     (if uint (word_of_int (mID m) :: 16 word) \<noteq> mID m then Inl FieldOverflow
      else if and (mOpCode m) 0x0F \<noteq> mOpCode m then Inl FieldOverflow
      else if and (mRCode m) 0x0F \<noteq> mRCode m then Inl FieldOverflow
      else if unat (word_of_nat (length (mQuestions m)) :: 16 word) \<noteq> length (mQuestions m)
        then Inl TooManyQuestions
      else if unat (word_of_nat (length (mAnswers m)) :: 16 word) \<noteq> length (mAnswers m)
        then Inl TooManyAnswers
      else if unat (word_of_nat (length (mAuthorities m)) :: 16 word) \<noteq> length (mAuthorities m)
        then Inl TooManyAuthorities
      else
        Inr (putUint16 (word_of_int (mID m)) @ putUint16 (headerBits m)
          @ putUint16 (word_of_nat (length (mQuestions m))) @ putUint16 (word_of_nat (length (mAnswers m)))
          @ putUint16 (word_of_nat (length (mAuthorities m)))
          @ putUint16 (word_of_nat (length (mAdditionals m)))))"

definition packMessage :: "message \<Rightarrow> bytes \<Rightarrow> bool \<Rightarrow> dns_error + bytes" where
  "packMessage m b compress =
     (let com = (if compress then \<lparr>comTbl = Some [], comOffset = length b\<rparr> else noCompressor) in
      case packHeader m of
        Inl e \<Rightarrow> Inl e
      | Inr h \<Rightarrow>
          (case packAll packQuestion (mQuestions m) (b @ h) com of
             Inl e \<Rightarrow> Inl e
           | Inr (b1, com1) \<Rightarrow>
               (case packAll packResource (mAnswers m @ mAuthorities m @ mAdditionals m) b1 com1 of
                  Inl e \<Rightarrow> Inl e
                | Inr (b2, _) \<Rightarrow> Inr b2)))"

section \<open>Decoding\<close>

function unpackOptions :: "bytes \<Rightarrow> dns_error + (16 word \<times> bytes) list" where
  \<comment> \<open>the loop of \<open>OPT.Unpack\<close> over \<open>edns.Option.Unpack\<close>\<close>
  "unpackOptions b =
     (if b = [] then Inr []
      else if length b < 4 then Inl OptionLen
      else
        (let l = unat (uint16 (drop 2 b)) in
         if length b < 4 + l then Inl ShortBuffer
         else
           (case unpackOptions (drop (4 + l) b) of
              Inl e \<Rightarrow> Inl e
            | Inr opts \<Rightarrow> Inr ((uint16 b, take l (drop 4 b)) # opts))))"
  by pat_completeness auto
termination
  by (relation "measure length") auto

declare unpackOptions.simps [simp del]

function unpackTexts :: "bytes \<Rightarrow> dns_error + bytes list" where
  "unpackTexts b =
     (case b of
        [] \<Rightarrow> Inr []
      | c # r \<Rightarrow>
          if length b < byte c + 1 then Inl ResourceLen
          else
            (case unpackTexts (drop (byte c) r) of
               Inl e \<Rightarrow> Inl e
             | Inr ts \<Rightarrow> Inr (take (byte c) r # ts)))"
  by pat_completeness auto
termination
  by (relation "measure length") auto

declare unpackTexts.simps [simp del]

definition mapName :: "(bytes \<Rightarrow> rdata) \<Rightarrow> dns_error + bytes \<times> bytes \<Rightarrow> dns_error + rdata \<times> bytes" where
  "mapName f r = (case r of Inl e \<Rightarrow> Inl e | Inr (n, b) \<Rightarrow> Inr (f n, b))"

definition seconds32 :: "bytes \<Rightarrow> int" where
  \<comment> \<open>\<open>time.Duration(int32(nbo.Uint32(b))) * time.Second\<close>\<close>
  "seconds32 b = sint (uint32 b) * second"

definition unpackSOA :: "bytes option \<Rightarrow> bytes \<Rightarrow> dns_error + rdata \<times> bytes" where
  "unpackSOA d b =
     (case unpackFQDN d b of
        Inl e \<Rightarrow> Inl e
      | Inr (ns, b1) \<Rightarrow>
          (case unpackFQDN d b1 of
             Inl e \<Rightarrow> Inl e
           | Inr (mbox, b2) \<Rightarrow>
               if length b2 < 20 then Inl ResourceLen
               else
                 Inr (RSOA (Some \<lparr>soaNS = ns, soaMBox = mbox, soaSerial = uint (uint32 b2),
                   soaRefresh = seconds32 (drop 4 b2), soaRetry = seconds32 (drop 8 b2),
                   soaExpire = seconds32 (drop 12 b2), soaMinTTL = uint (uint32 (drop 16 b2)) * second\<rparr>),
                   drop 20 b2)))"

definition unpackCAA :: "bytes \<Rightarrow> dns_error + rdata \<times> bytes" where
  "unpackCAA b =
     (case b of
        c # t # r \<Rightarrow>
          if byte t = 0 then Inl ZeroSegLen
          else if length b < 2 + byte t then Inl ResourceLen
          else Inr (RCAA (odd (byte c)) (take (byte t) r) (drop (byte t) r), [])
      | _ \<Rightarrow> Inl ResourceLen)"

definition unpackRData :: "16 word \<Rightarrow> bytes option \<Rightarrow> bytes \<Rightarrow> dns_error + rdata \<times> bytes" where
  "unpackRData ty d b =
     (if ty = TypeA then
        (if length b < 4 then Inl ResourceLen else Inr (RA (take 4 b), drop 4 b))
      else if ty = TypeAAAA then
        (if length b < 16 then Inl ResourceLen else Inr (RAAAA (take 16 b), drop 16 b))
      else if ty = TypeNS then mapName RNS (unpackFQDN d b)
      else if ty = TypeCNAME then mapName RCNAME (unpackFQDN d b)
      else if ty = TypeSOA then unpackSOA d b
      else if ty = TypePTR then mapName RPTR (unpackFQDN d b)
      else if ty = TypeMX then
        (if length b < 2 then Inl ResourceLen
         else mapName (RMX (uint (uint16 b))) (unpackFQDN d (drop 2 b)))
      else if ty = TypeTXT then map_sum id (\<lambda>ts. (RTXT ts, [])) (unpackTexts b)
      else if ty = TypeSRV then
        (if length b < 6 then Inl ResourceLen
         else mapName (RSRV (uint (uint16 b)) (uint (uint16 (drop 2 b))) (uint (uint16 (drop 4 b))))
           (unpackFQDN None (drop 6 b)))
      else if ty = TypeDNAME then mapName RDNAME (unpackFQDN d b)
      else if ty = TypeOPT then map_sum id (\<lambda>opts. (ROPT opts, [])) (unpackOptions b)
      else if ty = TypeCAA then unpackCAA b
      else Inl UnknownType)"

definition unpackQuestion :: "bytes option \<Rightarrow> bytes \<Rightarrow> dns_error + question \<times> bytes" where
  "unpackQuestion d b =
     (case unpackFQDN d b of
        Inl e \<Rightarrow> Inl e
      | Inr (n, b1) \<Rightarrow>
          if length b1 < 4 then Inl ResourceLen
          else Inr (\<lparr>qName = n, qType = uint16 b1, qClass = uint16 (drop 2 b1)\<rparr>, drop 4 b1))"

definition unpackResource :: "bytes option \<Rightarrow> bytes \<Rightarrow> dns_error + resource \<times> bytes" where
  "unpackResource d b =
     (case unpackFQDN d b of
        Inl e \<Rightarrow> Inl e
      | Inr (n, b1) \<Rightarrow>
          if length b1 < 10 then Inl ResourceLen
          else
            (let rdlen = unat (uint16 (drop 8 b1)); b2 = drop 10 b1 in
             if length b2 < rdlen then Inl ResourceLen
             else
               (case unpackRData (uint16 b1) d (take rdlen b2) of
                  Inl e \<Rightarrow> Inl e
                | Inr (rd, left) \<Rightarrow>
                    if left \<noteq> [] then Inl ResTooLong
                    else Inr (\<lparr>rName = n, rClass = uint16 (drop 2 b1),
                      rTTL = uint (uint32 (drop 4 b1)) * second, rRecord = rd\<rparr>, drop rdlen b2))))"

fun unpackN :: "nat \<Rightarrow> (bytes \<Rightarrow> dns_error + 'a \<times> bytes) \<Rightarrow> bytes \<Rightarrow> dns_error + 'a list \<times> bytes" where
  "unpackN 0 unpack b = Inr ([], b)"
| "unpackN (Suc k) unpack b =
     (case unpack b of
        Inl e \<Rightarrow> Inl e
      | Inr (x, b1) \<Rightarrow>
          (case unpackN k unpack b1 of Inl e \<Rightarrow> Inl e | Inr (xs, b2) \<Rightarrow> Inr (x # xs, b2)))"

definition unpackHeader :: "bytes \<Rightarrow> dns_error + message \<times> (nat \<times> nat \<times> nat \<times> nat) \<times> bytes" where
  \<comment> \<open>the message without its sections, and how many entries each one has\<close>
  "unpackHeader b =
     (if length b < 12 then Inl ResourceLen
      else
        (let bits = uint16 (drop 2 b) in
         Inr (\<lparr>mID = uint (uint16 b), mResponse = (and bits 0x8000 > 0),
             mOpCode = and (drop_bit 11 bits) 0xF, mAuthoritative = (and bits 0x400 > 0),
             mTruncated = (and bits 0x200 > 0), mRecursionDesired = (and bits 0x100 > 0),
             mRecursionAvailable = (and bits 0x80 > 0), mRCode = and bits 0xF,
             mQuestions = [], mAnswers = [], mAuthorities = [], mAdditionals = []\<rparr>,
           (unat (uint16 (drop 4 b)), unat (uint16 (drop 6 b)), unat (uint16 (drop 8 b)),
            unat (uint16 (drop 10 b))),
           drop 12 b)))"

definition unpackSections ::
  "bytes option \<Rightarrow> message \<Rightarrow> nat \<times> nat \<times> nat \<times> nat \<Rightarrow> bytes \<Rightarrow> dns_error + message \<times> bytes" where
  "unpackSections d m counts b =
     (case counts of
        (qd, an, ns, ar) \<Rightarrow>
          (case unpackN qd (unpackQuestion d) b of
             Inl e \<Rightarrow> Inl e
           | Inr (qs, b1) \<Rightarrow>
               (case unpackN an (unpackResource d) b1 of
                  Inl e \<Rightarrow> Inl e
                | Inr (ans, b2) \<Rightarrow>
                    (case unpackN ns (unpackResource d) b2 of
                       Inl e \<Rightarrow> Inl e
                     | Inr (auths, b3) \<Rightarrow>
                         (case unpackN ar (unpackResource d) b3 of
                            Inl e \<Rightarrow> Inl e
                          | Inr (adds, b4) \<Rightarrow>
                              Inr (m\<lparr>mQuestions := qs, mAnswers := ans, mAuthorities := auths,
                                mAdditionals := adds\<rparr>, b4))))))"

definition unpackMessage :: "bytes \<Rightarrow> dns_error + message \<times> bytes" where
  "unpackMessage b =
     (case unpackHeader b of
        Inl e \<Rightarrow> Inl e
      | Inr (m, counts, b1) \<Rightarrow> unpackSections (Some b) m counts b1)"

end
