(* ===== verification/Dns_Handler.thy ===== *)
theory Dns_Handler
  imports Dns_Message
begin

text \<open>
  The handlers a resolver is put together from (\<open>dns/handler.go\<close>, \<open>dns/messagewriter.go\<close>,
  \<open>dns/zone.go\<close>): the message writer, \<open>Zone.ServeDNS\<close>, and the table of a \<open>ResolveMux\<close>. A writer is
  the message it has written so far; a slice out of range, which panics, is \<open>None\<close>.
\<close>

section \<open>The message writer\<close>

definition response :: "message \<Rightarrow> message" where
  "response m = m\<lparr>mResponse := True\<rparr>"

definition requestCopy :: "message \<Rightarrow> message" where
  \<comment> \<open>a shallow copy\<close>
  "requestCopy m = m"

definition writerRR :: "bytes \<Rightarrow> int \<Rightarrow> rdata \<Rightarrow> resource" where
  "writerRR name ttl rec = \<lparr>rName = name, rClass = ClassIN, rTTL = ttl, rRecord = rec\<rparr>"

definition writeAnswer :: "bytes \<Rightarrow> int \<Rightarrow> rdata \<Rightarrow> message \<Rightarrow> message" where
  "writeAnswer name ttl rec w = w\<lparr>mAnswers := mAnswers w @ [writerRR name ttl rec]\<rparr>"

definition writeAuthority :: "bytes \<Rightarrow> int \<Rightarrow> rdata \<Rightarrow> message \<Rightarrow> message" where
  "writeAuthority name ttl rec w = w\<lparr>mAuthorities := mAuthorities w @ [writerRR name ttl rec]\<rparr>"

definition copyRR :: "resource \<Rightarrow> resource" where
  \<comment> \<open>what the writer makes of a record it is given with its name, its TTL and its data\<close>
  "copyRR r = writerRR (rName r) (rTTL r) (rRecord r)"

definition writeMessage :: "message \<Rightarrow> message \<Rightarrow> message" where
  "writeMessage w m =
     w\<lparr>mRCode := mRCode m, mAuthoritative := mAuthoritative m,
       mRecursionAvailable := mRecursionAvailable m,
       mAnswers := mAnswers w @ map copyRR (mAnswers m),
       mAuthorities := mAuthorities w @ map copyRR (mAuthorities m),
       mAdditionals := mAdditionals w @ map copyRR (mAdditionals m)\<rparr>"

section \<open>A zone\<close>

record zone =
  zOrigin :: bytes
  zTTL :: int
  zSOA :: "soa option"
  zRRs :: "(bytes \<times> (16 word \<times> rdata list) list) list"

definition relativeName :: "zone \<Rightarrow> bytes \<Rightarrow> bytes option" where
  \<comment> \<open>\<open>name[:len(name)-len(z.Origin)-1]\<close>\<close>
  "relativeName z name =
     (if length name < length (zOrigin z) + 1 then None
      else Some (take (length name - length (zOrigin z) - 1) name))"

definition recordsOf :: "(16 word \<times> rdata list) list \<Rightarrow> 16 word \<Rightarrow> rdata list" where
  "recordsOf rrs ty = (case map_of rrs ty of None \<Rightarrow> [] | Some l \<Rightarrow> l)"

definition followCNAME :: "zone \<Rightarrow> 16 word \<Rightarrow> bytes \<Rightarrow> message \<Rightarrow> message option" where
  "followCNAME z ty name w =
     (case relativeName z name of
        None \<Rightarrow> None
      | Some dn \<Rightarrow>
          (case map_of (zRRs z) dn of
             None \<Rightarrow> Some w
           | Some rrs \<Rightarrow> Some (fold (writeAnswer name (zTTL z)) (recordsOf rrs ty) w)))"

fun answerRecords :: "zone \<Rightarrow> bool \<Rightarrow> question \<Rightarrow> rdata list \<Rightarrow> message \<times> bool \<Rightarrow> (message \<times> bool) option" where
  "answerRecords z recursion q [] acc = Some acc"
| "answerRecords z recursion q (rr # rrs) (w, _) =
     (let w1 = writeAnswer (qName q) (zTTL z) rr w in
      if recursion then
        (case rr of
           RSOA None \<Rightarrow> None
         | RCNAME name \<Rightarrow>
             (case followCNAME z (qType q) name w1 of
                None \<Rightarrow> None
              | Some w2 \<Rightarrow> answerRecords z recursion q rrs (w2, True))
         | _ \<Rightarrow> answerRecords z recursion q rrs (w1, True))
      else answerRecords z recursion q rrs (w1, True))"

definition answerQuestion :: "zone \<Rightarrow> bool \<Rightarrow> question \<Rightarrow> message \<times> bool \<Rightarrow> (message \<times> bool) option" where
  \<comment> \<open>the message so far and whether an answer was found\<close>
  "answerQuestion z recursion q acc =
     (if \<not> hasSuffix (qName q) (zOrigin z) then Some acc
      else if qType q = TypeSOA \<and> qName q = zOrigin z then
        Some (writeAnswer (qName q) (zTTL z) (RSOA (zSOA z)) (fst acc), True)
      else
        (case relativeName z (qName q) of
           None \<Rightarrow> None
         | Some dn \<Rightarrow>
             (case map_of (zRRs z) dn of
                None \<Rightarrow> Some acc
              | Some rrs \<Rightarrow> answerRecords z recursion q (recordsOf rrs (qType q)) acc)))"

fun answerQuestions :: "zone \<Rightarrow> bool \<Rightarrow> question list \<Rightarrow> message \<times> bool \<Rightarrow> (message \<times> bool) option" where
  "answerQuestions z recursion [] acc = Some acc"
| "answerQuestions z recursion (q # qs) acc =
     (case answerQuestion z recursion q acc of
        None \<Rightarrow> None
      | Some acc' \<Rightarrow> answerQuestions z recursion qs acc')"

definition serveZone :: "zone \<Rightarrow> message \<Rightarrow> message \<Rightarrow> message option" where
  \<comment> \<open>\<open>Zone.ServeDNS\<close> on a writer and a query\<close>
  "serveZone z w r =
     (case answerQuestions z (mRecursionDesired r) (mQuestions r) (w\<lparr>mAuthoritative := True\<rparr>, False) of
        None \<Rightarrow> None
      | Some (w1, found) \<Rightarrow>
          Some (if found then w1
                else
                  (let w2 = w1\<lparr>mRCode := NXDomain\<rparr> in
                   case zSOA z of
                     None \<Rightarrow> w2
                   | Some s \<Rightarrow> writeAuthority (zOrigin z) (zTTL z) (RSOA (Some s)) w2)))"

section \<open>The table of a multiplexer\<close>

datatype handler = ZoneHandler zone | RecursiveHandler

type_synonym muxEntry = "16 word \<times> bytes \<times> handler"

fun muxLookup :: "muxEntry list \<Rightarrow> question \<Rightarrow> handler" where
  "muxLookup [] q = RecursiveHandler"
| "muxLookup ((ty, suffix, h) # tbl) q =
     (if ty \<noteq> qType q \<and> ty \<noteq> TypeANY then muxLookup tbl q
      else if hasSuffix (qName q) suffix then h
      else muxLookup tbl q)"

definition mergeRequests :: "message \<Rightarrow> message \<Rightarrow> message" where
  "mergeRequests m from =
     m\<lparr>mOpCode := (if mOpCode m < mOpCode from then mOpCode from else mOpCode m),
       mRecursionDesired := mRecursionDesired m \<or> mRecursionDesired from,
       mQuestions := mQuestions from @ mQuestions m\<rparr>"

definition mergeResponses :: "message \<Rightarrow> message \<Rightarrow> message" where
  "mergeResponses m from =
     m\<lparr>mAuthoritative := mAuthoritative m \<and> mAuthoritative from,
       mRecursionAvailable := mRecursionAvailable m \<or> mRecursionAvailable from,
       mRCode := (if mRCode m < mRCode from then mRCode from else mRCode m),
       mQuestions := mQuestions from @ mQuestions m, mAnswers := mAnswers from @ mAnswers m,
       mAuthorities := mAuthorities from @ mAuthorities m,
       mAdditionals := mAdditionals from @ mAdditionals m\<rparr>"

definition responseFor :: "question \<Rightarrow> message \<Rightarrow> message" where
  "responseFor q res =
     (response res)\<lparr>mAnswers := filter (\<lambda>a. rName a = qName q) (mAnswers res)\<rparr>"

datatype dns_failure = UpstreamError | UnsupportedOp

type_synonym msgerr = "dns_failure + message"

definition recursiveAnswer :: "question \<Rightarrow> msgerr \<Rightarrow> message \<Rightarrow> message" where
  \<comment> \<open>\<open>recursiveHandler\<close> after \<open>Recur\<close>, on a writer made for the question, its \<open>Questions[0]\<close>\<close>
  "recursiveAnswer q me w =
     (case me of Inl e \<Rightarrow> w\<lparr>mRCode := ServFail\<rparr> | Inr m \<Rightarrow> writeMessage w (responseFor q m))"

end
