(* ===== verification/Commuting.thy ===== *)
theory Commuting
  imports Main
begin

text \<open>
  Systems whose steps commute. Processes that each wait for one event at a time, on channels with
  one sender and one receiver, have this property: of two steps that are possible, neither
  disables the other and their order does not matter. Then one complete run decides all of them.
\<close>

fun execAll :: "('l \<Rightarrow> 's \<Rightarrow> 's option) \<Rightarrow> 'l list \<Rightarrow> 's \<Rightarrow> 's option" where
  "execAll exec [] s = Some s"
| "execAll exec (l # ls) s = (case exec l s of None \<Rightarrow> None | Some t \<Rightarrow> execAll exec ls t)"

definition stuck :: "('l \<Rightarrow> 's \<Rightarrow> 's option) \<Rightarrow> 's \<Rightarrow> bool" where
  "stuck exec s \<longleftrightarrow> (\<forall>l. exec l s = None)"

lemma execAll_append:
  "execAll exec (ls @ ks) s = (case execAll exec ls s of None \<Rightarrow> None | Some t \<Rightarrow> execAll exec ks t)"
  by (induction ls arbitrary: s) (auto split: option.splits)

lemma execAll_trans:
  "execAll exec ls s = Some t \<Longrightarrow> execAll exec ks t = Some u \<Longrightarrow> execAll exec (ls @ ks) s = Some u"
  by (simp add: execAll_append)

locale commuting =
  fixes exec :: "'l \<Rightarrow> 's \<Rightarrow> 's option"
  assumes diamond: "exec a s = Some t \<Longrightarrow> exec b s = Some u \<Longrightarrow> a \<noteq> b
    \<Longrightarrow> \<exists>v. exec b t = Some v \<and> exec a u = Some v"
begin

lemma step_of_complete_run:
  assumes "execAll exec ls s = Some f" and "stuck exec f" and "exec b s = Some u"
  shows "\<exists>ks. execAll exec ks u = Some f \<and> Suc (length ks) = length ls"
  using assms(1,3)
proof (induction ls arbitrary: s u)
  case Nil
  then show ?case using assms(2) by (simp add: stuck_def)
next
  case (Cons a ls)
  then obtain t where t: "exec a s = Some t" "execAll exec ls t = Some f"
    by (auto split: option.splits)
  show ?case
  proof (cases "a = b")
    case True
    then show ?thesis using t Cons.prems(2) by auto
  next
    case False
    then obtain v where v: "exec b t = Some v" "exec a u = Some v"
      using diamond [OF t(1) Cons.prems(2)] by blast
    obtain ks where ks: "execAll exec ks v = Some f" "Suc (length ks) = length ls"
      using Cons.IH [OF t(2) v(1)] by blast
    then show ?thesis using v(2) by (intro exI [of _ "a # ks"]) simp
  qed
qed

lemma run_of_complete_run:
  assumes "execAll exec ls s = Some f" and "stuck exec f" and "execAll exec ks s = Some u"
  shows "\<exists>js. execAll exec js u = Some f \<and> length ks + length js = length ls"
  using assms(1,3)
proof (induction ks arbitrary: s ls)
  case Nil
  then show ?case by auto
next
  case (Cons b ks)
  then obtain t where t: "exec b s = Some t" "execAll exec ks t = Some u"
    by (auto split: option.splits)
  obtain ls' where ls': "execAll exec ls' t = Some f" "Suc (length ls') = length ls"
    using step_of_complete_run [OF Cons.prems(1) assms(2) t(1)] by blast
  then show ?case using Cons.IH [OF ls'(1) t(2)] by auto
qed

lemma stuck_of_complete_run:
  assumes "execAll exec ls s = Some f" and "stuck exec f" and "execAll exec ks s = Some u"
    and "stuck exec u"
  shows "u = f \<and> length ks = length ls"
proof -
  obtain js where js: "execAll exec js u = Some f" "length ks + length js = length ls"
    using run_of_complete_run [OF assms(1-3)] by blast
  then have "js = []" using assms(4) by (cases js) (auto simp: stuck_def)
  with js show ?thesis by simp
qed

end

end
