(* ===== verification/Dns_Mux.thy ===== *)
theory Dns_Mux
  imports Dns_Handler Commuting
begin

text \<open>
  \<open>ResolveMux.ServeDNS\<close> (\<open>dns/handler.go\<close>) with its goroutines. Every question of a query gets one,
  linked to the one of the question before it, and the last is linked to the caller; each pair
  meets on two unbuffered channels, \<open>recurc\<close> for a request that has to go upstream and the answer
  to it, and \<open>replyc\<close> for the reply and the result of sending it. A process is described by the
  one operation it will do next, with what it computes in between done in the same step. The
  slices of a message are immutable lists, so goroutines never share a backing array here.
\<close>

section \<open>The writer of the caller\<close>

record clientWriter =
  cwMsg :: message
  cwReq :: message
  cwErr :: "dns_failure option"
  cwSent :: "message list"       \<comment> \<open>what went upstream\<close>

definition questionMatched :: "question \<Rightarrow> message \<Rightarrow> bool" where
  "questionMatched q m \<longleftrightarrow>
     (\<exists>r \<in> set (mAnswers m @ mAuthorities m @ mAdditionals m). rName r = qName q)"

definition clientRecur :: "(message \<Rightarrow> msgerr) \<Rightarrow> clientWriter \<Rightarrow> msgerr \<times> clientWriter" where
  \<comment> \<open>\<open>clientWriter.Recur\<close>; the first argument is the round trip on the connection\<close>
  "clientRecur roundtrip w =
     (let req = (cwReq w)\<lparr>mQuestions :=
                   filter (\<lambda>q. \<not> questionMatched q (cwMsg w)) (mQuestions (cwReq w))\<rparr>;
          me = roundtrip req
      in (me, w\<lparr>cwReq := req, cwSent := cwSent w @ [req],
               cwErr := (case me of Inl e \<Rightarrow> Some e | Inr _ \<Rightarrow> cwErr w)\<rparr>))"

section \<open>The processes\<close>

datatype phase =
    Serve                            \<comment> \<open>about to call \<open>h.ServeDNS\<close>\<close>
  | RecurNext                        \<comment> \<open>\<open>Recur\<close>: receive from \<open>next.recurc\<close>\<close>
  | RecurSend message bool           \<comment> \<open>\<open>Recur\<close>: send the request; whether the next one waits too\<close>
  | RecurWait bool                   \<comment> \<open>\<open>Recur\<close>: receive the answer\<close>
  | RecurBack msgerr                 \<comment> \<open>\<open>Recur\<close>: hand the answer to the next one\<close>
  | Poll                             \<comment> \<open>\<open>Reply\<close>: receive from \<open>next.recurc\<close>\<close>
  | Pass message                     \<comment> \<open>\<open>Reply\<close>: pass the request on\<close>
  | PassWait                         \<comment> \<open>\<open>Reply\<close>: receive the answer to it\<close>
  | PassBack msgerr                  \<comment> \<open>\<open>Reply\<close>: hand the answer to the next one\<close>
  | Collect                          \<comment> \<open>\<open>Reply\<close>: receive the reply of the next one\<close>
  | Offer message                    \<comment> \<open>\<open>recurc\<close> is closed; send the reply\<close>
  | Ack                              \<comment> \<open>receive what became of the reply\<close>
  | AckBack msgerr                   \<comment> \<open>hand it to the next one\<close>
  | Ended                            \<comment> \<open>returned\<close>
  | Panicked

record goroutine =
  gHandler :: handler
  gQuestion :: question
  gQuery :: message
  gMsg :: message                    \<comment> \<open>what its writer has written\<close>
  gNext :: bool                      \<comment> \<open>there is a goroutine of an earlier question\<close>
  gPhase :: phase

datatype callerPhase = CRecv | CAnswer msgerr | CReply | CAck msgerr | CReturned

datatype process = Goroutine goroutine | Caller clientWriter callerPhase

definition newGoroutine :: "muxEntry list \<Rightarrow> message \<Rightarrow> bool \<Rightarrow> question \<Rightarrow> goroutine" where
  "newGoroutine tbl r hasNext q =
     (let muxm = r\<lparr>mQuestions := [q]\<rparr> in
      \<lparr>gHandler = muxLookup tbl q, gQuestion = q, gQuery = muxm, gMsg = response muxm, gNext = hasNext,
       gPhase = Serve\<rparr>)"

definition toReply :: "goroutine \<Rightarrow> goroutine" where
  \<comment> \<open>the start of \<open>Reply\<close>, up to its first operation on a channel\<close>
  "toReply g = g\<lparr>gPhase := (if gNext g then Poll else Offer (response (gMsg g)))\<rparr>"

definition startServe :: "goroutine \<Rightarrow> goroutine" where
  "startServe g =
     (case gHandler g of
        ZoneHandler z \<Rightarrow>
          (case serveZone z (gMsg g) (gQuery g) of
             None \<Rightarrow> g\<lparr>gPhase := Panicked\<rparr>
           | Some w \<Rightarrow> toReply (g\<lparr>gMsg := w\<rparr>))
      | RecursiveHandler \<Rightarrow>
          g\<lparr>gPhase := (if gNext g then RecurNext else RecurSend (requestCopy (gMsg g)) False)\<rparr>)"

fun localStep :: "process \<Rightarrow> process option" where
  "localStep (Goroutine g) = (if gPhase g = Serve then Some (Goroutine (startServe g)) else None)"
| "localStep (Caller _ _) = None"

definition recurReturn :: "bool \<Rightarrow> msgerr \<Rightarrow> goroutine \<Rightarrow> goroutine" where
  \<comment> \<open>the rest of \<open>Recur\<close> and of the handler once the answer has arrived\<close>
  "recurReturn forward me g =
     (let g1 = g\<lparr>gMsg := recursiveAnswer (gQuestion g) me (gMsg g)\<rparr> in
      if forward then g1\<lparr>gPhase := RecurBack me\<rparr> else toReply g1)"

definition ackReturn :: "msgerr \<Rightarrow> goroutine \<Rightarrow> goroutine" where
  "ackReturn me g = g\<lparr>gPhase := (if gNext g then AckBack me else Ended)\<rparr>"

fun recvRequest :: "(message \<Rightarrow> msgerr) \<Rightarrow> message \<Rightarrow> process \<Rightarrow> process option" where
  \<comment> \<open>receives a request on the channel \<open>recurc\<close> of the process before\<close>
  "recvRequest rt m (Goroutine g) =
     (case gPhase g of
        RecurNext \<Rightarrow> Some (Goroutine (g\<lparr>gPhase := RecurSend (mergeRequests (requestCopy (gMsg g)) m) True\<rparr>))
      | Poll \<Rightarrow> Some (Goroutine (g\<lparr>gPhase := Pass m\<rparr>))
      | _ \<Rightarrow> None)"
| "recvRequest rt m (Caller w CRecv) =
     (case clientRecur rt (w\<lparr>cwMsg := writeMessage (cwMsg w) m\<rparr>) of
        (me, w') \<Rightarrow> Some (Caller w' (CAnswer me)))"
| "recvRequest rt m (Caller w _) = None"

fun recvClosed :: "process \<Rightarrow> process option" where
  \<comment> \<open>finds that channel closed\<close>
  "recvClosed (Goroutine g) =
     (case gPhase g of
        RecurNext \<Rightarrow> Some (Goroutine (g\<lparr>gPhase := RecurSend (requestCopy (gMsg g)) False\<rparr>))
      | Poll \<Rightarrow> Some (Goroutine (g\<lparr>gPhase := Collect\<rparr>))
      | _ \<Rightarrow> None)"
| "recvClosed (Caller w CRecv) = Some (Caller w CReply)"
| "recvClosed (Caller w _) = None"

fun sendAnswer :: "process \<Rightarrow> (msgerr \<times> process) option" where
  \<comment> \<open>sends on that channel\<close>
  "sendAnswer (Goroutine g) =
     (case gPhase g of
        RecurBack me \<Rightarrow> Some (me, Goroutine (toReply g))
      | PassBack me \<Rightarrow> Some (me, Goroutine (g\<lparr>gPhase := Collect\<rparr>))
      | _ \<Rightarrow> None)"
| "sendAnswer (Caller w (CAnswer me)) = Some (me, Caller w CReply)"
| "sendAnswer (Caller w _) = None"

fun recvReply :: "message \<Rightarrow> process \<Rightarrow> process option" where
  \<comment> \<open>receives on the channel \<open>replyc\<close> of the process before; \<open>clientWriter.Reply\<close> always fails\<close>
  "recvReply m (Goroutine g) =
     (case gPhase g of
        Collect \<Rightarrow> Some (Goroutine (g\<lparr>gPhase := Offer (mergeResponses (response (gMsg g)) m)\<rparr>))
      | _ \<Rightarrow> None)"
| "recvReply m (Caller w CReply) =
     Some (Caller (w\<lparr>cwMsg := writeMessage (cwMsg w) m\<rparr>) (CAck (Inl UnsupportedOp)))"
| "recvReply m (Caller w _) = None"

fun sendAck :: "process \<Rightarrow> (msgerr \<times> process) option" where
  "sendAck (Goroutine g) =
     (case gPhase g of AckBack me \<Rightarrow> Some (me, Goroutine (g\<lparr>gPhase := Ended\<rparr>)) | _ \<Rightarrow> None)"
| "sendAck (Caller w (CAck me)) = Some (me, Caller w CReturned)"
| "sendAck (Caller w _) = None"

fun recurcClosed :: "process \<Rightarrow> bool" where
  "recurcClosed (Goroutine g) =
     (case gPhase g of Offer _ \<Rightarrow> True | Ack \<Rightarrow> True | AckBack _ \<Rightarrow> True | Ended \<Rightarrow> True | _ \<Rightarrow> False)"
| "recurcClosed (Caller _ _) = False"

fun meet :: "(message \<Rightarrow> msgerr) \<Rightarrow> process \<Rightarrow> process \<Rightarrow> (process \<times> process) option" where
  \<comment> \<open>a process and the one after it meet on one of the channels of the first\<close>
  "meet rt (Caller _ _) p = None"
| "meet rt (Goroutine c) p =
     (case gPhase c of
        RecurSend m f \<Rightarrow>
          map_option (\<lambda>p'. (Goroutine (c\<lparr>gPhase := RecurWait f\<rparr>), p')) (recvRequest rt m p)
      | RecurWait f \<Rightarrow> map_option (\<lambda>(me, p'). (Goroutine (recurReturn f me c), p')) (sendAnswer p)
      | Pass m \<Rightarrow> map_option (\<lambda>p'. (Goroutine (c\<lparr>gPhase := PassWait\<rparr>), p')) (recvRequest rt m p)
      | PassWait \<Rightarrow>
          map_option (\<lambda>(me, p'). (Goroutine (c\<lparr>gPhase := PassBack me\<rparr>), p')) (sendAnswer p)
      | Offer m \<Rightarrow> map_option (\<lambda>p'. (Goroutine (c\<lparr>gPhase := Ack\<rparr>), p')) (recvReply m p)
      | Ack \<Rightarrow> map_option (\<lambda>(me, p'). (Goroutine (ackReturn me c), p')) (sendAck p)
      | _ \<Rightarrow> None)"

section \<open>The system\<close>

datatype muxStep = Local nat | Meet nat | Closed nat

fun muxExec :: "(message \<Rightarrow> msgerr) \<Rightarrow> muxStep \<Rightarrow> process list \<Rightarrow> process list option" where
  "muxExec rt (Local i) s =
     (if i < length s then map_option (\<lambda>p. s[i := p]) (localStep (s ! i)) else None)"
| "muxExec rt (Meet i) s =
     (if Suc i < length s
      then map_option (\<lambda>(c, p). s[i := c, Suc i := p]) (meet rt (s ! i) (s ! Suc i)) else None)"
| "muxExec rt (Closed i) s =
     (if Suc i < length s \<and> recurcClosed (s ! i)
      then map_option (\<lambda>p. s[Suc i := p]) (recvClosed (s ! Suc i)) else None)"

definition newWriter :: "message \<Rightarrow> clientWriter" where
  \<comment> \<open>\<open>Client.do\<close>\<close>
  "newWriter r = \<lparr>cwMsg = response r, cwReq = requestCopy r, cwErr = None, cwSent = []\<rparr>"

definition muxInit :: "muxEntry list \<Rightarrow> message \<Rightarrow> process list" where
  "muxInit tbl r =
     (case mQuestions r of
        [] \<Rightarrow> []
      | q # qs \<Rightarrow> map Goroutine (newGoroutine tbl r False q # map (newGoroutine tbl r True) qs)
          @ [Caller (newWriter r) CRecv])"

section \<open>Steps commute\<close>

datatype turn = Alone | WithNext | WithPrev | Over

fun turnOf :: "process \<Rightarrow> turn" where
  \<comment> \<open>whom the next operation of a process is with: the one after it or the one before it\<close>
  "turnOf (Goroutine g) =
     (case gPhase g of
        Serve \<Rightarrow> Alone
      | RecurSend _ _ \<Rightarrow> WithNext | RecurWait _ \<Rightarrow> WithNext | Pass _ \<Rightarrow> WithNext | PassWait \<Rightarrow> WithNext
      | Offer _ \<Rightarrow> WithNext | Ack \<Rightarrow> WithNext
      | RecurNext \<Rightarrow> WithPrev | RecurBack _ \<Rightarrow> WithPrev | Poll \<Rightarrow> WithPrev | PassBack _ \<Rightarrow> WithPrev
      | Collect \<Rightarrow> WithPrev | AckBack _ \<Rightarrow> WithPrev
      | Ended \<Rightarrow> Over | Panicked \<Rightarrow> Over)"
| "turnOf (Caller _ CReturned) = Over"
| "turnOf (Caller _ _) = WithPrev"

lemma turn_local: "localStep p = Some p' \<Longrightarrow> turnOf p = Alone"
  by (cases p) (auto split: if_splits)

lemma turn_recvRequest: "recvRequest rt m p = Some p' \<Longrightarrow> turnOf p = WithPrev"
  by (induction rt m p rule: recvRequest.induct) (auto split: phase.splits)

lemma turn_recvClosed: "recvClosed p = Some p' \<Longrightarrow> turnOf p = WithPrev"
  by (induction p rule: recvClosed.induct) (auto split: phase.splits)

lemma turn_sendAnswer: "sendAnswer p = Some x \<Longrightarrow> turnOf p = WithPrev"
  by (induction p rule: sendAnswer.induct) (auto split: phase.splits)

lemma turn_recvReply: "recvReply m p = Some p' \<Longrightarrow> turnOf p = WithPrev"
  by (induction m p rule: recvReply.induct) (auto split: phase.splits)

lemma turn_sendAck: "sendAck p = Some x \<Longrightarrow> turnOf p = WithPrev"
  by (induction p rule: sendAck.induct) (auto split: phase.splits)

lemmas turn_prev = turn_recvRequest turn_recvClosed turn_sendAnswer turn_recvReply turn_sendAck

lemma turn_meet: "meet rt c p = Some x \<Longrightarrow> turnOf c = WithNext \<and> turnOf p = WithPrev"
  by (cases c) (auto split: phase.splits dest: turn_prev)

lemma meet_closed: "meet rt c p = Some x \<Longrightarrow> recurcClosed c \<Longrightarrow> recvClosed p = None"
  by (cases c; cases p rule: recvClosed.cases) (auto split: phase.splits)

lemma closed_local: "localStep p = Some p' \<Longrightarrow> \<not> recurcClosed p"
  by (cases p) (auto split: if_splits)

lemma closed_recvClosed: "recvClosed p = Some p' \<Longrightarrow> \<not> recurcClosed p"
  by (induction p rule: recvClosed.induct) (auto split: phase.splits)

lemma closed_sends:
  "sendAnswer p = Some (me, p') \<Longrightarrow> \<not> recurcClosed p" "recvRequest rt m p = Some p' \<Longrightarrow> \<not> recurcClosed p"
  "recvReply m p = Some p' \<Longrightarrow> \<not> recurcClosed p" "sendAck p = Some (me, p') \<Longrightarrow> recurcClosed p \<longrightarrow> recurcClosed p'"
proof -
  show "sendAnswer p = Some (me, p') \<Longrightarrow> \<not> recurcClosed p"
    by (induction p rule: sendAnswer.induct) (auto split: phase.splits)
  show "recvRequest rt m p = Some p' \<Longrightarrow> \<not> recurcClosed p"
    by (induction rt m p rule: recvRequest.induct) (auto split: phase.splits)
  show "recvReply m p = Some p' \<Longrightarrow> \<not> recurcClosed p"
    by (induction m p rule: recvReply.induct) (auto split: phase.splits)
  show "sendAck p = Some (me, p') \<Longrightarrow> recurcClosed p \<longrightarrow> recurcClosed p'"
    by (induction p rule: sendAck.induct) (auto split: phase.splits)
qed

lemma closed_meet:
  assumes "meet rt c p = Some (c', p')"
  shows "(recurcClosed c \<longrightarrow> recurcClosed c') \<and> (recurcClosed p \<longrightarrow> recurcClosed p')"
proof (cases c)
  case (Goroutine g)
  then show ?thesis
    using assms by (auto simp: ackReturn_def split: phase.splits dest: closed_sends)
qed (use assms in simp)

fun touches :: "muxStep \<Rightarrow> nat set" where
  "touches (Local i) = {i}"
| "touches (Meet i) = {i, Suc i}"
| "touches (Closed i) = {Suc i}"

lemma touches_turn:
  assumes "muxExec rt l s = Some t" and "k \<in> touches l"
  shows "turnOf (s ! k) = (case l of Local _ \<Rightarrow> Alone | Meet i \<Rightarrow> if k = i then WithNext else WithPrev
    | Closed _ \<Rightarrow> WithPrev)"
  using assms by (cases l) (auto split: if_splits dest: turn_local turn_meet turn_recvClosed)

lemma touches_disjoint:
  assumes "muxExec rt a s = Some t" and "muxExec rt b s = Some u" and "a \<noteq> b"
  shows "touches a \<inter> touches b = {}"
proof (rule equals0I)
  fix k assume k: "k \<in> touches a \<inter> touches b"
  note e = touches_turn [OF assms(1), of k] touches_turn [OF assms(2), of k]
  show False
    using e k assms
    by (cases a; cases b) (auto split: if_splits dest: meet_closed)
qed

lemma muxExec_frame:
  assumes "muxExec rt l s = Some t"
  shows "length t = length s" and "k \<notin> touches l \<Longrightarrow> t ! k = s ! k"
    and "recurcClosed (s ! k) \<Longrightarrow> k < length s \<Longrightarrow> recurcClosed (t ! k)"
proof -
  show "length t = length s" using assms by (cases l) (auto split: if_splits)
  show "k \<notin> touches l \<Longrightarrow> t ! k = s ! k" using assms by (cases l) (auto split: if_splits)
  show "recurcClosed (s ! k) \<Longrightarrow> k < length s \<Longrightarrow> recurcClosed (t ! k)"
    using assms
    by (cases l) (auto simp: nth_list_update split: if_splits
        dest: closed_local closed_recvClosed closed_meet)
qed

lemma muxExec_local:
  assumes "muxExec rt l s = Some t" and "length s' = length s" and "\<And>k. k \<in> touches l \<Longrightarrow> s' ! k = s ! k"
    and "\<And>k. recurcClosed (s ! k) \<Longrightarrow> k < length s \<Longrightarrow> recurcClosed (s' ! k)"
  shows "\<exists>t'. muxExec rt l s' = Some t' \<and> (\<forall>k < length s. t' ! k = (if k \<in> touches l then t ! k else s' ! k))"
  using assms by (cases l) (auto simp: nth_list_update split: if_splits)

lemma muxExec_diamond:
  assumes "muxExec rt a s = Some t" and "muxExec rt b s = Some u" and "a \<noteq> b"
  shows "\<exists>v. muxExec rt b t = Some v \<and> muxExec rt a u = Some v"
proof -
  note d = touches_disjoint [OF assms]
  note fa = muxExec_frame [OF assms(1)] and fb = muxExec_frame [OF assms(2)]
  obtain v where v: "muxExec rt b t = Some v"
    "\<And>k. k < length s \<Longrightarrow> v ! k = (if k \<in> touches b then u ! k else t ! k)"
    using muxExec_local [OF assms(2), of t] fa d by (metis disjoint_iff)
  obtain w where w: "muxExec rt a u = Some w"
    "\<And>k. k < length s \<Longrightarrow> w ! k = (if k \<in> touches a then t ! k else u ! k)"
    using muxExec_local [OF assms(1), of u] fb d by (metis disjoint_iff)
  have "v = w"
  proof (rule nth_equalityI)
    show l: "length v = length w"
      using muxExec_frame(1) [OF v(1)] muxExec_frame(1) [OF w(1)] fa(1) fb(1) by simp
    fix k assume "k < length v"
    then have k: "k < length s" using muxExec_frame(1) [OF v(1)] fa(1) by simp
    show "v ! k = w ! k" using v(2) [OF k] w(2) [OF k] fa(2) [of k] fb(2) [of k] d by auto
  qed
  with v(1) w(1) show ?thesis by blast
qed

interpretation mux: commuting "muxExec rt" for rt
  by unfold_locales (rule muxExec_diamond)

end
