(* ===== verification/Dns_Mux_Run.thy ===== *)
theory Dns_Mux_Run
  imports Dns_Mux
begin

text \<open>
  What the goroutines of \<open>ResolveMux.ServeDNS\<close> compute, as a function of the questions in their
  order, and that every schedule of them ends with exactly that.
\<close>

section \<open>The sequential reference\<close>

datatype served =
    Replies message                       \<comment> \<open>the merged reply\<close>
  | Asks message "msgerr \<Rightarrow> message"      \<comment> \<open>a request upstream, and the reply it leads to\<close>

definition noPanic :: "goroutine \<Rightarrow> bool" where
  "noPanic g \<longleftrightarrow>
     (case gHandler g of ZoneHandler z \<Rightarrow> serveZone z (gMsg g) (gQuery g) \<noteq> None | RecursiveHandler \<Rightarrow> True)"

definition ownMsg :: "goroutine \<Rightarrow> message" where
  "ownMsg g =
     (case gHandler g of
        ZoneHandler z \<Rightarrow> (case serveZone z (gMsg g) (gQuery g) of None \<Rightarrow> gMsg g | Some w \<Rightarrow> w)
      | RecursiveHandler \<Rightarrow> gMsg g)"

definition ownAnswer :: "goroutine \<Rightarrow> msgerr \<Rightarrow> message" where
  "ownAnswer g me = response (recursiveAnswer (gQuestion g) me (gMsg g))"

fun serveFirst :: "goroutine \<Rightarrow> served" where
  "serveFirst g =
     (case gHandler g of
        ZoneHandler _ \<Rightarrow> Replies (response (ownMsg g))
      | RecursiveHandler \<Rightarrow> Asks (requestCopy (gMsg g)) (ownAnswer g))"

fun serveAfter :: "served \<Rightarrow> goroutine \<Rightarrow> served" where
  "serveAfter (Replies m) g =
     (case gHandler g of
        ZoneHandler _ \<Rightarrow> Replies (mergeResponses (response (ownMsg g)) m)
      | RecursiveHandler \<Rightarrow> Asks (requestCopy (gMsg g)) (\<lambda>me. mergeResponses (ownAnswer g me) m))"
| "serveAfter (Asks req k) g =
     (case gHandler g of
        ZoneHandler _ \<Rightarrow> Asks req (\<lambda>me. mergeResponses (response (ownMsg g)) (k me))
      | RecursiveHandler \<Rightarrow>
          Asks (mergeRequests (requestCopy (gMsg g)) req) (\<lambda>me. mergeResponses (ownAnswer g me) (k me)))"

definition finishServe :: "(message \<Rightarrow> msgerr) \<Rightarrow> clientWriter \<Rightarrow> served \<Rightarrow> clientWriter" where
  \<comment> \<open>the end of \<open>ServeDNS\<close> in the caller\<close>
  "finishServe rt w sv =
     (case sv of
        Replies m \<Rightarrow> w\<lparr>cwMsg := writeMessage (cwMsg w) m\<rparr>
      | Asks req k \<Rightarrow>
          (case clientRecur rt (w\<lparr>cwMsg := writeMessage (cwMsg w) req\<rparr>) of
             (me, w') \<Rightarrow> w'\<lparr>cwMsg := writeMessage (cwMsg w') (k me)\<rparr>))"

section \<open>Runs\<close>

definition muxReaches :: "(message \<Rightarrow> msgerr) \<Rightarrow> process list \<Rightarrow> process list \<Rightarrow> bool" where
  "muxReaches rt s t \<longleftrightarrow> (\<exists>ls. execAll (muxExec rt) ls s = Some t)"

lemma muxReaches_refl: "muxReaches rt s s"
  unfolding muxReaches_def by (rule exI [of _ "[]"]) simp

lemma muxReaches_trans [trans]: "muxReaches rt s t \<Longrightarrow> muxReaches rt t u \<Longrightarrow> muxReaches rt s u"
  unfolding muxReaches_def using execAll_trans by (metis (no_types))

lemma muxReaches_step: "muxExec rt l s = Some t \<Longrightarrow> muxReaches rt s t"
  unfolding muxReaches_def by (rule exI [of _ "[l]"]) simp

lemma muxExec_append: "muxExec rt l s = Some t \<Longrightarrow> muxExec rt l (s @ r) = Some (t @ r)"
  by (cases l) (auto simp: nth_append list_update_append split: if_splits)

lemma muxReaches_append: "muxReaches rt s t \<Longrightarrow> muxReaches rt (s @ r) (t @ r)"
proof -
  have "execAll (muxExec rt) ls s = Some t \<Longrightarrow> execAll (muxExec rt) ls (s @ r) = Some (t @ r)" for ls
  proof (induction ls arbitrary: s)
    case (Cons l ls)
    then obtain u where u: "muxExec rt l s = Some u" "execAll (muxExec rt) ls u = Some t"
      by (auto split: option.splits)
    then show ?case using Cons.IH [OF u(2)] muxExec_append [OF u(1)] by simp
  qed simp
  then show "muxReaches rt s t \<Longrightarrow> muxReaches rt (s @ r) (t @ r)" by (auto simp: muxReaches_def)
qed

lemma muxReaches_local: "localStep p = Some p' \<Longrightarrow> muxReaches rt (xs @ p # ys) (xs @ p' # ys)"
  by (rule muxReaches_step [of _ "Local (length xs)"]) simp

lemma muxReaches_meet:
  "meet rt c p = Some (c', p') \<Longrightarrow> muxReaches rt (xs @ c # p # ys) (xs @ c' # p' # ys)"
  by (rule muxReaches_step [of _ "Meet (length xs)"]) (simp add: nth_append list_update_append)

lemma muxReaches_closed:
  "recurcClosed c \<Longrightarrow> recvClosed p = Some p' \<Longrightarrow> muxReaches rt (xs @ c # p # ys) (xs @ c # p' # ys)"
  by (rule muxReaches_step [of _ "Closed (length xs)"]) (simp add: nth_append list_update_append)

fun linked :: "goroutine list \<Rightarrow> bool" where
  "linked [] = True"
| "linked (g # gs) = (\<not> gNext g \<and> list_all gNext gs)"

lemma linked_append: "gs \<noteq> [] \<Longrightarrow> linked (gs @ hs) \<longleftrightarrow> linked gs \<and> list_all gNext hs"
  by (cases gs) auto

definition offering :: "goroutine list \<Rightarrow> message \<Rightarrow> bool" where
  "offering gs m \<longleftrightarrow> linked gs
     \<and> (\<exists>as g. gs = as @ [g] \<and> list_all (\<lambda>a. gPhase a = Ack) as \<and> gPhase g = Offer m)"

definition asking :: "goroutine \<Rightarrow> message \<Rightarrow> bool" where
  "asking g req \<longleftrightarrow> gPhase g = Pass req \<or> (\<exists>f. gPhase g = RecurSend req f)"

definition asked :: "goroutine \<Rightarrow> goroutine" where
  "asked g = g\<lparr>gPhase := (case gPhase g of RecurSend _ f \<Rightarrow> RecurWait f | _ \<Rightarrow> PassWait)\<rparr>"

definition answered :: "msgerr \<Rightarrow> goroutine \<Rightarrow> goroutine" where
  "answered me g =
     (case gPhase g of RecurSend _ f \<Rightarrow> recurReturn f me g | _ \<Rightarrow> g\<lparr>gPhase := PassBack me\<rparr>)"

lemma meet_asking:
  "asking g req \<Longrightarrow> recvRequest rt req p = Some p'
    \<Longrightarrow> meet rt (Goroutine g) p = Some (Goroutine (asked g), p')"
  by (auto simp: asking_def asked_def)

lemma meet_asked:
  "asking g req \<Longrightarrow> sendAnswer p = Some (me, p')
    \<Longrightarrow> meet rt (Goroutine (asked g)) p = Some (Goroutine (answered me g), p')"
  by (auto simp: asking_def asked_def answered_def recurReturn_def toReply_def Let_def)

fun serves :: "(message \<Rightarrow> msgerr) \<Rightarrow> served \<Rightarrow> goroutine list \<Rightarrow> bool" where
  "serves rt (Replies m) gs = offering gs m"
| "serves rt (Asks req k) gs =
     (linked gs \<and> (\<exists>as g. gs = as @ [g] \<and> asking g req
        \<and> (\<forall>me. \<exists>hs. muxReaches rt (map Goroutine (as @ [answered me g])) (map Goroutine hs)
             \<and> offering hs (k me))))"

lemma offering_collect:
  assumes "offering hs m" and "gPhase g = Collect" and "gNext g"
  shows "\<exists>gs. muxReaches rt (map Goroutine (hs @ [g])) (map Goroutine gs)
    \<and> offering gs (mergeResponses (response (gMsg g)) m)"
proof -
  obtain as h where h: "hs = as @ [h]" "list_all (\<lambda>a. gPhase a = Ack) as" "gPhase h = Offer m" "linked hs"
    using assms(1) by (auto simp: offering_def)
  let ?g = "g\<lparr>gPhase := Offer (mergeResponses (response (gMsg g)) m)\<rparr>"
  have "muxReaches rt (map Goroutine as @ [Goroutine h, Goroutine g])
      (map Goroutine as @ [Goroutine (h\<lparr>gPhase := Ack\<rparr>), Goroutine ?g])"
    using h(3) assms(2) by (intro muxReaches_meet) simp
  moreover have "linked ((as @ [h\<lparr>gPhase := Ack\<rparr>]) @ [?g])"
    using h(1,4) assms(3) by (cases as) auto
  ultimately show ?thesis
    using h(1,2) by (intro exI [of _ "(as @ [h\<lparr>gPhase := Ack\<rparr>]) @ [?g]"]) (auto simp: offering_def)
qed

lemma offering_poll:
  assumes "offering hs m" and "gPhase g = Poll" and "gNext g"
  shows "\<exists>gs. muxReaches rt (map Goroutine (hs @ [g])) (map Goroutine gs)
    \<and> offering gs (mergeResponses (response (gMsg g)) m)"
proof -
  obtain as h where h: "hs = as @ [h]" "gPhase h = Offer m" using assms(1) by (auto simp: offering_def)
  let ?g = "g\<lparr>gPhase := Collect\<rparr>"
  have "muxReaches rt (map Goroutine as @ [Goroutine h, Goroutine g])
      (map Goroutine as @ [Goroutine h, Goroutine ?g])"
    using h(2) assms(2) by (intro muxReaches_closed) simp_all
  then have "muxReaches rt (map Goroutine (hs @ [g])) (map Goroutine (hs @ [?g]))" using h(1) by simp
  with offering_collect [OF assms(1), of ?g rt] assms(3) show ?thesis
    by (auto intro: muxReaches_trans)
qed

lemma startServe_next:
  assumes "gNext g" and "noPanic g"
  shows "startServe g = (case gHandler g of
      ZoneHandler _ \<Rightarrow> g\<lparr>gMsg := ownMsg g, gPhase := Poll\<rparr>
    | RecursiveHandler \<Rightarrow> g\<lparr>gPhase := RecurNext\<rparr>)"
  using assms
  by (auto simp: startServe_def noPanic_def ownMsg_def toReply_def split: handler.splits option.splits)

lemma serves_first:
  assumes "\<not> gNext g" and "gPhase g = Serve" and "noPanic g"
  shows "\<exists>gs. muxReaches rt (map Goroutine [g]) (map Goroutine gs) \<and> serves rt (serveFirst g) gs"
proof (cases "gHandler g")
  case (ZoneHandler z)
  let ?g = "g\<lparr>gMsg := ownMsg g, gPhase := Offer (response (ownMsg g))\<rparr>"
  have "startServe g = ?g"
    using assms ZoneHandler
    by (auto simp: startServe_def noPanic_def ownMsg_def toReply_def split: option.splits)
  then have "muxReaches rt [Goroutine g] [Goroutine ?g]"
    using muxReaches_local [of "Goroutine g" "Goroutine ?g" rt "[]" "[]"] assms(2) by simp
  moreover have "offering [?g] (response (ownMsg g))"
    using assms(1) by (auto simp: offering_def)
  ultimately show ?thesis using ZoneHandler by (intro exI [of _ "[?g]"]) simp
next
  case RecursiveHandler
  let ?g = "g\<lparr>gPhase := RecurSend (requestCopy (gMsg g)) False\<rparr>"
  have "startServe g = ?g" using assms(1) RecursiveHandler by (simp add: startServe_def)
  then have r: "muxReaches rt [Goroutine g] [Goroutine ?g]"
    using muxReaches_local [of "Goroutine g" "Goroutine ?g" rt "[]" "[]"] assms(2) by simp
  have "offering [answered me ?g] (ownAnswer g me)" for me
    using assms(1) by (auto simp: offering_def answered_def recurReturn_def toReply_def ownAnswer_def Let_def)
  then have "\<forall>me. \<exists>hs. muxReaches rt (map Goroutine ([] @ [answered me ?g])) (map Goroutine hs)
      \<and> offering hs (ownAnswer g me)"
    using muxReaches_refl by (metis append_Nil)
  moreover have "asking ?g (requestCopy (gMsg g))" by (auto simp: asking_def)
  ultimately have "serves rt (Asks (requestCopy (gMsg g)) (ownAnswer g)) [?g]"
    using assms(1) by auto
  with r RecursiveHandler show ?thesis by (intro exI [of _ "[?g]"]) simp
qed

lemma linked_cases: "linked (as @ [h]) \<Longrightarrow> gNext g \<Longrightarrow> gNext h' = gNext h \<Longrightarrow> linked ((as @ [h']) @ [g])"
  by (cases as) auto

lemma asked_next [simp]: "gNext (asked g) = gNext g"
  by (simp add: asked_def)

lemma serves_after_replies:
  assumes "offering hs m" and "gNext g" and "gPhase g = Serve" and "noPanic g"
  shows "\<exists>gs. muxReaches rt (map Goroutine (hs @ [g])) (map Goroutine gs) \<and> serves rt (serveAfter (Replies m) g) gs"
proof -
  have l: "muxReaches rt (map Goroutine (hs @ [g])) (map Goroutine (hs @ [startServe g]))"
    using muxReaches_local [of "Goroutine g" "Goroutine (startServe g)" rt "map Goroutine hs" "[]"] assms(3)
    by simp
  show ?thesis
  proof (cases "gHandler g")
    case (ZoneHandler z)
    let ?g = "g\<lparr>gMsg := ownMsg g, gPhase := Poll\<rparr>"
    have "startServe g = ?g" using startServe_next [OF assms(2,4)] ZoneHandler by simp
    with l offering_poll [OF assms(1), of ?g rt] assms(2) ZoneHandler show ?thesis
      by (auto intro: muxReaches_trans)
  next
    case RecursiveHandler
    let ?p = "g\<lparr>gPhase := RecurNext\<rparr>" and ?g = "g\<lparr>gPhase := RecurSend (requestCopy (gMsg g)) False\<rparr>"
    obtain as h where h: "hs = as @ [h]" "gPhase h = Offer m" "linked hs"
      using assms(1) by (auto simp: offering_def)
    have "startServe g = ?p" using startServe_next [OF assms(2,4)] RecursiveHandler by simp
    moreover have "muxReaches rt (map Goroutine (hs @ [?p])) (map Goroutine (hs @ [?g]))"
      using muxReaches_closed [of "Goroutine h" "Goroutine ?p" "Goroutine ?g" rt "map Goroutine as" "[]"] h(1,2)
      by simp
    ultimately have r: "muxReaches rt (map Goroutine (hs @ [g])) (map Goroutine (hs @ [?g]))"
      using l by (auto intro: muxReaches_trans)
    have "\<exists>gs. muxReaches rt (map Goroutine (hs @ [answered me ?g])) (map Goroutine gs)
        \<and> offering gs (mergeResponses (ownAnswer g me) m)" for me
      using offering_poll [OF assms(1), of "answered me ?g" rt] assms(2)
      by (simp add: answered_def recurReturn_def toReply_def ownAnswer_def Let_def)
    then have "serves rt (Asks (requestCopy (gMsg g)) (\<lambda>me. mergeResponses (ownAnswer g me) m)) (hs @ [?g])"
      using h(1,3) assms(2) linked_append [of hs "[?g]"] by (auto simp: asking_def)
    with r RecursiveHandler show ?thesis by (intro exI [of _ "hs @ [?g]"]) simp
  qed
qed

lemma asking_passes:
  assumes "asking h req" and "recvRequest rt req (Goroutine p) = Some (Goroutine p')"
  shows "muxReaches rt (map Goroutine ((as @ [h]) @ [p])) (map Goroutine ((as @ [asked h]) @ [p']))"
  using muxReaches_meet [OF meet_asking [OF assms], of "map Goroutine as" "[]"] by simp

lemma asked_returns:
  assumes "asking h req" and "sendAnswer (Goroutine p) = Some (me, Goroutine p')"
    and "muxReaches rt (map Goroutine (as @ [answered me h])) (map Goroutine hs)"
  shows "muxReaches rt (map Goroutine ((as @ [asked h]) @ [p])) (map Goroutine (hs @ [p']))"
proof -
  have "muxReaches rt (map Goroutine ((as @ [asked h]) @ [p]))
      (map Goroutine (as @ [answered me h]) @ [Goroutine p'])"
    using muxReaches_meet [OF meet_asked [OF assms(1,2)], of rt "map Goroutine as" "[]"] by simp
  also have "muxReaches rt \<dots> (map Goroutine hs @ [Goroutine p'])"
    using assms(3) by (rule muxReaches_append)
  finally show ?thesis by simp
qed

lemma serves_asksI:
  assumes "linked (as @ [h])" and "gNext g" and "asking g req"
    and "\<And>me. \<exists>gs. muxReaches rt (map Goroutine ((as @ [asked h]) @ [answered me g])) (map Goroutine gs)
      \<and> offering gs (k me)"
  shows "serves rt (Asks req k) ((as @ [asked h]) @ [g])"
proof -
  have "linked ((as @ [asked h]) @ [g])" using linked_cases [OF assms(1,2)] by simp
  then show ?thesis using assms(3,4) by auto
qed

lemma serves_after_asks_zone:
  assumes h: "asking h req" "linked (as @ [h])" and g: "gNext g" "gPhase g = Poll"
    and k: "\<And>me. \<exists>hs. muxReaches rt (map Goroutine (as @ [answered me h])) (map Goroutine hs) \<and> offering hs (k me)"
  shows "\<exists>gs. muxReaches rt (map Goroutine ((as @ [h]) @ [g])) (map Goroutine gs)
    \<and> serves rt (Asks req (\<lambda>me. mergeResponses (response (gMsg g)) (k me))) gs"
proof -
  let ?g = "g\<lparr>gPhase := Pass req\<rparr>" and ?c = "g\<lparr>gPhase := Collect\<rparr>"
  have "\<exists>gs. muxReaches rt (map Goroutine ((as @ [asked h]) @ [answered me ?g])) (map Goroutine gs)
      \<and> offering gs (mergeResponses (response (gMsg g)) (k me))" for me
  proof -
    obtain hs where hs: "muxReaches rt (map Goroutine (as @ [answered me h])) (map Goroutine hs)"
      "offering hs (k me)" using k by blast
    have "muxReaches rt (map Goroutine ((as @ [asked h]) @ [answered me ?g])) (map Goroutine (hs @ [?c]))"
      by (rule asked_returns [OF h(1) _ hs(1)]) (simp add: answered_def)
    with offering_collect [OF hs(2), of ?c rt] g(1) show ?thesis by (auto intro: muxReaches_trans)
  qed
  then have "serves rt (Asks req (\<lambda>me. mergeResponses (response (gMsg g)) (k me))) ((as @ [asked h]) @ [?g])"
    using g(1) by (intro serves_asksI [OF h(2)]) (simp_all add: asking_def)
  moreover have "muxReaches rt (map Goroutine ((as @ [h]) @ [g])) (map Goroutine ((as @ [asked h]) @ [?g]))"
    by (rule asking_passes [OF h(1)]) (simp add: g(2))
  ultimately show ?thesis by blast
qed

lemma serves_after_asks_recursive:
  assumes h: "asking h req" "linked (as @ [h])" and g: "gNext g" "gPhase g = RecurNext"
    and k: "\<And>me. \<exists>hs. muxReaches rt (map Goroutine (as @ [answered me h])) (map Goroutine hs) \<and> offering hs (k me)"
  shows "\<exists>gs. muxReaches rt (map Goroutine ((as @ [h]) @ [g])) (map Goroutine gs)
    \<and> serves rt (Asks (mergeRequests (requestCopy (gMsg g)) req) (\<lambda>me. mergeResponses (ownAnswer g me) (k me))) gs"
proof -
  let ?q = "mergeRequests (requestCopy (gMsg g)) req"
  let ?g = "g\<lparr>gPhase := RecurSend ?q True\<rparr>"
  have "\<exists>gs. muxReaches rt (map Goroutine ((as @ [asked h]) @ [answered me ?g])) (map Goroutine gs)
      \<and> offering gs (mergeResponses (ownAnswer g me) (k me))" for me
  proof -
    let ?c = "g\<lparr>gMsg := recursiveAnswer (gQuestion g) me (gMsg g), gPhase := Poll\<rparr>"
    obtain hs where hs: "muxReaches rt (map Goroutine (as @ [answered me h])) (map Goroutine hs)"
      "offering hs (k me)" using k by blast
    have "muxReaches rt (map Goroutine ((as @ [asked h]) @ [answered me ?g])) (map Goroutine (hs @ [?c]))"
      using g(1)
      by (intro asked_returns [OF h(1) _ hs(1)]) (simp add: answered_def recurReturn_def toReply_def Let_def)
    with offering_poll [OF hs(2), of ?c rt] g(1) show ?thesis
      by (auto simp: ownAnswer_def intro: muxReaches_trans)
  qed
  then have "serves rt (Asks ?q (\<lambda>me. mergeResponses (ownAnswer g me) (k me))) ((as @ [asked h]) @ [?g])"
    using g(1) by (intro serves_asksI [OF h(2)]) (auto simp: asking_def)
  moreover have "muxReaches rt (map Goroutine ((as @ [h]) @ [g])) (map Goroutine ((as @ [asked h]) @ [?g]))"
    by (rule asking_passes [OF h(1)]) (simp add: g(2))
  ultimately show ?thesis by blast
qed

lemma serves_after_asks:
  assumes "serves rt (Asks req k) hs" and "gNext g" and "gPhase g = Serve" and "noPanic g"
  shows "\<exists>gs. muxReaches rt (map Goroutine (hs @ [g])) (map Goroutine gs) \<and> serves rt (serveAfter (Asks req k) g) gs"
proof -
  obtain as h where h: "hs = as @ [h]" "asking h req" "linked (as @ [h])"
    and k: "\<And>me. \<exists>hs. muxReaches rt (map Goroutine (as @ [answered me h])) (map Goroutine hs) \<and> offering hs (k me)"
    using assms(1) by auto
  have l: "muxReaches rt (map Goroutine (hs @ [g])) (map Goroutine (hs @ [startServe g]))"
    using muxReaches_local [of "Goroutine g" "Goroutine (startServe g)" rt "map Goroutine hs" "[]"] assms(3)
    by simp
  show ?thesis
  proof (cases "gHandler g")
    case (ZoneHandler z)
    let ?g = "g\<lparr>gMsg := ownMsg g, gPhase := Poll\<rparr>"
    have "startServe g = ?g" using startServe_next [OF assms(2,4)] ZoneHandler by simp
    with l serves_after_asks_zone [OF h(2,3) _ _ k, of ?g] assms(2) h(1) ZoneHandler show ?thesis
      by (auto intro: muxReaches_trans)
  next
    case RecursiveHandler
    let ?g = "g\<lparr>gPhase := RecurNext\<rparr>"
    have "startServe g = ?g" using startServe_next [OF assms(2,4)] RecursiveHandler by simp
    with l serves_after_asks_recursive [OF h(2,3) _ _ k, of ?g] assms(2) h(1) RecursiveHandler
    show ?thesis by (auto simp: ownAnswer_def intro: muxReaches_trans)
  qed
qed

lemma serves_all:
  assumes "\<not> gNext g" and "list_all gNext gs" and "list_all (\<lambda>g. gPhase g = Serve \<and> noPanic g) (g # gs)"
  shows "\<exists>hs. muxReaches rt (map Goroutine (g # gs)) (map Goroutine hs)
    \<and> serves rt (foldl serveAfter (serveFirst g) gs) hs"
  using assms(2,3)
proof (induction gs rule: rev_induct)
  case Nil
  then show ?case using serves_first [of g rt] assms(1) by simp
next
  case (snoc x gs)
  obtain hs where hs: "muxReaches rt (map Goroutine (g # gs)) (map Goroutine hs)"
    "serves rt (foldl serveAfter (serveFirst g) gs) hs" using snoc by auto
  have "muxReaches rt (map Goroutine ((g # gs) @ [x])) (map Goroutine (hs @ [x]))"
    using muxReaches_append [OF hs(1), of "[Goroutine x]"] by simp
  moreover have "\<exists>gs'. muxReaches rt (map Goroutine (hs @ [x])) (map Goroutine gs')
      \<and> serves rt (serveAfter (foldl serveAfter (serveFirst g) gs) x) gs'"
    using hs(2) snoc.prems serves_after_replies serves_after_asks
    by (cases "foldl serveAfter (serveFirst g) gs") auto
  ultimately show ?case by (auto intro: muxReaches_trans)
qed

section \<open>The end of a run\<close>

definition allEnded :: "goroutine list \<Rightarrow> bool" where
  "allEnded gs \<longleftrightarrow> list_all (\<lambda>g. gPhase g = Ended) gs"

lemma acks_return:
  assumes "linked (as @ [h])" and "list_all (\<lambda>a. gPhase a = Ack) as"
  shows "\<exists>gs. muxReaches rt (map Goroutine (as @ [ackReturn me h])) (map Goroutine gs) \<and> allEnded gs
    \<and> length gs = Suc (length as)"
  using assms
proof (induction as arbitrary: h rule: rev_induct)
  case Nil
  then show ?case
    by (intro exI [of _ "[ackReturn me h]"]) (simp add: ackReturn_def allEnded_def muxReaches_refl)
next
  case (snoc a as)
  have n: "gNext h" "linked (as @ [a])" using snoc.prems(1) linked_append [of "as @ [a]" "[h]"] by auto
  let ?h = "h\<lparr>gPhase := Ended\<rparr>"
  have "muxReaches rt (map Goroutine as @ [Goroutine a, Goroutine (ackReturn me h)])
      (map Goroutine as @ [Goroutine (ackReturn me a), Goroutine ?h])"
    using snoc.prems(2) n(1) by (intro muxReaches_meet) (simp add: ackReturn_def)
  moreover obtain gs where gs: "muxReaches rt (map Goroutine (as @ [ackReturn me a])) (map Goroutine gs)"
    "allEnded gs" "length gs = Suc (length as)"
    using snoc.IH [OF n(2)] snoc.prems(2) by auto
  ultimately have "muxReaches rt (map Goroutine ((as @ [a]) @ [ackReturn me h])) (map Goroutine (gs @ [?h]))"
    using muxReaches_append [OF gs(1), of "[Goroutine ?h]"] by (auto intro: muxReaches_trans)
  then show ?case using gs by (intro exI [of _ "gs @ [?h]"]) (simp add: allEnded_def)
qed

lemma offering_ends:
  assumes "offering hs m"
  shows "\<exists>gs. muxReaches rt (map Goroutine hs @ [Caller w CReply])
      (map Goroutine gs @ [Caller (w\<lparr>cwMsg := writeMessage (cwMsg w) m\<rparr>) CReturned])
    \<and> allEnded gs \<and> length gs = length hs"
proof -
  obtain as h where h: "hs = as @ [h]" "list_all (\<lambda>a. gPhase a = Ack) as" "gPhase h = Offer m" "linked hs"
    using assms by (auto simp: offering_def)
  let ?w = "w\<lparr>cwMsg := writeMessage (cwMsg w) m\<rparr>" and ?e = "Inl UnsupportedOp :: msgerr"
  have "muxReaches rt (map Goroutine hs @ [Caller w CReply])
      (map Goroutine as @ [Goroutine (h\<lparr>gPhase := Ack\<rparr>), Caller ?w (CAck ?e)])"
    unfolding h(1) using h(3)
      muxReaches_meet [of rt "Goroutine h" "Caller w CReply" _ _ "map Goroutine as" "[]"] by simp
  also have "muxReaches rt \<dots> (map Goroutine as @ [Goroutine (ackReturn ?e h), Caller ?w CReturned])"
    by (intro muxReaches_meet) (simp add: ackReturn_def)
  finally have r: "muxReaches rt (map Goroutine hs @ [Caller w CReply])
      (map Goroutine (as @ [ackReturn ?e h]) @ [Caller ?w CReturned])" by simp
  obtain gs where gs: "muxReaches rt (map Goroutine (as @ [ackReturn ?e h])) (map Goroutine gs)" "allEnded gs"
    "length gs = Suc (length as)" using acks_return [OF _ h(2)] h(1,4) by blast
  show ?thesis
    using muxReaches_trans [OF r muxReaches_append [OF gs(1)]] gs(2,3) h(1) by auto
qed

lemma serves_ends:
  assumes "serves rt sv hs"
  shows "\<exists>gs. muxReaches rt (map Goroutine hs @ [Caller w CRecv])
      (map Goroutine gs @ [Caller (finishServe rt w sv) CReturned]) \<and> allEnded gs"
proof (cases sv)
  case (Replies m)
  then have off: "offering hs m" using assms by simp
  then obtain as h where h: "hs = as @ [h]" "gPhase h = Offer m" by (auto simp: offering_def)
  have "muxReaches rt (map Goroutine hs @ [Caller w CRecv]) (map Goroutine hs @ [Caller w CReply])"
    using muxReaches_closed [of "Goroutine h" "Caller w CRecv" _ rt "map Goroutine as" "[]"] h by simp
  with offering_ends [OF off, of rt w] Replies show ?thesis
    by (auto simp: finishServe_def intro: muxReaches_trans)
next
  case (Asks req k)
  then obtain as h where h: "hs = as @ [h]" "asking h req"
    and k: "\<And>me. \<exists>gs. muxReaches rt (map Goroutine (as @ [answered me h])) (map Goroutine gs) \<and> offering gs (k me)"
    using assms by auto
  obtain me w' where w': "clientRecur rt (w\<lparr>cwMsg := writeMessage (cwMsg w) req\<rparr>) = (me, w')"
    by (metis prod.collapse)
  obtain gs where gs: "muxReaches rt (map Goroutine (as @ [answered me h])) (map Goroutine gs)" "offering gs (k me)"
    using k by blast
  have "muxReaches rt (map Goroutine hs @ [Caller w CRecv])
      (map Goroutine as @ [Goroutine (asked h), Caller w' (CAnswer me)])"
    using muxReaches_meet [OF meet_asking [OF h(2)], of rt "Caller w CRecv" _ "map Goroutine as" "[]"] h(1) w'
    by simp
  also have "muxReaches rt \<dots> (map Goroutine as @ [Goroutine (answered me h), Caller w' CReply])"
    by (intro muxReaches_meet meet_asked [OF h(2)]) simp
  finally have "muxReaches rt (map Goroutine hs @ [Caller w CRecv])
      (map Goroutine (as @ [answered me h]) @ [Caller w' CReply])" by simp
  from muxReaches_trans [OF this muxReaches_append [OF gs(1)]] offering_ends [OF gs(2), of rt w'] Asks w'
  show ?thesis by (auto simp: finishServe_def intro: muxReaches_trans)
qed

lemma ended_stuck:
  assumes "allEnded gs"
  shows "stuck (muxExec rt) (map Goroutine gs @ [Caller w CReturned])"
  unfolding stuck_def
proof
  fix l
  have e: "gPhase (gs ! i) = Ended" if "i < length gs" for i
    using assms that by (simp add: allEnded_def list_all_length)
  show "muxExec rt l (map Goroutine gs @ [Caller w CReturned]) = None"
    by (cases l) (auto simp: nth_append e less_Suc_eq)
qed

section \<open>Every schedule\<close>

definition muxServeDNS :: "(message \<Rightarrow> msgerr) \<Rightarrow> muxEntry list \<Rightarrow> message \<Rightarrow> clientWriter option" where
  \<comment> \<open>the reference for \<open>ServeDNS\<close>: the questions one after the other; \<open>None\<close> when it panics\<close>
  "muxServeDNS rt tbl r =
     (case mQuestions r of
        [] \<Rightarrow> None
      | q # qs \<Rightarrow>
          (let g = newGoroutine tbl r False q; gs = map (newGoroutine tbl r True) qs in
           if list_all noPanic (g # gs)
           then Some (finishServe rt (newWriter r) (foldl serveAfter (serveFirst g) gs)) else None))"

lemma muxServeDNS_run:
  assumes "muxServeDNS rt tbl r = Some w"
  shows "\<exists>gs. muxReaches rt (muxInit tbl r) (map Goroutine gs @ [Caller w CReturned]) \<and> allEnded gs"
proof -
  obtain q qs where q: "mQuestions r = q # qs"
    using assms by (cases "mQuestions r") (auto simp: muxServeDNS_def)
  let ?g = "newGoroutine tbl r False q" and ?gs = "map (newGoroutine tbl r True) qs"
  have np: "list_all noPanic (?g # ?gs)"
    and w: "w = finishServe rt (newWriter r) (foldl serveAfter (serveFirst ?g) ?gs)"
    using assms q by (auto simp: muxServeDNS_def Let_def split: if_splits)
  have "\<not> gNext ?g" "list_all gNext ?gs" "list_all (\<lambda>g. gPhase g = Serve \<and> noPanic g) (?g # ?gs)"
    using np by (auto simp: newGoroutine_def Let_def list_all_iff)
  from serves_all [OF this] obtain hs where hs: "muxReaches rt (map Goroutine (?g # ?gs)) (map Goroutine hs)"
    "serves rt (foldl serveAfter (serveFirst ?g) ?gs) hs" by blast
  have "muxInit tbl r = map Goroutine (?g # ?gs) @ [Caller (newWriter r) CRecv]"
    using q by (simp add: muxInit_def)
  with muxReaches_append [OF hs(1), of "[Caller (newWriter r) CRecv]"] serves_ends [OF hs(2), of "newWriter r"] w
  show ?thesis by (auto intro: muxReaches_trans)
qed

text \<open>
  C22: however the goroutines of a query are scheduled, it is answered. Every schedule takes the
  same number of steps, none gets stuck before, and all of them end in one state: every
  goroutine has returned, and the caller holds the message of the sequential reference, which
  takes the questions one after the other. This holds for any table of zones and recursive
  handlers, any number of questions and any answer from upstream, unless a zone panics.
\<close>

theorem mux_every_schedule:
  assumes "muxServeDNS rt tbl r = Some w"
  shows "\<exists>n. \<forall>ls s. execAll (muxExec rt) ls (muxInit tbl r) = Some s \<longrightarrow>
    length ls \<le> n \<and> (stuck (muxExec rt) s \<longleftrightarrow> length ls = n)
    \<and> (length ls = n \<longrightarrow> (\<exists>gs. s = map Goroutine gs @ [Caller w CReturned] \<and> allEnded gs))"
proof -
  obtain gs ks where gs: "execAll (muxExec rt) ks (muxInit tbl r) = Some (map Goroutine gs @ [Caller w CReturned])"
    "allEnded gs" using muxServeDNS_run [OF assms] by (auto simp: muxReaches_def)
  let ?f = "map Goroutine gs @ [Caller w CReturned]"
  have "length ls \<le> length ks \<and> (stuck (muxExec rt) s \<longleftrightarrow> length ls = length ks)
      \<and> (length ls = length ks \<longrightarrow> s = ?f)"
    if run: "execAll (muxExec rt) ls (muxInit tbl r) = Some s" for ls s
  proof -
    obtain js where js: "execAll (muxExec rt) js s = Some ?f" "length ls + length js = length ks"
      using mux.run_of_complete_run [OF gs(1) ended_stuck [OF gs(2)] run] by blast
    have "js = [] \<longleftrightarrow> stuck (muxExec rt) s"
      using js(1) ended_stuck [OF gs(2)] by (cases js) (auto simp: stuck_def split: option.splits)
    then show ?thesis using js by auto
  qed
  then show ?thesis using gs(2) by blast
qed

definition exampleMux :: "muxEntry list" where
  \<comment> \<open>IPv4 addresses from a zone, everything else from upstream\<close>
  "exampleMux = [(TypeA, [], ZoneHandler \<lparr>zOrigin = [], zTTL = second, zSOA = None, zRRs = []\<rparr>)]"

definition exampleMixed :: message where
  "exampleMixed = \<lparr>mID = 1, mResponse = False, mOpCode = 0, mAuthoritative = False, mTruncated = False,
     mRecursionDesired = True, mRecursionAvailable = False, mRCode = NoError,
     mQuestions = [\<lparr>qName = ''a.'', qType = TypeAAAA, qClass = ClassIN\<rparr>,
       \<lparr>qName = ''a.'', qType = TypeA, qClass = ClassIN\<rparr>],
     mAnswers = [], mAuthorities = [], mAdditionals = []\<rparr>"

theorem mux_every_schedule_witness:
  "\<exists>w n. length (cwSent w) = 1 \<and> (\<forall>ls s. execAll (muxExec (\<lambda>_. Inl UpstreamError)) ls (muxInit exampleMux exampleMixed) = Some s
    \<longrightarrow> length ls \<le> n \<and> (length ls = n \<longrightarrow> (\<exists>gs. s = map Goroutine gs @ [Caller w CReturned] \<and> allEnded gs)))"
proof -
  have "\<exists>w. muxServeDNS (\<lambda>_. Inl UpstreamError) exampleMux exampleMixed = Some w \<and> length (cwSent w) = 1"
    by (simp add: muxServeDNS_def exampleMux_def exampleMixed_def newGoroutine_def hasSuffix_def noPanic_def
        serveZone_def answerQuestion_def relativeName_def Let_def type_defs ownMsg_def finishServe_def
        clientRecur_def newWriter_def split: if_splits)
  then obtain w where w: "muxServeDNS (\<lambda>_. Inl UpstreamError) exampleMux exampleMixed = Some w"
    "length (cwSent w) = 1" by blast
  from mux_every_schedule [OF w(1)] w(2) show ?thesis by blast
qed

end
