(* ===== verification/Dns_Name_Codec.thy ===== *)
theory Dns_Name_Codec
  imports Dns_Name
begin

text \<open>
  The two directions of the name encoding: what the compressor appends is read back by the
  decompressor from every extension of the message, whatever has been written before, and the
  length it announces is the length it writes.
\<close>

section \<open>Names in a message\<close>

text \<open>
  \<open>name_at d m k n j\<close>: in the message \<open>d\<close> the name \<open>n\<close>, without the dot of the root, is written
  from \<open>k\<close> up to \<open>j\<close>, and its pointer, if it ends in one, goes to an index below \<open>m\<close>. Pointers that
  go down are followed without a cycle, which is what the table of the compressor relies on.
\<close>

inductive name_at :: "bytes \<Rightarrow> nat \<Rightarrow> nat \<Rightarrow> bytes \<Rightarrow> nat \<Rightarrow> bool" for d :: bytes where
  root: "k < length d \<Longrightarrow> d ! k = CHR 0x00 \<Longrightarrow> name_at d m k [] (Suc k)"
| label: "byte (d ! k) = length l \<Longrightarrow> l \<noteq> [] \<Longrightarrow> length l \<le> 63 \<Longrightarrow> take (length l) (drop (Suc k) d) = l
    \<Longrightarrow> name_at d m (k + 1 + length l) n j \<Longrightarrow> name_at d m k (l @ CHR ''.'' # n) j"
| pointer: "Suc k < length d \<Longrightarrow> isPointer (d ! k) \<Longrightarrow> unat (and (uint16 (drop k d)) 0x3FFF) = i
    \<Longrightarrow> i < m \<Longrightarrow> i < length d \<Longrightarrow> \<not> isPointer (d ! i) \<Longrightarrow> name_at d i i n j'
    \<Longrightarrow> name_at d m k n (k + 2)"

lemma name_at_less: "name_at d m k n j \<Longrightarrow> k < length d"
  by (induction rule: name_at.induct) auto

lemma name_at_mono: "name_at d m k n j \<Longrightarrow> m \<le> m' \<Longrightarrow> name_at d m' k n j"
proof (induction arbitrary: m' rule: name_at.induct)
  case (pointer k i m n j')
  from name_at.pointer [OF pointer(1-3) _ pointer(5-7)] pointer(4,9) show ?case by simp
qed (auto intro: name_at.intros)

lemma uint16_drop_append: "Suc k < length d \<Longrightarrow> uint16 (drop k d @ t) = uint16 (drop k d)"
  by (simp add: Cons_nth_drop_Suc [symmetric])

lemma name_at_append: "name_at d m k n j \<Longrightarrow> name_at (d @ t) m k n j"
proof (induction rule: name_at.induct)
  case (label k l m n j)
  have "k + 1 + length l < length d" using name_at_less [OF label(5)] .
  then show ?case
    using label by (intro name_at.label) (auto simp: nth_append)
next
  case (pointer k i m n j')
  then show ?case
    by (intro name_at.pointer [where i = i]) (auto simp: nth_append uint16_drop_append)
qed (auto intro: name_at.root simp: nth_append)

lemma top2_8: "unat (and (w :: 8 word) 0xC0) = unat w div 64 * 64"
proof -
  have m: "(0xC0 :: 8 word) = and (mask (2 + 6)) (not (mask 6))"
    by (simp add: mask_eq_exp_minus_1)
  have "and w 0xC0 = push_bit 6 (take_bit 2 (drop_bit 6 w))"
    unfolding m by (rule slice_eq_mask [symmetric])
  moreover have "unat w < 2 ^ LENGTH(8)" by (rule unsigned_less)
  ultimately show ?thesis
    by (simp add: unsigned_push_bit_eq unsigned_take_bit_eq unsigned_drop_bit_eq)
      (simp add: take_bit_eq_mod push_bit_eq_mult drop_bit_eq_div)
qed

lemma low14: "unat (and (w :: 16 word) 0x3FFF) = unat w mod 16384"
proof -
  have "(0x3FFF :: 16 word) = mask 14" by (simp add: mask_eq_exp_minus_1)
  then have "and w 0x3FFF = take_bit 14 w" by (simp add: take_bit_eq_mask)
  then show ?thesis by (simp add: unsigned_take_bit_eq) (simp add: take_bit_eq_mod)
qed

lemma or14:
  assumes w: "unat (w :: 16 word) < 16384"
  shows "unat (or w 0xC000) = unat w + 0xC000"
proof -
  have m: "(0xC000 :: 16 word) = and (mask (2 + 14)) (not (mask 14))"
    by (simp add: mask_eq_exp_minus_1)
  have "unat (drop_bit 14 w) = 0"
    using w by (simp only: unat_drop_bit_eq) (simp add: drop_bit_eq_div)
  then have "drop_bit 14 w = 0" by (simp only: unat_eq_0)
  moreover have "and w 0xC000 = push_bit 14 (take_bit 2 (drop_bit 14 w))"
    unfolding m by (rule slice_eq_mask [symmetric])
  ultimately have "and w 0xC000 = 0" by simp
  then have "or w 0xC000 = w + 0xC000" using disjunctive_add_eq_or [of w "0xC000"] by simp
  moreover have "unat (w + 0xC000) = unat w + 0xC000"
    using w by (simp add: unat_word_ariths)
  ultimately show ?thesis by simp
qed

lemma isPointer_iff: "isPointer c \<longleftrightarrow> 64 \<le> byte c"
proof -
  have "unat (word_of_nat (byte c) :: 8 word) = byte c"
    by (simp add: unat_of_nat take_bit_nat_eq_self)
  then have "unat (and (word_of_nat (byte c) :: 8 word) 0xC0) = byte c div 64 * 64"
    by (simp only: top2_8)
  moreover have "isPointer c \<longleftrightarrow> 0 < unat (and (word_of_nat (byte c) :: 8 word) 0xC0)"
    by (simp add: isPointer_def word_gt_0 unat_gt_0)
  ultimately show ?thesis by (simp add: div_greater_zero_iff)
qed

lemma drop_nth_Cons: "k < length d \<Longrightarrow> drop k d = d ! k # drop (Suc k) d"
  by (simp add: Cons_nth_drop_Suc)

definition segment :: "bytes \<Rightarrow> nat \<Rightarrow> nat \<Rightarrow> bytes" where
  "segment d i j = take (j - i) (drop i d)"

lemma name_at_bounds: "name_at d m k n j \<Longrightarrow> k < j \<and> j \<le> length d"
  by (induction rule: name_at.induct) auto

lemma segment_Cons: "k < j \<Longrightarrow> j \<le> length d \<Longrightarrow> segment d k j = d ! k # segment d (Suc k) j"
  by (simp add: segment_def drop_nth_Cons take_Cons' )

lemma segment_append: "k \<le> i \<Longrightarrow> i \<le> j \<Longrightarrow> segment d k j = segment d k i @ segment d i j"
  by (simp add: segment_def take_add [symmetric] flip: drop_drop)
    (metis add_diff_inverse_nat diff_add_assoc2 drop_drop le_add_diff_inverse2 not_less take_add)

lemma segment_drop: "k \<le> j \<Longrightarrow> segment d k j @ drop j d = drop k d"
  by (metis append_take_drop_id drop_drop le_add_diff_inverse2 segment_def)

lemma unpack_name_at:
  assumes "name_at d m k n j" and "\<forall>v \<in> set visited. m \<le> v"
  shows "unpackName (Some d) acc (segment d k j @ s) visited
    = Inr (if acc @ n = [] then ''.'' else acc @ n, s)"
  using assms
proof (induction arbitrary: acc visited s rule: name_at.induct)
  case (root k m)
  then show ?case by (simp add: unpackName.simps segment_Cons) (simp add: segment_def)
next
  case (label k l m n j)
  let ?i = "k + 1 + length l"
  have j: "?i < j" "j \<le> length d" using name_at_bounds [OF label(5)] by auto
  have "segment d (Suc k) ?i = l" using label(4) by (simp add: segment_def)
  then have sl: "segment d k j = d ! k # l @ segment d ?i j"
    using j segment_append [of "Suc k" ?i j d] by (simp add: segment_Cons)
  have "d ! k \<noteq> CHR 0x00" using label(1,2) by auto
  moreover have "\<not> isPointer (d ! k)" using label(1,3) by (simp add: isPointer_iff)
  ultimately show ?case
    using label(1,2) label(6) [OF label(7), of "acc @ l @ ''.''" s]
    by (subst unpackName.simps) (simp add: sl)
next
  case (pointer k i m n j')
  have sl: "segment d k (k + 2) = [d ! k, d ! Suc k]"
    using pointer(1) by (simp add: segment_Cons) (simp add: segment_def)
  have "uint16 (d ! k # d ! Suc k # s) = uint16 (drop k d)"
    using pointer(1) by (simp add: drop_nth_Cons)
  then have "deref d (uint16 (d ! k # d ! Suc k # s)) visited = Inr i"
    using pointer by (auto simp: deref_def Let_def)
  moreover have "d ! k \<noteq> CHR 0x00" using pointer(2) by (auto simp: isPointer_iff)
  moreover have "unpackName (Some d) acc (drop i d) (visited @ [i])
      = Inr (if acc @ n = [] then ''.'' else acc @ n, drop j' d)"
  proof -
    have "\<forall>v \<in> set (visited @ [i]). i \<le> v" using pointer(4,9) by auto
    from pointer(8) [OF this, of acc "drop j' d"] show ?thesis
      using segment_drop [of i j' d] name_at_bounds [OF pointer(7)] by simp
  qed
  ultimately show ?case
    unfolding sl using pointer(2) by (subst unpackName.simps) (simp del: uint16.simps)
qed

section \<open>What the compressor writes\<close>

definition entry_ok :: "bytes \<Rightarrow> bytes \<times> nat \<Rightarrow> bool" where
  "entry_ok d e \<longleftrightarrow> snd e < length d \<and> \<not> isPointer (d ! snd e)
     \<and> (\<exists>j. name_at d (snd e) (snd e) (fst e) j)"

lemma entry_ok_append: "entry_ok d e \<Longrightarrow> entry_ok (d @ t) e"
  by (auto simp: entry_ok_def nth_append intro: name_at_append)

lemma pointerTo_spec:
  assumes "pointerTo i = Inr ptr" and "i < 16384"
  shows "\<exists>c1 c2. ptr = [c1, c2] \<and> isPointer c1
    \<and> (\<forall>s. unat (and (uint16 (ptr @ s)) 0x3FFF) = i)"
proof -
  let ?w = "word_of_nat i :: 16 word"
  have u: "unat ?w = i" and p: "ptr = putUint16 (or ?w 0xC000)"
    using assms(1) by (auto simp: pointerTo_def Let_def split: if_splits)
  have o: "unat (or ?w 0xC000) = i + 0xC000" using or14 [of ?w] u assms(2) by simp
  have "unat (and (uint16 (ptr @ s)) 0x3FFF) = i" for s
    unfolding p u16.dec_enc low14 o using assms(2) by (simp add: mod_if)
  moreover have "isPointer (char_of (unat (or ?w 0xC000) div 256))"
    using o assms(2) by (simp add: isPointer_iff)
  ultimately show ?thesis using p by (auto simp: putUint16_def)
qed

lemma tblAdd_spec:
  assumes "tblAdd com n pos = Inr com'" and "comOffset com = 0"
  shows "comOffset com' = 0
    \<and> comTbl com' = map_option (\<lambda>t. (n, pos) # t) (comTbl com)"
  using assms by (cases com) (auto simp: tblAdd_def split: option.splits if_splits)

lemma hasSuffix_iff: "hasSuffix s x \<longleftrightarrow> (\<exists>p. s = p @ x)"
  by (auto simp: hasSuffix_def) (metis append_take_drop_id)

lemma indexByte_take:
  assumes "indexByte s c = Some i"
  shows "s = take i s @ c # drop (Suc i) s" and "i < length s"
  using indexByte_SomeD [OF assms] by (auto simp: id_take_nth_drop)

definition tbl_pending :: "bytes \<Rightarrow> nat \<Rightarrow> bytes \<Rightarrow> compressor \<Rightarrow> bool" where
  \<comment> \<open>every entry is written out, or of a longer name than the one that follows\<close>
  "tbl_pending b m fqdn com \<longleftrightarrow> comOffset com = 0
     \<and> (\<forall>t e. comTbl com = Some t \<longrightarrow> e \<in> set t \<longrightarrow>
          (snd e < m \<and> entry_ok b e) \<or> length fqdn < length (fst e))"

lemma tbl_pending_lookup:
  assumes "tbl_pending b m fqdn com" and "tblLookup com fqdn = Some i"
  shows "i < m \<and> entry_ok b (fqdn, i)"
proof -
  obtain t where "comTbl com = Some t" "(fqdn, i) \<in> set t"
    using assms(2) by (auto simp: tblLookup_def bind_eq_Some_conv dest: map_of_SomeD)
  then show ?thesis using assms(1) by (force simp: tbl_pending_def)
qed

definition dropRoot :: "bytes \<Rightarrow> bytes" where
  "dropRoot n = (if n = ''.'' then [] else n)"

lemma hasSuffix_drop: "\<not> hasSuffix n x \<Longrightarrow> \<not> hasSuffix (drop k n) x"
  by (metis append_assoc append_take_drop_id hasSuffix_iff)

lemma dropRoot_rest:
  assumes "indexByte n (CHR ''.'') = Some i" and "\<not> hasSuffix n ''..''"
  shows "n = take i n @ CHR ''.'' # dropRoot (drop (Suc i) n)"
proof -
  have n: "n = take i n @ CHR ''.'' # drop (Suc i) n" by (rule indexByte_take(1) [OF assms(1)])
  have "drop (Suc i) n \<noteq> ''.''"
  proof
    assume "drop (Suc i) n = ''.''"
    with n have "n = take i n @ ''..''" by simp
    then show False using assms(2) by (metis hasSuffix_iff)
  qed
  with n show ?thesis by (simp add: dropRoot_def)
qed

definition packed :: "bytes \<Rightarrow> nat \<Rightarrow> bytes \<Rightarrow> compressor \<Rightarrow> bytes \<Rightarrow> compressor \<Rightarrow> bool" where
  \<comment> \<open>the name was appended, and the new entries of the table point at what was written\<close>
  "packed b m n com b' com' \<longleftrightarrow> comOffset com' = 0
     \<and> (\<exists>s es. b' = b @ s \<and> comTbl com' = map_option ((@) es) (comTbl com) \<and> list_all (entry_ok b') es)
     \<and> name_at b' m (length b) (dropRoot n) (length b')"

lemma packedI:
  assumes "comOffset com' = 0" and "b' = b @ s" and "comTbl com' = map_option ((@) es) (comTbl com)"
    and "list_all (entry_ok b') es" and "name_at b' m (length b) (dropRoot n) (length b')"
  shows "packed b m n com b' com'"
  using assms by (auto simp: packed_def)

lemma map_option_append_Nil [simp]: "map_option ((@) []) x = x"
  by (cases x) simp_all

lemma packed_root:
  assumes "comOffset com = 0" and "n = ''.'' \<or> n = []"
  shows "packed b m n com (b @ [CHR 0x00]) com"
proof (rule packedI [where s = "[CHR 0x00]" and es = "[]"])
  have "name_at (b @ [CHR 0x00]) m (length b) [] (Suc (length b))"
    by (rule name_at.root) (simp_all add: nth_append)
  then show "name_at (b @ [CHR 0x00]) m (length b) (dropRoot n) (length (b @ [CHR 0x00]))"
    using assms(2) by (auto simp: dropRoot_def)
qed (use assms in simp_all)

lemma packed_pointer:
  assumes "comOffset com = 0" and "pointerTo i = Inr ptr" and "i < m" and "entry_ok b (n, i)"
    and "i < 16384" and "n \<noteq> ''.''"
  shows "packed b m n com (b @ ptr) com"
proof -
  obtain c1 c2 where c: "ptr = [c1, c2]" "isPointer c1"
    "\<And>s. unat (and (uint16 (ptr @ s)) 0x3FFF) = i"
    using pointerTo_spec [OF assms(2,5)] by blast
  have e: "entry_ok (b @ ptr) (n, i)" using entry_ok_append [OF assms(4)] .
  then obtain j where "name_at (b @ ptr) i i n j" by (auto simp: entry_ok_def)
  moreover have "uint16 (drop (length b) (b @ ptr)) = uint16 ptr" by simp
  ultimately have "name_at (b @ ptr) m (length b) n (length b + 2)"
    using c(1,2) c(3) [of "[]"] assms(3) e
    by (intro name_at.pointer [where i = i]) (auto simp: entry_ok_def nth_append)
  then show ?thesis
    using assms c(1) by (intro packedI [where s = ptr and es = "[]"]) (simp_all add: dropRoot_def)
qed

lemma packed_label:
  assumes i: "indexByte n (CHR ''.'') = Some i" "0 < i" "i \<le> 63"
    and com1: "tblAdd com n (length b) = Inr com1" "comOffset com = 0"
    and n: "n \<noteq> ''.''" "\<not> hasSuffix n ''..''" and m: "m \<le> length b"
    and rest: "packed (b @ char_of i # take i n) m (drop (Suc i) n) com1 b' com'"
  shows "packed b m n com b' com'"
proof -
  obtain s es where s: "b' = (b @ char_of i # take i n) @ s" "comOffset com' = 0"
    "comTbl com' = map_option ((@) es) (comTbl com1)" "list_all (entry_ok b') es"
    and at: "name_at b' m (length (b @ char_of i # take i n)) (dropRoot (drop (Suc i) n)) (length b')"
    using rest by (auto simp: packed_def)
  have l: "length (take i n) = i" using indexByte_take(2) [OF i(1)] by simp
  have b: "b' ! length b = char_of i" "byte (b' ! length b) = i" using s(1) i(3) by simp_all
  have "name_at b' m (length b) (take i n @ CHR ''.'' # dropRoot (drop (Suc i) n)) (length b')"
    using at s(1) b i l by (intro name_at.label) auto
  then have full: "name_at b' m (length b) n (length b')"
    using dropRoot_rest [OF i(1) n(2)] by simp
  then have "entry_ok b' (n, length b)"
    using name_at_mono [OF full m] name_at_less [OF full] b i(3)
    by (auto simp: entry_ok_def isPointer_iff)
  then show ?thesis
    using s full n(1) tblAdd_spec [OF com1]
    by (intro packedI [where s = "char_of i # take i n @ s" and es = "es @ [(n, length b)]"])
      (cases "comTbl com"; simp add: dropRoot_def)+
qed

lemma tbl_pending_label:
  assumes "tbl_pending b m n com" and "tblAdd com n (length b) = Inr com1"
    and "indexByte n (CHR ''.'') = Some i"
  shows "tbl_pending (b @ s) m (drop (Suc i) n) com1"
proof -
  have "length (drop (Suc i) n) < length n" using indexByte_take(2) [OF assms(3)] by simp
  then show ?thesis
    using assms(1) tblAdd_spec [OF assms(2)] unfolding tbl_pending_def
    by (cases "comTbl com") (auto intro: entry_ok_append less_trans)
qed

lemma packName_packed:
  assumes "packName com b n = Inr (b', com')" and "tbl_pending b m n com" and "m \<le> length b"
    and "length b' \<le> 16384" and "\<not> hasSuffix n ''..''"
  shows "packed b m n com b' com'"
  using assms
proof (induction com b n rule: packName.induct)
  case (1 com b n)
  have off: "comOffset com = 0" using "1.prems"(2) by (simp add: tbl_pending_def)
  consider (root) "n = ''.'' \<or> n = []"
    | (ptr) i where "n \<noteq> ''.''" "n \<noteq> []" "tblLookup com n = Some i"
    | (label) "n \<noteq> ''.''" "n \<noteq> []" "tblLookup com n = None" by blast
  then show ?case
  proof cases
    case root
    then show ?thesis
      using "1.prems"(1) packed_root [OF off root] by (auto simp: packName.simps [of com b n])
  next
    case ptr
    then obtain p where p: "pointerTo i = Inr p" "b' = b @ p" "com' = com"
      using "1.prems"(1) by (auto simp: packName.simps [of com b n] split: sum.splits)
    have "i < m" "entry_ok b (n, i)" using tbl_pending_lookup [OF "1.prems"(2) ptr(3)] by auto
    then show ?thesis
      unfolding p(2,3) using p "1.prems"(3,4) ptr(1) by (intro packed_pointer [OF off p(1)]) auto
  next
    case label
    then obtain i com1 where i: "indexByte n (CHR ''.'') = Some i" "0 < i" "i \<le> 63"
      and com1: "tblAdd com n (length b) = Inr com1"
      and rec: "packName com1 (b @ char_of i # take i n) (drop (Suc i) n) = Inr (b', com')"
      using "1.prems"(1)
      by (auto simp: packName.simps [of com b n] split: option.splits if_splits sum.splits)
    have "packed (b @ char_of i # take i n) m (drop (Suc i) n) com1 b' com'"
    proof (rule "1.IH" [OF _ label(3) i(1) _ _ com1 rec])
      show "tbl_pending (b @ char_of i # take i n) m (drop (Suc i) n) com1"
        by (rule tbl_pending_label [OF "1.prems"(2) com1 i(1)])
      show "\<not> hasSuffix (drop (Suc i) n) ''..''" using "1.prems"(5) by (rule hasSuffix_drop)
    qed (use label i "1.prems" in simp_all)
    then show ?thesis by (rule packed_label [OF i com1 off label(1) "1.prems"(5) "1.prems"(3)])
  qed
qed

definition com_ok :: "bytes \<Rightarrow> compressor \<Rightarrow> bool" where
  "com_ok b com \<longleftrightarrow> comOffset com = 0 \<and> (\<forall>t. comTbl com = Some t \<longrightarrow> list_all (entry_ok b) t)"

lemma com_ok_append: "com_ok b com \<Longrightarrow> com_ok (b @ s) com"
  by (auto simp: com_ok_def list_all_iff intro: entry_ok_append)

lemma com_ok_pending: "com_ok b com \<Longrightarrow> tbl_pending b (length b) n com"
  by (auto simp: com_ok_def tbl_pending_def list_all_iff entry_ok_def)

lemma com_ok_initial [simp]: "com_ok b \<lparr>comTbl = Some [], comOffset = 0\<rparr>" "com_ok b noCompressor"
  by (simp_all add: com_ok_def noCompressor_def)

lemma packed_com_ok: "packed b m n com b' com' \<Longrightarrow> com_ok b com \<Longrightarrow> com_ok b' com'"
  by (cases "comTbl com") (auto simp: packed_def com_ok_def list_all_iff intro: entry_ok_append)

definition fqdn :: "bytes \<Rightarrow> bool" where
  \<comment> \<open>names that end in the root, and in no empty label\<close>
  "fqdn n \<longleftrightarrow> hasSuffix n ''.'' \<and> \<not> hasSuffix n ''..''"

lemma fqdn_nonempty: "fqdn n \<Longrightarrow> n \<noteq> []"
  by (auto simp: fqdn_def hasSuffix_def)

lemma packName_spec:
  assumes "packName com b n = Inr (b', com')" and "com_ok b com" and "fqdn n" and "length b' \<le> 16384"
  shows "com_ok b' com' \<and> (\<exists>s. b' = b @ s \<and> s \<noteq> []
    \<and> (\<forall>t r. unpackFQDN (Some (b' @ t)) (s @ r) = Inr (n, r)))"
proof -
  have p: "packed b (length b) n com b' com'"
    using assms com_ok_pending [OF assms(2)] by (intro packName_packed) (auto simp: fqdn_def)
  then obtain s where s: "b' = b @ s" and at: "name_at b' (length b) (length b) (dropRoot n) (length b')"
    by (auto simp: packed_def)
  have "unpackFQDN (Some (b' @ t)) (s @ r) = Inr (n, r)" for t r
  proof -
    have "segment (b' @ t) (length b) (length b') = s" using s by (simp add: segment_def)
    then show ?thesis
      using unpack_name_at [OF name_at_append [OF at], where acc = "[]" and visited = "[]" and s = r, of t]
        fqdn_nonempty [OF assms(3)]
      by (auto simp: unpackFQDN_def dropRoot_def split: if_splits)
  qed
  moreover have "s \<noteq> []" using name_at_bounds [OF at] s by auto
  ultimately show ?thesis using s packed_com_ok [OF p assms(2)] by blast
qed

section \<open>The length announced\<close>

lemma suffix_rest:
  assumes "indexByte n (CHR ''.'') = Some i" and "hasSuffix n ''.''"
  shows "drop (Suc i) n = [] \<or> hasSuffix (drop (Suc i) n) ''.''"
proof -
  have n: "n = take i n @ CHR ''.'' # drop (Suc i) n" by (rule indexByte_take(1) [OF assms(1)])
  obtain p where p: "n = p @ ''.''" using assms(2) by (auto simp: hasSuffix_iff)
  show ?thesis
  proof (cases "drop (Suc i) n" rule: rev_cases)
    case (snoc q c)
    with n p have "c = CHR ''.''" by (metis append.assoc append_Cons last_snoc)
    with snoc show ?thesis by (auto simp: hasSuffix_iff)
  qed simp
qed

definition visitedBy :: "compressor \<Rightarrow> (bytes \<times> nat) list \<Rightarrow> bytes list" where
  \<comment> \<open>the names \<open>Length\<close> has visited where \<open>Pack\<close> has added the entries; none without a table\<close>
  "visitedBy c es = (if comTbl c = None then [] else map fst es)"

lemma lengthName_packName:
  assumes "packName com b n = Inr (b', com')" and "comTbl com = map_option ((@) es) (comTbl c)"
    and "n = [] \<or> hasSuffix n ''.''"
  shows "\<exists>es'. comTbl com' = map_option ((@) es') (comTbl c) \<and> length b \<le> length b'
    \<and> lengthName c n (visitedBy c es) = Inr (length b' - length b, visitedBy c es')"
  using assms
proof (induction com b n arbitrary: es rule: packName.induct)
  case (1 com b n)
  have lk: "tblLookup com n = None \<longleftrightarrow> tblLookup c n = None \<and> n \<notin> set (visitedBy c es)"
    using "1.prems"(2)
    by (cases "comTbl c") (auto simp: tblLookup_def visitedBy_def map_of_eq_None_iff)
  consider (root) "n = ''.'' \<or> n = []"
    | (ptr) i where "n \<noteq> ''.''" "n \<noteq> []" "tblLookup com n = Some i"
    | (label) "n \<noteq> ''.''" "n \<noteq> []" "tblLookup com n = None" by blast
  then show ?case
  proof cases
    case root
    then show ?thesis
      using "1.prems" by (auto simp: packName.simps [of com b n] lengthName.simps [of c n])
  next
    case ptr
    then obtain p where "pointerTo i = Inr p" "b' = b @ p" "com' = com"
      using "1.prems"(1) by (auto simp: packName.simps [of com b n] split: sum.splits)
    moreover from this have "length p = 2"
      by (auto simp: pointerTo_def Let_def putUint16_def split: if_splits)
    moreover have "comTbl c \<noteq> None" using ptr(3) "1.prems"(2) by (cases "comTbl c") (simp_all add: tblLookup_def)
    ultimately show ?thesis
      using ptr lk "1.prems"(2,3) by (intro exI [of _ es]) (auto simp: lengthName.simps [of c n])
  next
    case label
    then obtain i com1 where i: "indexByte n (CHR ''.'') = Some i" "0 < i" "i \<le> 63"
      and com1: "tblAdd com n (length b) = Inr com1"
      and rec: "packName com1 (b @ char_of i # take i n) (drop (Suc i) n) = Inr (b', com')"
      using "1.prems"(1)
      by (auto simp: packName.simps [of com b n] split: option.splits if_splits sum.splits)
    obtain pos where c1: "comTbl com1 = map_option ((@) ((n, pos) # es)) (comTbl c)"
      using com1 "1.prems"(2) by (cases "comTbl c") (auto simp: tblAdd_def split: if_splits)
    have "hasSuffix n ''.''" using "1.prems"(3) label(2) by simp
    note sfx = this suffix_rest [OF i(1) this]
    obtain es' where es': "comTbl com' = map_option ((@) es') (comTbl c)"
      "length (b @ char_of i # take i n) \<le> length b'"
      "lengthName c (drop (Suc i) n) (visitedBy c ((n, pos) # es))
         = Inr (length b' - length (b @ char_of i # take i n), visitedBy c es')"
      using "1.IH" [OF _ label(3) i(1) _ _ com1 rec c1 sfx(2)] label i by auto
    have "lengthName c n (visitedBy c es)
        = Inr (i + 1 + (length b' - length (b @ char_of i # take i n)), visitedBy c es')"
      using label lk i es' sfx(1)
      by (cases "comTbl c") (simp_all add: lengthName.simps [of c n] visitedBy_def tblLookup_def)
    moreover have "length (take i n) = i" using indexByte_take(2) [OF i(1)] by simp
    ultimately show ?thesis using es' by auto
  qed
qed

lemma lengthNames_packName:
  assumes "packName com b n = Inr (b', com')" and "fqdn n"
  shows "lengthNames com [n] [] = Inr (length b' - length b) \<and> length b \<le> length b'"
proof -
  have "comTbl com = map_option ((@) []) (comTbl com)" by simp
  from lengthName_packName [OF assms(1) this] assms(2) show ?thesis
    by (auto simp: fqdn_def visitedBy_def cong: if_cong)
qed

section \<open>Names without compression\<close>

lemma unpackName_label:
  assumes "0 < i" "i \<le> 63" "length l = i" "s \<noteq> []"
  shows "unpackName d acc (char_of i # l @ s) v = unpackName d (acc @ l @ ''.'') s v"
proof -
  have b: "byte (char_of i) = i" using assms(2) by simp
  have "char_of i \<noteq> CHR 0x00"
  proof
    assume "char_of i = CHR 0x00"
    then have "byte (char_of i) = 0" by simp
    with b assms(1) show False by simp
  qed
  then show ?thesis
    using assms b by (subst unpackName.simps) (simp add: isPointer_iff)
qed

lemma packName_plain:
  assumes "packName com b n = Inr (b', com')" and "comTbl com = None" and "\<not> hasSuffix n ''..''"
  shows "com' = com \<and> (\<exists>s. b' = b @ s \<and> s \<noteq> [] \<and> (\<forall>acc r. unpackName d acc (s @ r) v
    = Inr (if acc @ dropRoot n = [] then ''.'' else acc @ dropRoot n, r)))"
  using assms
proof (induction com b n rule: packName.induct)
  case (1 com b n)
  have lk: "tblLookup com n = None" using "1.prems"(2) by (simp add: tblLookup_def)
  show ?case
  proof (cases "n = ''.'' \<or> n = []")
    case True
    then show ?thesis
      using "1.prems"(1) by (auto simp: packName.simps [of com b n] dropRoot_def unpackName.simps)
  next
    case False
    then obtain i com1 where i: "indexByte n (CHR ''.'') = Some i" "0 < i" "i \<le> 63"
      and com1: "tblAdd com n (length b) = Inr com1"
      and rec: "packName com1 (b @ char_of i # take i n) (drop (Suc i) n) = Inr (b', com')"
      using "1.prems"(1) lk
      by (auto simp: packName.simps [of com b n] split: option.splits if_splits sum.splits)
    have c1: "com1 = com" using com1 "1.prems"(2) by (simp add: tblAdd_def)
    have "com' = com1 \<and> (\<exists>s. b' = (b @ char_of i # take i n) @ s \<and> s \<noteq> [] \<and> (\<forall>acc r. unpackName d acc (s @ r) v
      = Inr (if acc @ dropRoot (drop (Suc i) n) = [] then ''.'' else acc @ dropRoot (drop (Suc i) n), r)))"
      using False hasSuffix_drop [OF "1.prems"(3)] "1.prems"(2) c1 i
      by (intro "1.IH" [OF _ lk i(1) _ _ com1 rec]) auto
    then obtain s where s: "b' = (b @ char_of i # take i n) @ s" "com' = com1" "s \<noteq> []"
      "\<And>acc r. unpackName d acc (s @ r) v
        = Inr (if acc @ dropRoot (drop (Suc i) n) = [] then ''.'' else acc @ dropRoot (drop (Suc i) n), r)"
      by blast
    have l: "length (take i n) = i" using indexByte_take(2) [OF i(1)] by simp
    have n: "dropRoot n = take i n @ CHR ''.'' # dropRoot (drop (Suc i) n)"
      using dropRoot_rest [OF i(1) "1.prems"(3)] False by (simp add: dropRoot_def)
    have "unpackName d acc ((char_of i # take i n @ s) @ r) v
        = Inr (if acc @ dropRoot n = [] then ''.'' else acc @ dropRoot n, r)" for acc r
      using unpackName_label [OF i(2,3) l, of "s @ r" d acc v] s(3,4) s(4) [of "acc @ take i n @ ''.''" r] n
      by simp
    then show ?thesis
      using s(1,2) c1 by (intro conjI exI [of _ "char_of i # take i n @ s"]) auto
  qed
qed

end
