(* ===== verification/Dns_Message_Codec.thy ===== *)
theory Dns_Message_Codec
  imports Dns_Message Dns_Name_Codec
begin

text \<open>
  A packed message is read back: first the data of the records, then the entries of the sections
  through the contract \<open>wire_item\<close>, which names, questions and records fulfil, then the header
  with its flag bits, and the message.
\<close>

section \<open>Reading back what was packed\<close>

definition whole_seconds :: "int \<Rightarrow> bool" where
  "whole_seconds t \<longleftrightarrow> t mod second = 0"

fun wf_rdata :: "rdata \<Rightarrow> bool" where
  "wf_rdata (RA ip) = (ipTo4 ip \<noteq> None)"
| "wf_rdata (RCNAME n) = fqdn n"
| "wf_rdata (RNS n) = fqdn n"
| "wf_rdata (RPTR n) = fqdn n"
| "wf_rdata (RDNAME n) = fqdn n"
| "wf_rdata (RSOA (Some s)) = (fqdn (soaNS s) \<and> fqdn (soaMBox s) \<and> whole_seconds (soaRefresh s)
     \<and> whole_seconds (soaRetry s) \<and> whole_seconds (soaExpire s) \<and> whole_seconds (soaMinTTL s))"
| "wf_rdata (RMX _ n) = fqdn n"
| "wf_rdata (RSRV _ _ _ n) = fqdn n"
| "wf_rdata _ = True"

fun wireRData :: "rdata \<Rightarrow> rdata" where
  \<comment> \<open>an IPv4 address is written with four bytes\<close>
  "wireRData (RA ip) = RA (case ipTo4 ip of None \<Rightarrow> [] | Some q \<Rightarrow> q)"
| "wireRData x = x"

lemma packInt16_ok: "packInt16 v = Inr s \<Longrightarrow> length s = 2 \<and> uint (uint16 (s @ r)) = v"
  by (auto simp: packInt16_def Let_def u16.dec_enc u16.length_enc split: if_splits)

lemma packUint32_ok: "packUint32 v = Inr s \<Longrightarrow> length s = 4 \<and> uint (uint32 (s @ r)) = v"
  by (auto simp: packUint32_def Let_def u32.dec_enc u32.length_enc split: if_splits)

lemma packInt32_ok: "packInt32 v = Inr s \<Longrightarrow> length s = 4 \<and> sint (uint32 (s @ r)) = v"
  by (auto simp: packInt32_def Let_def u32.dec_enc u32.length_enc split: if_splits)

lemma sdiv_second: "whole_seconds t \<Longrightarrow> t sdiv second * second = t"
  by (auto simp: whole_seconds_def second_def signed_divide_int_def sgn_if)

lemma concatFields_Cons:
  "concatFields (x # xs) = Inr s \<longleftrightarrow> (\<exists>f r. x = Inr f \<and> concatFields xs = Inr r \<and> s = f @ r)"
  by (cases x) (auto split: sum.splits)

definition rdata_ok :: "rdata \<Rightarrow> bytes \<Rightarrow> compressor \<Rightarrow> nat \<Rightarrow> bytes \<Rightarrow> compressor \<Rightarrow> bool" where
  \<comment> \<open>the data is appended with the announced length and read back from exactly these bytes\<close>
  "rdata_ok x b com l b' com' \<longleftrightarrow> com_ok b' com' \<and> (\<exists>s. b' = b @ s \<and> length s = l
     \<and> (\<forall>t. unpackRData (rtype x) (Some (b' @ t)) s = Inr (wireRData x, [])))"

lemma rdata_okI:
  assumes "com_ok b com" and "length s = l"
    and "\<And>t. unpackRData (rtype x) (Some ((b @ s) @ t)) s = Inr (wireRData x, [])"
  shows "rdata_ok x b com l (b @ s) com"
  using assms com_ok_append by (auto simp: rdata_ok_def)

lemma rdata_name:
  assumes "packName com (b @ p) n = Inr (b', com')" and "com_ok b com" and "fqdn n"
    and "length b' \<le> 16384" and "lengthNames com [n] [] = Inr l"
    and "\<And>d s. unpackFQDN (Some d) s = Inr (n, []) \<Longrightarrow> unpackRData (rtype x) (Some d) (p @ s) = Inr (wireRData x, [])"
  shows "rdata_ok x b com (length p + l) b' com'"
proof -
  have ok: "com_ok (b @ p) com" using assms(2) by (rule com_ok_append)
  obtain s where s: "b' = (b @ p) @ s" "com_ok b' com'"
    "\<And>t r. unpackFQDN (Some (b' @ t)) (s @ r) = Inr (n, r)"
    using packName_spec [OF assms(1) ok assms(3,4)] by blast
  have "length s = l" using lengthNames_packName [OF assms(1,3)] assms(5) s(1) by simp
  moreover have "unpackRData (rtype x) (Some (b' @ t)) (p @ s) = Inr (wireRData x, [])" for t
    using s(3) [of t "[]"] assms(6) by simp
  ultimately show ?thesis
    unfolding rdata_ok_def using s by (auto intro!: exI [of _ "p @ s"])
qed

lemma unpackTexts_packTexts:
  "packTexts ts = Inr s \<Longrightarrow> unpackTexts s = Inr ts \<and> length s = sum_list (map (\<lambda>s. 1 + length s) ts)"
proof (induction ts arbitrary: s)
  case (Cons x ts)
  obtain r where r: "packTexts ts = Inr r" "s = char_of (length x) # x @ r" "length x \<le> 255"
    using Cons.prems by (auto split: if_splits sum.splits)
  then show ?case
    using Cons.IH [OF r(1)] by (simp add: unpackTexts.simps [of "char_of (length x) # x @ r"])
qed (simp add: unpackTexts.simps)

lemma unpackOptions_Cons:
  assumes "length (snd x) < 65536"
  shows "unpackOptions (packOption x @ r)
    = (case unpackOptions r of Inl e \<Rightarrow> Inl e | Inr opts \<Rightarrow> Inr (x # opts))"
proof -
  define b where "b = packOption x @ r"
  have u: "unat (word_of_nat (length (snd x)) :: 16 word) = length (snd x)"
    using assms by (simp add: unat_of_nat take_bit_nat_eq_self)
  have code: "uint16 b = fst x" by (simp add: b_def packOption_def)
  have d2: "drop 2 b = putUint16 (word_of_nat (length (snd x))) @ snd x @ r"
    by (simp add: b_def packOption_def)
  have "drop 4 b = drop 2 (drop 2 b)" by simp
  then have d4: "drop 4 b = snd x @ r" unfolding d2 by simp
  have len: "length b = 4 + length (snd x) + length r" by (simp add: b_def packOption_def)
  moreover have "drop (4 + length (snd x)) b = drop (length (snd x)) (drop 4 b)"
    by (simp add: add.commute)
  then have "drop (4 + length (snd x)) b = r" unfolding d4 by simp
  ultimately have "unpackOptions b
      = (case unpackOptions r of Inl e \<Rightarrow> Inl e | Inr opts \<Rightarrow> Inr (x # opts))"
    by (subst unpackOptions.simps) (auto simp: code d2 d4 u split: sum.splits)
  then show ?thesis by (simp add: b_def)
qed

lemma unpackOptions_pack:
  assumes "sum_list (map (\<lambda>opt. 4 + length (snd opt)) opts) < 65536"
  shows "unpackOptions (concat (map packOption opts)) = Inr opts
    \<and> length (concat (map packOption opts)) = sum_list (map (\<lambda>opt. 4 + length (snd opt)) opts)"
  using assms
  by (induction opts)
    (simp_all add: unpackOptions.simps [of "[]"] unpackOptions_Cons, simp add: packOption_def u16.length_enc)

lemma ipTo4_length: "ipTo4 ip = Some q \<Longrightarrow> length q = 4 \<and> 4 \<le> length ip"
  by (auto simp: ipTo4_def split: if_splits)

lemma unpack_soa_numbers:
  assumes "soaNumbers s = Inr r" and "wf_rdata (RSOA (Some s))"
    and "unpackFQDN d b = Inr (soaNS s, b1)" and "unpackFQDN d b1 = Inr (soaMBox s, r)"
  shows "unpackSOA d b = Inr (RSOA (Some s), []) \<and> length r = 20"
proof -
  obtain f1 f2 f3 f4 f5 where f: "packUint32 (soaSerial s) = Inr f1"
    "packInt32 (soaRefresh s sdiv second) = Inr f2" "packInt32 (soaRetry s sdiv second) = Inr f3"
    "packInt32 (soaExpire s sdiv second) = Inr f4" "packUint32 (soaMinTTL s sdiv second) = Inr f5"
    and r: "r = f1 @ f2 @ f3 @ f4 @ f5"
    using assms(1) unfolding soaNumbers_def concatFields_Cons by auto
  note ok = packUint32_ok [OF f(1)] packInt32_ok [OF f(2)] packInt32_ok [OF f(3)] packInt32_ok [OF f(4)]
    packUint32_ok [OF f(5)]
  have l: "length f1 = 4" "length f2 = 4" "length f3 = 4" "length f4 = 4" "length f5 = 4"
    using ok by auto
  have "seconds32 (f2 @ x) = soaRefresh s" "seconds32 (f3 @ x) = soaRetry s"
    "seconds32 (f4 @ x) = soaExpire s" for x
    using ok assms(2) by (simp_all add: seconds32_def sdiv_second)
  moreover have "uint (uint32 f5) * second = soaMinTTL s"
    using packUint32_ok [OF f(5), of "[]"] assms(2) by (simp add: sdiv_second)
  ultimately show ?thesis
    using assms(3,4) l ok unfolding r by (simp add: unpackSOA_def)
qed

lemma rdata_soa:
  assumes "packRData (RSOA (Some s)) b com = Inr (b', com')"
    and "lengthRData (RSOA (Some s)) com = Inr l" and "com_ok b com" and "wf_rdata (RSOA (Some s))"
    and "length b' \<le> 16384"
  shows "rdata_ok (RSOA (Some s)) b com l b' com'"
proof -
  obtain b1 com1 b2 r where p1: "packName com b (soaNS s) = Inr (b1, com1)"
    and p2: "packName com1 b1 (soaMBox s) = Inr (b2, com')"
    and r: "soaNumbers s = Inr r" "b' = b2 @ r"
    using assms(1) by (auto simp: appendTo_def split: sum.splits)
  have f: "fqdn (soaNS s)" "fqdn (soaMBox s)" using assms(4) by auto
  obtain es1 where es1: "comTbl com1 = map_option ((@) es1) (comTbl com)" "length b \<le> length b1"
    "lengthName com (soaNS s) (visitedBy com []) = Inr (length b1 - length b, visitedBy com es1)"
    using lengthName_packName [OF p1, of "[]" com] f(1) by (auto simp: fqdn_def)
  obtain es2 where es2: "length b1 \<le> length b2"
    "lengthName com (soaMBox s) (visitedBy com es1) = Inr (length b2 - length b1, visitedBy com es2)"
    using lengthName_packName [OF p2 es1(1)] f(2) by (auto simp: fqdn_def)
  have l: "l = 20 + (length b2 - length b)"
    using assms(2) es1 es2 by (simp add: visitedBy_def cong: if_cong)
  obtain s1 where s1: "b1 = b @ s1" "com_ok b1 com1"
    "\<And>t r. unpackFQDN (Some (b1 @ t)) (s1 @ r) = Inr (soaNS s, r)"
    using packName_spec [OF p1 assms(3) f(1)] assms(5) es2(1) r(2) by auto
  obtain s2 where s2: "b2 = b1 @ s2" "com_ok b2 com'"
    "\<And>t r. unpackFQDN (Some (b2 @ t)) (s2 @ r) = Inr (soaMBox s, r)"
    using packName_spec [OF p2 s1(2) f(2)] assms(5) r(2) by auto
  have "unpackFQDN (Some (b' @ t)) (s1 @ s2 @ r) = Inr (soaNS s, s2 @ r)"
    "unpackFQDN (Some (b' @ t)) (s2 @ r) = Inr (soaMBox s, r)" for t
    using s1(3) [of "s2 @ r @ t"] s2(3) [of "r @ t"] s2(1) r(2) by simp_all
  then have u: "unpackSOA (Some (b' @ t)) (s1 @ s2 @ r) = Inr (RSOA (Some s), [])" "length r = 20" for t
    using unpack_soa_numbers [OF r(1) assms(4)] by blast+
  then show ?thesis
    unfolding rdata_ok_def using l s1(1) s2 r(2) com_ok_append [OF s2(2), of r]
    by (auto simp: unpackRData_def type_defs intro!: exI [of _ "s1 @ s2 @ r"])
qed

lemma rdata_srv:
  assumes "packRData (RSRV p w q n) b com = Inr (b', com')" and "lengthRData (RSRV p w q n) com = Inr l"
    and "com_ok b com" and "fqdn n"
  shows "rdata_ok (RSRV p w q n) b com l b' com'"
proof -
  obtain f1 f2 f3 c where f: "packInt16 p = Inr f1" "packInt16 w = Inr f2" "packInt16 q = Inr f3"
    and pk: "packName noCompressor (b @ f1 @ f2 @ f3) n = Inr (b', c)" and com': "com' = com"
    using assms(1)
    by (auto simp: concatFields_Cons simp del: concatFields.simps split: sum.splits)
      (auto simp: concatFields_Cons simp del: concatFields.simps(2,3))
  note ok = packInt16_ok [OF f(1)] packInt16_ok [OF f(2)] packInt16_ok [OF f(3)]
  have "\<not> hasSuffix n ''..''" using assms(4) by (simp add: fqdn_def)
  from packName_plain [OF pk _ this, of None "[]"] obtain s where
    s: "b' = (b @ f1 @ f2 @ f3) @ s" "\<And>r. unpackFQDN None (s @ r) = Inr (n, r)"
    using fqdn_nonempty [OF assms(4)]
    by (auto simp: noCompressor_def unpackFQDN_def dropRoot_def split: if_splits)
  have "length s = l - 6" "6 \<le> l"
    using lengthNames_packName [OF pk assms(4)] assms(2) s(1) by (auto simp: map_sum_def split: sum.splits)
  then show ?thesis
    unfolding rdata_ok_def com' using s(1) s(2) [of "[]"] ok com_ok_append [OF assms(3)]
    by (auto simp: unpackRData_def type_defs mapName_def intro!: exI [of _ "f1 @ f2 @ f3 @ s"])
qed

lemma rdata_mx:
  assumes "packRData (RMX p n) b com = Inr (b', com')" and "lengthRData (RMX p n) com = Inr l"
    and "com_ok b com" and "fqdn n" and "length b' \<le> 16384"
  shows "rdata_ok (RMX p n) b com l b' com'"
proof -
  obtain f where f: "packInt16 p = Inr f" and pk: "packName com (b @ f) n = Inr (b', com')"
    using assms(1) by (auto split: sum.splits)
  obtain k where k: "lengthNames com [n] [] = Inr k" "l = 2 + k"
    using assms(2) by (auto simp: map_sum_def split: sum.splits)
  have "rdata_ok (RMX p n) b com (length f + k) b' com'"
    using packInt16_ok [OF f]
    by (intro rdata_name [OF pk assms(3,4,5) k(1)])
      (simp add: unpackRData_def type_defs mapName_def)
  then show ?thesis using packInt16_ok [OF f] k(2) by simp
qed

lemma rdata_spec:
  assumes "packRData x b com = Inr (b', com')" and "lengthRData x com = Inr l"
    and "com_ok b com" and "wf_rdata x" and "length b' \<le> 16384" and "l < 65536"
  shows "rdata_ok x b com l b' com'"
proof (cases x)
  case (RA ip)
  then obtain q where "ipTo4 ip = Some q" using assms(4) by auto
  with RA assms(1,2,3) ipTo4_length [of ip q] show ?thesis
    by (auto simp: unpackRData_def type_defs intro!: rdata_okI)
next
  case (RAAAA ip)
  with assms(1,2,3) show ?thesis
    by (auto simp: unpackRData_def type_defs split: if_splits intro!: rdata_okI)
next
  case (RSOA s)
  then show ?thesis using rdata_soa assms by (cases s) auto
next
  case (RMX p n)
  then show ?thesis using rdata_mx assms by auto
next
  case (RTXT ts)
  then obtain s where "packTexts ts = Inr s" "b' = b @ s" "com' = com"
    using assms(1) by (auto simp: appendTo_def split: sum.splits)
  with RTXT assms(2,3) unpackTexts_packTexts [of ts s] show ?thesis
    by (auto simp: unpackRData_def type_defs intro!: rdata_okI)
next
  case (RSRV p w q n)
  then show ?thesis using rdata_srv assms by auto
next
  case (ROPT opts)
  with assms(1,2,3,6) unpackOptions_pack [of opts] show ?thesis
    by (auto simp: unpackRData_def type_defs intro!: rdata_okI)
next
  case (RCAA crit tag val)
  with assms(1,2,3) show ?thesis
    by (auto simp: unpackRData_def unpackCAA_def type_defs split: if_splits
        intro!: rdata_okI)
qed (use assms rdata_name [of com b "[]", OF _ assms(3)] in
    \<open>force simp: unpackRData_def type_defs mapName_def\<close>)+

section \<open>Items of a message\<close>

text \<open>
  The contract of an entry: what \<open>Pack\<close> appends is read back from any extension of the message,
  and the table stays correct. It carries over to the sections, which are lists of entries.
\<close>

locale wire_item =
  fixes pack :: "'a \<Rightarrow> bytes \<Rightarrow> compressor \<Rightarrow> dns_error + bytes \<times> compressor"
    and unpack :: "bytes option \<Rightarrow> bytes \<Rightarrow> dns_error + 'a \<times> bytes"
    and wf :: "'a \<Rightarrow> bool" and wire :: "'a \<Rightarrow> 'a"
  assumes grows: "pack x b com = Inr (b', com') \<Longrightarrow> length b < length b'"
    and item: "pack x b com = Inr (b', com') \<Longrightarrow> com_ok b com \<Longrightarrow> wf x \<Longrightarrow> length b' \<le> 16384
      \<Longrightarrow> com_ok b' com' \<and> (\<exists>s. b' = b @ s \<and> (\<forall>t r. unpack (Some (b' @ t)) (s @ r) = Inr (wire x, r)))"
begin

lemma items_grow: "packAll pack xs b com = Inr (b', com') \<Longrightarrow> length b + length xs \<le> length b'"
proof (induction xs arbitrary: b com)
  case (Cons x xs)
  then obtain b1 com1 where p: "pack x b com = Inr (b1, com1)" "packAll pack xs b1 com1 = Inr (b', com')"
    by (auto split: sum.splits)
  show ?case using Cons.IH [OF p(2)] grows [OF p(1)] by simp
qed simp

lemma items:
  assumes "packAll pack xs b com = Inr (b', com')" and "com_ok b com" and "list_all wf xs"
    and "length b' \<le> 16384"
  shows "com_ok b' com' \<and> (\<exists>s. b' = b @ s
    \<and> (\<forall>t r. unpackN (length xs) (unpack (Some (b' @ t))) (s @ r) = Inr (map wire xs, r)))"
  using assms
proof (induction xs arbitrary: b com)
  case (Cons x xs)
  then obtain b1 com1 where p: "pack x b com = Inr (b1, com1)" "packAll pack xs b1 com1 = Inr (b', com')"
    by (auto split: sum.splits)
  have "length b1 \<le> 16384" using items_grow [OF p(2)] Cons.prems(4) by simp
  then obtain s1 where s1: "com_ok b1 com1" "b1 = b @ s1"
    "\<And>t r. unpack (Some (b1 @ t)) (s1 @ r) = Inr (wire x, r)"
    using item [OF p(1) Cons.prems(2)] Cons.prems(3) by auto
  obtain s2 where s2: "com_ok b' com'" "b' = b1 @ s2"
    "\<And>t r. unpackN (length xs) (unpack (Some (b' @ t))) (s2 @ r) = Inr (map wire xs, r)"
    using Cons.IH [OF p(2) s1(1)] Cons.prems(3,4) by auto
  have "unpackN (length (x # xs)) (unpack (Some (b' @ t))) ((s1 @ s2) @ r) = Inr (map wire (x # xs), r)"
    for t r
    using s1(3) [of "s2 @ t" "s2 @ r"] s2(2,3) by simp
  then show ?case using s1(2) s2(1,2) by (auto intro!: exI [of _ "s1 @ s2"])
qed simp

end

lemma packName_grows: "packName com b n = Inr (b', com') \<Longrightarrow> length b < length b'"
proof (induction com b n rule: packName.induct)
  case (1 com b n)
  show ?case
    using "1.prems" "1.IH"
    by (subst (asm) (1) packName.simps)
      (fastforce simp: pointerTo_def Let_def putUint16_def split: if_splits option.splits sum.splits)
qed

lemma packRData_grows: "packRData x b com = Inr (b', com') \<Longrightarrow> length b \<le> length b'"
  by (induction x b com rule: packRData.induct)
    (auto simp: appendTo_def split: if_splits sum.splits dest!: packName_grows)

definition wf_resource :: "resource \<Rightarrow> bool" where
  "wf_resource r \<longleftrightarrow> fqdn (rName r) \<and> whole_seconds (rTTL r) \<and> wf_rdata (rRecord r)"

definition wireResource :: "resource \<Rightarrow> resource" where
  "wireResource r = r\<lparr>rRecord := wireRData (rRecord r)\<rparr>"

lemma flag_bits:
  "(0x8000 :: 16 word) = push_bit 15 1" "(0x80 :: 16 word) = push_bit 7 1"
  "(0x100 :: 16 word) = push_bit 8 1" "(0x200 :: 16 word) = push_bit 9 1"
  "(0x400 :: 16 word) = push_bit 10 1"
  by simp_all

lemma flag_test: "and (w :: 16 word) (push_bit n 1) > 0 \<longleftrightarrow> bit w n"
  by (simp add: word_gt_0 bit_iff_and_push_bit_not_eq_0)

lemma nibble: "(0xF :: 16 word) = mask 4"
  by (simp add: mask_eq_exp_minus_1)

lemma nibble_bit: "and w (mask 4) = (w :: 16 word) \<Longrightarrow> bit w n \<Longrightarrow> n < 4"
  by (metis bit_and_iff bit_mask_iff)

lemma bit_flag:
  "k < 16 \<Longrightarrow> n < 16 \<Longrightarrow> bit (if c then push_bit k 1 else 0 :: 16 word) n \<longleftrightarrow> n = k \<and> c"
  by (auto simp: bit_exp_iff)

lemma bit_headerBits:
  assumes "n < 16"
  shows "bit (headerBits m) n \<longleftrightarrow> (11 \<le> n \<and> bit (mOpCode m) (n - 11)) \<or> bit (mRCode m) n
     \<or> (n = 15 \<and> mResponse m) \<or> (n = 7 \<and> mRecursionAvailable m) \<or> (n = 8 \<and> mRecursionDesired m)
     \<or> (n = 9 \<and> mTruncated m) \<or> (n = 10 \<and> mAuthoritative m)"
  unfolding headerBits_def flag_bits bit_or_iff
  using assms by (simp only: bit_flag bit_push_bit_iff) simp

lemma headerBits_decode:
  assumes "and (mOpCode m) 0xF = mOpCode m" and "and (mRCode m) 0xF = mRCode m"
  shows "(and (headerBits m) 0x8000 > 0) = mResponse m" "(and (headerBits m) 0x80 > 0) = mRecursionAvailable m"
    "(and (headerBits m) 0x100 > 0) = mRecursionDesired m" "(and (headerBits m) 0x200 > 0) = mTruncated m"
    "(and (headerBits m) 0x400 > 0) = mAuthoritative m"
    "and (drop_bit 11 (headerBits m)) 0xF = mOpCode m" "and (headerBits m) 0xF = mRCode m"
proof -
  have n: "bit (mOpCode m) n \<Longrightarrow> n < 4" "bit (mRCode m) n \<Longrightarrow> n < 4" for n
    using assms nibble_bit by (auto simp: nibble)
  show "(and (headerBits m) 0x8000 > 0) = mResponse m" "(and (headerBits m) 0x80 > 0) = mRecursionAvailable m"
    "(and (headerBits m) 0x100 > 0) = mRecursionDesired m" "(and (headerBits m) 0x200 > 0) = mTruncated m"
    "(and (headerBits m) 0x400 > 0) = mAuthoritative m"
    unfolding flag_bits flag_test by (auto simp: bit_headerBits dest: n)
  show "and (drop_bit 11 (headerBits m)) 0xF = mOpCode m"
  proof (rule bit_word_eqI)
    fix k assume "k < LENGTH(16)"
    show "bit (and (drop_bit 11 (headerBits m)) 0xF) k \<longleftrightarrow> bit (mOpCode m) k"
    proof (cases "k < 4")
      case True
      then show ?thesis
        unfolding nibble using n(2) [of "11 + k"]
        by (auto simp: bit_headerBits bit_and_iff bit_mask_iff bit_drop_bit_eq)
    qed (use n(1) in \<open>auto simp: nibble bit_and_iff bit_mask_iff\<close>)
  qed
  show "and (headerBits m) 0xF = mRCode m"
    unfolding nibble
    by (rule bit_word_eqI) (auto simp: bit_headerBits bit_and_iff bit_mask_iff dest: n)
qed

lemma packResource_cases:
  assumes "packResource r b com = Inr (b', com')"
  obtains b1 com1 ttl l n where "packName com b (rName r) = Inr (b1, com1)"
    and "packUint32 (rTTL r sdiv second) = Inr ttl" and "lengthRData (rRecord r) com1 = Inr n"
    and "packInt16 (int n) = Inr l"
    and "packRData (rRecord r) (b1 @ putUint16 (rtype (rRecord r)) @ putUint16 (rClass r) @ ttl @ l) com1
      = Inr (b', com')"
  using assms by (auto simp: packResource_def split: sum.splits if_splits)

lemma packInt16_nat: "packInt16 (int n) = Inr s \<Longrightarrow> n < 65536 \<and> s = putUint16 (word_of_nat n)"
proof -
  assume p: "packInt16 (int n) = Inr s"
  have "uint (word_of_nat n :: 16 word) = int n" "s = putUint16 (word_of_nat n)"
    using p by (auto simp: packInt16_def Let_def split: if_splits)
  moreover have "uint (word_of_nat n :: 16 word) < 2 ^ LENGTH(16)" by (rule unsigned_less)
  ultimately show ?thesis by simp
qed

lemma unpackResource_parts:
  assumes "unpackFQDN d b = Inr (n, putUint16 ty @ putUint16 cl @ putUint32 ttl @ putUint16 (word_of_nat l) @ s @ r)"
    and "length s = l" and "l < 65536" and "unpackRData ty d s = Inr (rd, [])"
  shows "unpackResource d b = Inr (\<lparr>rName = n, rClass = cl, rTTL = uint ttl * second, rRecord = rd\<rparr>, r)"
proof -
  have "unat (word_of_nat l :: 16 word) = l"
    using assms(3) by (simp add: unat_of_nat take_bit_nat_eq_self)
  then show ?thesis using assms by (simp add: unpackResource_def Let_def)
qed

lemma packResource_item:
  assumes "packResource r b com = Inr (b', com')" and "com_ok b com" and "wf_resource r"
    and "length b' \<le> 16384"
  shows "com_ok b' com' \<and> (\<exists>s. b' = b @ s
    \<and> (\<forall>t u. unpackResource (Some (b' @ t)) (s @ u) = Inr (wireResource r, u)))"
  using assms(1)
proof (cases rule: packResource_cases)
  case (1 b1 com1 ttl l n)
  have f: "fqdn (rName r)" "whole_seconds (rTTL r)" "wf_rdata (rRecord r)"
    using assms(3) by (simp_all add: wf_resource_def)
  let ?h = "putUint16 (rtype (rRecord r)) @ putUint16 (rClass r) @ ttl @ l"
  have len: "length (b1 @ ?h) \<le> length b'" using packRData_grows [OF 1(5)] .
  then obtain s1 where s1: "com_ok b1 com1" "b1 = b @ s1"
    "\<And>t u. unpackFQDN (Some (b1 @ t)) (s1 @ u) = Inr (rName r, u)"
    using packName_spec [OF 1(1) assms(2) f(1)] assms(4) by auto
  have l: "n < 65536" "l = putUint16 (word_of_nat n)" using packInt16_nat [OF 1(4)] by auto
  have ttl: "ttl = putUint32 (word_of_int (rTTL r sdiv second))"
    "uint (word_of_int (rTTL r sdiv second) :: 32 word) = rTTL r sdiv second"
    using 1(2) by (auto simp: packUint32_def Let_def split: if_splits)
  obtain s2 where s2: "com_ok b' com'" "b' = (b1 @ ?h) @ s2" "length s2 = n"
    "\<And>t. unpackRData (rtype (rRecord r)) (Some (b' @ t)) s2 = Inr (wireRData (rRecord r), [])"
    using rdata_spec [OF 1(5,3) com_ok_append [OF s1(1)] f(3) assms(4) l(1)] by (auto simp: rdata_ok_def)
  have "unpackResource (Some (b' @ t)) ((s1 @ ?h @ s2) @ u) = Inr (wireResource r, u)" for t u
  proof -
    have "unpackFQDN (Some (b' @ t)) (s1 @ ?h @ s2 @ u) = Inr (rName r, ?h @ s2 @ u)"
      using s1(3) [of "?h @ s2 @ t"] s2(2) by simp
    then show ?thesis
      using unpackResource_parts [OF _ s2(3) l(1) s2(4), of t _ "rName r" "rClass r" "word_of_int (rTTL r sdiv second)" u]
        ttl l(2) sdiv_second [OF f(2)] by (simp add: wireResource_def)
  qed
  then show ?thesis using s1(2) s2(1,2) by (auto intro!: exI [of _ "s1 @ ?h @ s2"])
qed

lemma packResource_grows: "packResource r b com = Inr (b', com') \<Longrightarrow> length b < length b'"
  by (elim packResource_cases) (auto dest!: packName_grows packRData_grows)

lemma packQuestion_item:
  assumes "packQuestion q b com = Inr (b', com')" and "com_ok b com" and "fqdn (qName q)"
    and "length b' \<le> 16384"
  shows "com_ok b' com' \<and> (\<exists>s. b' = b @ s
    \<and> (\<forall>t u. unpackQuestion (Some (b' @ t)) (s @ u) = Inr (q, u)))"
proof -
  let ?h = "putUint16 (qType q) @ putUint16 (qClass q)"
  obtain b1 where p: "packName com b (qName q) = Inr (b1, com')" "b' = b1 @ ?h"
    using assms(1) by (auto simp: packQuestion_def split: sum.splits)
  obtain s1 where s1: "com_ok b1 com'" "b1 = b @ s1"
    "\<And>t u. unpackFQDN (Some (b1 @ t)) (s1 @ u) = Inr (qName q, u)"
    using packName_spec [OF p(1) assms(2,3)] assms(4) p(2) by auto
  have "unpackQuestion (Some (b' @ t)) ((s1 @ ?h) @ u) = Inr (q, u)" for t u
    using s1(3) [of "?h @ t" "?h @ u"] p(2) by (simp add: unpackQuestion_def)
  then show ?thesis
    using s1 p(2) com_ok_append [OF s1(1)] by (auto intro!: exI [of _ "s1 @ ?h"])
qed

interpretation qs: wire_item packQuestion unpackQuestion "\<lambda>q. fqdn (qName q)" id
proof
  show "length b < length b'" if "packQuestion q b com = Inr (b', com')" for q b com b' com'
    using that packName_grows by (fastforce simp: packQuestion_def split: sum.splits)
qed (use packQuestion_item in auto)

interpretation rs: wire_item packResource unpackResource wf_resource wireResource
  by unfold_locales (use packResource_grows packResource_item in auto)

definition wf_message :: "message \<Rightarrow> bool" where
  "wf_message m \<longleftrightarrow> list_all (\<lambda>q. fqdn (qName q)) (mQuestions m)
     \<and> list_all wf_resource (mAnswers m @ mAuthorities m @ mAdditionals m)"

definition wireMessage :: "message \<Rightarrow> message" where
  "wireMessage m = m\<lparr>mAnswers := map wireResource (mAnswers m),
     mAuthorities := map wireResource (mAuthorities m), mAdditionals := map wireResource (mAdditionals m)\<rparr>"

definition sectionCounts :: "message \<Rightarrow> nat \<times> nat \<times> nat \<times> nat" where
  "sectionCounts m = (length (mQuestions m), length (mAnswers m), length (mAuthorities m),
     length (mAdditionals m))"

lemma packHeader_unpackHeader:
  assumes "packHeader m = Inr h" and "length (mAdditionals m) < 65536"
  shows "length h = 12 \<and> unpackHeader (h @ s)
    = Inr (m\<lparr>mQuestions := [], mAnswers := [], mAuthorities := [], mAdditionals := []\<rparr>, sectionCounts m, s)"
proof -
  have ar: "unat (word_of_nat (length (mAdditionals m)) :: 16 word) = length (mAdditionals m)"
    using assms(2) by (simp add: unat_of_nat take_bit_nat_eq_self)
  have c: "uint (word_of_int (mID m) :: 16 word) = mID m" "and (mOpCode m) 0xF = mOpCode m"
    "and (mRCode m) 0xF = mRCode m"
    "unat (word_of_nat (length (mQuestions m)) :: 16 word) = length (mQuestions m)"
    "unat (word_of_nat (length (mAnswers m)) :: 16 word) = length (mAnswers m)"
    "unat (word_of_nat (length (mAuthorities m)) :: 16 word) = length (mAuthorities m)"
    using assms(1) by (auto simp: packHeader_def split: if_splits)
  have h: "h = putUint16 (word_of_int (mID m)) @ putUint16 (headerBits m)
      @ putUint16 (word_of_nat (length (mQuestions m))) @ putUint16 (word_of_nat (length (mAnswers m)))
      @ putUint16 (word_of_nat (length (mAuthorities m))) @ putUint16 (word_of_nat (length (mAdditionals m)))"
    using assms(1) by (auto simp: packHeader_def split: if_splits)
  have r: "uint16 (drop 2 (h @ s)) = headerBits m" unfolding h by simp
  show ?thesis
    using c ar headerBits_decode [OF c(2,3)] r
    by (simp add: unpackHeader_def sectionCounts_def h)
qed

lemma packAll_append:
  "packAll pack (xs @ ys) b com
    = (case packAll pack xs b com of Inl e \<Rightarrow> Inl e | Inr (b1, c1) \<Rightarrow> packAll pack ys b1 c1)"
  by (induction xs arbitrary: b com) (auto split: sum.splits)

lemma packMessage_cases:
  assumes "packMessage m [] True = Inr b"
  obtains h b1 c1 b2 c2 b3 c3 c4 where "packHeader m = Inr h"
    and "packAll packQuestion (mQuestions m) h \<lparr>comTbl = Some [], comOffset = 0\<rparr> = Inr (b1, c1)"
    and "packAll packResource (mAnswers m) b1 c1 = Inr (b2, c2)"
    and "packAll packResource (mAuthorities m) b2 c2 = Inr (b3, c3)"
    and "packAll packResource (mAdditionals m) b3 c3 = Inr (b, c4)"
  using assms by (auto simp: packMessage_def Let_def packAll_append split: sum.splits)

lemma unpackMessage_packed:
  \<comment> \<open>whatever follows the message\<close>
  assumes "packMessage m [] True = Inr b" and "wf_message m" and "length b \<le> 16384"
  shows "unpackMessage (b @ t) = Inr (wireMessage m, t)"
  using assms(1)
proof (cases rule: packMessage_cases)
  case (1 h b1 c1 b2 c2 b3 c3 c4)
  have g: "length h \<le> length b1" "length b1 \<le> length b2" "length b2 \<le> length b3"
    "length b3 + length (mAdditionals m) \<le> length b"
    using qs.items_grow [OF 1(2)] rs.items_grow [OF 1(3)] rs.items_grow [OF 1(4)] rs.items_grow [OF 1(5)]
    by auto
  have w: "list_all (\<lambda>q. fqdn (qName q)) (mQuestions m)" "list_all wf_resource (mAnswers m)"
    "list_all wf_resource (mAuthorities m)" "list_all wf_resource (mAdditionals m)"
    using assms(2) by (simp_all add: wf_message_def)
  obtain s1 where s1: "com_ok b1 c1" "b1 = h @ s1"
    "\<And>t r. unpackN (length (mQuestions m)) (unpackQuestion (Some (b1 @ t))) (s1 @ r) = Inr (mQuestions m, r)"
    using qs.items [OF 1(2) _ w(1)] g assms(3) by auto
  obtain s2 where s2: "com_ok b2 c2" "b2 = b1 @ s2"
    "\<And>t r. unpackN (length (mAnswers m)) (unpackResource (Some (b2 @ t))) (s2 @ r)
       = Inr (map wireResource (mAnswers m), r)"
    using rs.items [OF 1(3) s1(1) w(2)] g assms(3) by auto
  obtain s3 where s3: "com_ok b3 c3" "b3 = b2 @ s3"
    "\<And>t r. unpackN (length (mAuthorities m)) (unpackResource (Some (b3 @ t))) (s3 @ r)
       = Inr (map wireResource (mAuthorities m), r)"
    using rs.items [OF 1(4) s2(1) w(3)] g assms(3) by auto
  obtain s4 where s4: "b = b3 @ s4"
    "\<And>t r. unpackN (length (mAdditionals m)) (unpackResource (Some (b @ t))) (s4 @ r)
       = Inr (map wireResource (mAdditionals m), r)"
    using rs.items [OF 1(5) s3(1) w(4)] g assms(3) by auto
  have b: "b = h @ s1 @ s2 @ s3 @ s4" using s1(2) s2(2) s3(2) s4(1) by simp
  have "unpackHeader (b @ t)
      = Inr (m\<lparr>mQuestions := [], mAnswers := [], mAuthorities := [], mAdditionals := []\<rparr>,
          sectionCounts m, s1 @ s2 @ s3 @ s4 @ t)"
    using packHeader_unpackHeader [OF 1(1)] g(4) assms(3) b by simp
  moreover have "unpackN (length (mQuestions m)) (unpackQuestion (Some (b @ t))) (s1 @ s2 @ s3 @ s4 @ t)
      = Inr (mQuestions m, s2 @ s3 @ s4 @ t)"
    using s1(3) [of "s2 @ s3 @ s4 @ t" "s2 @ s3 @ s4 @ t"] s1(2) b by simp
  moreover have "unpackN (length (mAnswers m)) (unpackResource (Some (b @ t))) (s2 @ s3 @ s4 @ t)
      = Inr (map wireResource (mAnswers m), s3 @ s4 @ t)"
    using s2(3) [of "s3 @ s4 @ t" "s3 @ s4 @ t"] s1(2) s2(2) b by simp
  moreover have "unpackN (length (mAuthorities m)) (unpackResource (Some (b @ t))) (s3 @ s4 @ t)
      = Inr (map wireResource (mAuthorities m), s4 @ t)"
    using s3(3) [of "s4 @ t" "s4 @ t"] s3(2) s4(1) by simp
  moreover have "unpackN (length (mAdditionals m)) (unpackResource (Some (b @ t))) (s4 @ t)
      = Inr (map wireResource (mAdditionals m), t)"
    using s4(2) [of t t] by simp
  ultimately show ?thesis
    by (simp add: unpackMessage_def unpackSections_def sectionCounts_def wireMessage_def)
qed

text \<open>
  C23: a packed message is read back. Let a message be well formed (\<open>wf_message\<close>): every name in
  it is fully qualified, the time to live of every record and the four times of an SOA record
  are whole seconds, which is all that \<open>Pack\<close> writes of them, and the address of an A record is an
  IPv4 address, because an IPv6 one is packed and not read back. If \<open>Message.Pack\<close> writes such a message,
  with records of the twelve types and names in full or as pointers to earlier ones, and what it
  writes has at most 16384 bytes, the range of a pointer, which the table of the compressor does
  not check, then decoding it gives the message again, with IPv4 addresses in their four-byte
  form, and nothing is left over.
\<close>

theorem message_roundtrip:
  assumes "packMessage m [] True = Inr b" and "wf_message m" and "length b \<le> 16384"
  shows "unpackMessage b = Inr (wireMessage m, [])"
  using unpackMessage_packed [OF assms, of "[]"] by simp

definition exampleReply :: message where
  "exampleReply = \<lparr>mID = 9, mResponse = True, mOpCode = 0, mAuthoritative = True, mTruncated = False,
     mRecursionDesired = True, mRecursionAvailable = False, mRCode = 0,
     mQuestions = [\<lparr>qName = ''a.srv1.'', qType = TypeA, qClass = ClassIN\<rparr>],
     mAnswers = [\<lparr>rName = ''a.srv1.'', rClass = ClassIN, rTTL = 300 * second, rRecord = RCNAME ''srv1.''\<rparr>,
       \<lparr>rName = ''srv1.'', rClass = ClassIN, rTTL = 300 * second,
        rRecord = RA (map char_of (v4InV6Prefix @ [10, 0, 0, 1]))\<rparr>],
     mAuthorities = [], mAdditionals = []\<rparr>"

theorem message_roundtrip_witness:
  "\<exists>b. packMessage exampleReply [] True = Inr b \<and> length b = 54
    \<and> unpackMessage b = Inr (wireMessage exampleReply, [])"
proof -
  have "\<not> isl (packMessage exampleReply [] True)
      \<and> length (projr (packMessage exampleReply [] True)) = 54" by code_simp
  then obtain b where b: "packMessage exampleReply [] True = Inr b" "length b = 54"
    by (cases "packMessage exampleReply [] True") auto
  moreover have "wf_message exampleReply" by code_simp
  ultimately show ?thesis using message_roundtrip [OF b(1)] by simp
qed

end
