(* ===== verification/Dns_Client.thy ===== *)
theory Dns_Client
  imports Dns_Mux_Run Dns_Message_Codec
begin

text \<open>
  The DNS client (\<open>dns/client.go\<close>, \<open>dns/session.go\<close>) with the resolver that \<open>executePIARequest\<close>
  (\<open>pia/pia.go\<close>) builds for one server: what a query for the server is answered with, that nothing is
  sent to a name server, and what becomes of an address that is not an IPv4 one.
\<close>

section \<open>The client\<close>

definition dnsDo ::
  "(message \<Rightarrow> msgerr) \<Rightarrow> muxEntry list \<Rightarrow> message \<Rightarrow> (msgerr \<times> message list) option" where
  \<comment> \<open>\<open>Client.do\<close> with a multiplexer as the resolver: the response, and what went upstream\<close>
  "dnsDo rt tbl r =
     map_option (\<lambda>w. (case cwErr w of Some e \<Rightarrow> Inl e | None \<Rightarrow> Inr (response (cwMsg w)), cwSent w))
       (muxServeDNS rt tbl r)"

definition sessionWrite :: "bytes \<Rightarrow> dns_error + message" where
  \<comment> \<open>\<open>packetSession.Write\<close>: the query it starts, the bytes after the message are not looked at\<close>
  "sessionWrite b = (case unpackMessage b of Inl e \<Rightarrow> Inl e | Inr (m, _) \<Rightarrow> Inr m)"

datatype packet =
    ReadFails dns_error | ReadUpstream dns_failure
  | ReadBytes bytes
  | ReadTruncates bytes          \<comment> \<open>longer than the buffer: goes on in \<open>truncate\<close>\<close>

definition sessionRead :: "nat \<Rightarrow> msgerr \<Rightarrow> packet" where
  \<comment> \<open>\<open>packetSession.Read\<close> into a buffer of the given size\<close>
  "sessionRead len me =
     (case me of
        Inl e \<Rightarrow> ReadUpstream e
      | Inr m \<Rightarrow>
          (case packMessage m [] True of
             Inl e \<Rightarrow> ReadFails e
           | Inr buf \<Rightarrow> if len < length buf then ReadTruncates buf else ReadBytes buf))"

section \<open>The resolver for one server\<close>

definition ipBytes :: "bytes \<Rightarrow> bytes" where
  \<comment> \<open>\<open>net.ParseIP\<close>, the empty slice for \<open>nil\<close>\<close>
  "ipBytes s = (case parseIP s of None \<Rightarrow> [] | Some ip \<Rightarrow> map char_of ip)"

definition regionZone :: "bytes \<Rightarrow> bytes \<Rightarrow> zone" where
  "regionZone cn ip =
     \<lparr>zOrigin = [], zTTL = 5 * 60 * second, zSOA = None, zRRs = [(cn, [(TypeA, [RA (ipBytes ip)])])]\<rparr>"

definition regionMux :: "bytes \<Rightarrow> bytes \<Rightarrow> muxEntry list" where
  "regionMux cn ip = [(TypeANY, zOrigin (regionZone cn ip), ZoneHandler (regionZone cn ip))]"

section \<open>What it answers\<close>

definition asksServer :: "bytes \<Rightarrow> question \<Rightarrow> bool" where
  "asksServer cn q \<longleftrightarrow> butlast (qName q) = cn \<and> qType q = TypeA"

definition serverRR :: "bytes \<Rightarrow> question \<Rightarrow> resource" where
  "serverRR ip q = writerRR (qName q) (5 * 60 * second) (RA (ipBytes ip))"

lemma region_lookup: "muxLookup (regionMux cn ip) q = ZoneHandler (regionZone cn ip)"
  by (simp add: regionMux_def regionZone_def hasSuffix_def)

lemma serve_region:
  assumes "qName q \<noteq> []" and "mQuestions r = [q]"
  shows "serveZone (regionZone cn ip) w r
    = Some (if asksServer cn q
        then w\<lparr>mAuthoritative := True, mAnswers := mAnswers w @ [serverRR ip q]\<rparr>
        else w\<lparr>mAuthoritative := True, mRCode := NXDomain\<rparr>)"
proof -
  have "relativeName (regionZone cn ip) (qName q) = Some (butlast (qName q))"
    using assms(1) by (cases "qName q") (auto simp: relativeName_def regionZone_def butlast_conv_take)
  moreover have "hasSuffix (qName q) []" by (simp add: hasSuffix_def)
  ultimately show ?thesis
    using assms
    by (auto simp: serveZone_def answerQuestion_def regionZone_def asksServer_def recordsOf_def Let_def
        serverRR_def writeAnswer_def)
qed

definition plainQuery :: "message \<Rightarrow> bool" where
  \<comment> \<open>a query with questions only, and possibly additional records\<close>
  "plainQuery r \<longleftrightarrow> mRCode r = NoError \<and> mAnswers r = [] \<and> mAuthorities r = [] \<and> mQuestions r \<noteq> []
     \<and> list_all (\<lambda>q. qName q \<noteq> []) (mQuestions r)"

definition regionReply :: "bytes \<Rightarrow> bytes \<Rightarrow> message \<Rightarrow> question list \<Rightarrow> message" where
  "regionReply cn ip r qs = (response r)\<lparr>mAuthoritative := True,
     mRCode := (if list_all (asksServer cn) qs then NoError else NXDomain),
     mQuestions := qs, mAnswers := map (serverRR ip) (filter (asksServer cn) qs),
     mAuthorities := [], mAdditionals := concat (replicate (length qs) (mAdditionals r))\<rparr>"

lemma region_own:
  assumes "plainQuery r" and "qName q \<noteq> []"
  shows "noPanic (newGoroutine (regionMux cn ip) r b q)"
    and "response (ownMsg (newGoroutine (regionMux cn ip) r b q)) = regionReply cn ip r [q]"
    and "gHandler (newGoroutine (regionMux cn ip) r b q) = ZoneHandler (regionZone cn ip)"
  using assms serve_region [of q "r\<lparr>mQuestions := [q]\<rparr>" cn ip]
  by (simp_all add: noPanic_def ownMsg_def newGoroutine_def region_lookup Let_def regionReply_def
      response_def plainQuery_def NoError_def)

lemma concat_replicate_commute: "concat (replicate n xs) @ xs = xs @ concat (replicate n xs)"
  by (induction n) simp_all

lemma region_merge:
  "mergeResponses (regionReply cn ip r [q]) (regionReply cn ip r qs) = regionReply cn ip r (qs @ [q])"
  using concat_replicate_commute [of "length qs" "mAdditionals r"]
  by (cases "asksServer cn q"; cases "list_all (asksServer cn) qs")
    (simp_all add: mergeResponses_def regionReply_def response_def NoError_def NXDomain_def)

lemma region_chain:
  assumes "plainQuery r" and "list_all (\<lambda>q. qName q \<noteq> []) (q # qs)"
  shows "foldl serveAfter (serveFirst (newGoroutine (regionMux cn ip) r False q))
      (map (newGoroutine (regionMux cn ip) r True) qs) = Replies (regionReply cn ip r (q # qs))"
  using assms(2)
proof (induction qs rule: rev_induct)
  case Nil
  then show ?case using region_own [OF assms(1)] by simp
next
  case (snoc x xs)
  then show ?case using region_own [OF assms(1), of x] region_merge [of cn ip r x "q # xs"] by simp
qed

lemma region_copy: "map copyRR (mAnswers (regionReply cn ip r qs)) = mAnswers (regionReply cn ip r qs)"
  by (simp add: regionReply_def copyRR_def serverRR_def writerRR_def)

lemma region_serve:
  assumes "plainQuery r"
  shows "muxServeDNS rt (regionMux cn ip) r = Some \<lparr>
      cwMsg = (regionReply cn ip r (mQuestions r))\<lparr>mAdditionals := mAdditionals r
        @ map copyRR (concat (replicate (length (mQuestions r)) (mAdditionals r)))\<rparr>,
      cwReq = r, cwErr = None, cwSent = []\<rparr>"
proof -
  obtain q qs where q: "mQuestions r = q # qs" using assms by (cases "mQuestions r") (auto simp: plainQuery_def)
  have ne: "list_all (\<lambda>q. qName q \<noteq> []) (q # qs)" using assms q by (simp add: plainQuery_def)
  then have np: "list_all noPanic (newGoroutine (regionMux cn ip) r False q
      # map (newGoroutine (regionMux cn ip) r True) qs)"
    using region_own(1) [OF assms] by (auto simp: list_all_iff)
  show ?thesis
    using assms q np region_chain [OF assms ne, of cn ip] region_copy [of cn ip r "q # qs"]
    by (simp add: muxServeDNS_def Let_def finishServe_def newWriter_def writeMessage_def plainQuery_def
        response_def requestCopy_def)
      (simp add: regionReply_def response_def)
qed

section \<open>The reply on the wire\<close>

function validFQDN :: "bytes \<Rightarrow> bool" where
  \<comment> \<open>labels of one to 63 bytes, each followed by a dot\<close>
  "validFQDN n =
     (n = [] \<or> (case indexByte n (CHR ''.'') of
                  None \<Rightarrow> False
                | Some i \<Rightarrow> 0 < i \<and> i \<le> 63 \<and> validFQDN (drop (Suc i) n)))"
  by pat_completeness auto
termination
  by (relation "measure length") (auto dest: indexByte_take(2))

declare validFQDN.simps [simp del]

lemma validFQDN_end: "validFQDN n \<Longrightarrow> n \<noteq> [] \<Longrightarrow> \<exists>p c. n = p @ [c, CHR ''.''] \<and> c \<noteq> CHR ''.''"
proof (induction n rule: validFQDN.induct)
  case (1 n)
  obtain i where i: "indexByte n (CHR ''.'') = Some i" "0 < i" "validFQDN (drop (Suc i) n)"
    using "1.prems" by (subst (asm) validFQDN.simps) (auto split: option.splits)
  let ?l = "take i n" and ?r = "drop (Suc i) n"
  have n: "n = ?l @ CHR ''.'' # ?r" by (rule indexByte_take(1) [OF i(1)])
  show ?case
  proof (cases "?r = []")
    case True
    have ne: "?l \<noteq> []" and dot: "CHR ''.'' \<notin> set ?l"
      using indexByte_SomeD [OF i(1)] i(2) by (auto simp: in_set_conv_nth)
    have "?l = butlast ?l @ [last ?l]" using ne by simp
    moreover have "last ?l \<noteq> CHR ''.''" using last_in_set [OF ne] dot by metis
    ultimately show ?thesis using n True by (metis append_Cons append_Nil append_assoc)
  next
    case False
    then obtain p c where "?r = p @ [c, CHR ''.'']" "c \<noteq> CHR ''.''"
      using "1.IH" [OF i(1) i(3)] by blast
    with n show ?thesis by (metis append_Cons append_assoc)
  qed
qed

lemma validFQDN_fqdn: "validFQDN n \<Longrightarrow> n \<noteq> [] \<Longrightarrow> fqdn n"
proof -
  assume "validFQDN n" "n \<noteq> []"
  then obtain p c where n: "n = p @ [c, CHR ''.'']" "c \<noteq> CHR ''.''" using validFQDN_end by blast
  have "n = (p @ [c]) @ ''.''" using n(1) by simp
  moreover have "n \<noteq> q @ ''..''" for q using n by auto
  ultimately show "fqdn n" by (auto simp: fqdn_def hasSuffix_iff)
qed

definition tbl_small :: "bytes \<Rightarrow> compressor \<Rightarrow> bool" where
  "tbl_small b com \<longleftrightarrow> comOffset com = 0
     \<and> (\<forall>t e. comTbl com = Some t \<longrightarrow> e \<in> set t \<longrightarrow> snd e \<le> length b)"

lemma small16: "n < 65536 \<Longrightarrow> unat (word_of_nat n :: 16 word) = n"
  by (simp add: unat_of_nat take_bit_nat_eq_self)

lemma packName_succeeds:
  assumes "validFQDN n \<or> n = ''.''" and "tbl_small b com" and "length b + length n < 65536"
  shows "\<exists>b' com'. packName com b n = Inr (b', com') \<and> tbl_small b' com'
    \<and> length b' \<le> length b + length n + 2"
  using assms
proof (induction com b n rule: packName.induct)
  case (1 com b n)
  consider (root) "n = ''.'' \<or> n = []"
    | (ptr) i where "n \<noteq> ''.''" "n \<noteq> []" "tblLookup com n = Some i"
    | (label) "n \<noteq> ''.''" "n \<noteq> []" "tblLookup com n = None" by blast
  then show ?case
  proof cases
    case root
    then show ?thesis
      using "1.prems"(2) by (auto simp: packName.simps [of com b n] tbl_small_def le_SucI)
  next
    case ptr
    then have "i \<le> length b"
      using "1.prems"(2) by (auto simp: tblLookup_def bind_eq_Some_conv tbl_small_def dest!: map_of_SomeD)
    then have "pointerTo i = Inr (putUint16 (or (word_of_nat i) 0xC000))"
      using "1.prems"(3) by (simp add: pointerTo_def small16)
    then show ?thesis
      using ptr "1.prems"(2) by (auto simp: packName.simps [of com b n] tbl_small_def le_SucI)
  next
    case label
    then obtain i where i: "indexByte n (CHR ''.'') = Some i" "0 < i" "i \<le> 63" "validFQDN (drop (Suc i) n)"
      using "1.prems"(1) by (subst (asm) (1) validFQDN.simps) (auto split: option.splits)
    have li: "i < length n" by (rule indexByte_take(2) [OF i(1)])
    obtain com1 where com1: "tblAdd com n (length b) = Inr com1" "tbl_small b com1"
      using "1.prems"(2,3) by (cases "comTbl com") (auto simp: tblAdd_def tbl_small_def small16)
    let ?b = "b @ char_of i # take i n"
    have "tbl_small ?b com1" using com1(2) by (force simp: tbl_small_def)
    moreover have "length ?b + length (drop (Suc i) n) < 65536" using "1.prems"(3) li by simp
    ultimately obtain b' com' where "packName com1 ?b (drop (Suc i) n) = Inr (b', com')"
      "tbl_small b' com'" "length b' \<le> length ?b + length (drop (Suc i) n) + 2"
      using "1.IH" [OF _ label(3) i(1) _ _ com1(1)] label i by auto
    then show ?thesis
      using label i com1(1) li by (auto simp: packName.simps [of com b n])
  qed
qed

definition optRecord :: "16 word \<Rightarrow> 32 word \<Rightarrow> resource" where
  \<comment> \<open>the EDNS record a resolver adds to its queries\<close>
  "optRecord cl ttl = \<lparr>rName = ''.'', rClass = cl, rTTL = uint ttl * second, rRecord = ROPT []\<rparr>"

lemma seconds_sdiv [simp]: "(x * second) sdiv second = x"
  by (simp add: second_def signed_divide_int_def sgn_if abs_mult)

lemma packUint32_word [simp]: "packUint32 (uint (w :: 32 word)) = Inr (putUint32 w)"
  by (simp add: packUint32_def)

lemma tbl_small_append: "tbl_small b com \<Longrightarrow> tbl_small (b @ s) com"
  by (force simp: tbl_small_def)

lemma packResource_opt:
  "packResource (optRecord cl ttl) b com
    = Inr (b @ CHR 0x00 # putUint16 TypeOPT @ putUint16 cl @ putUint32 ttl @ putUint16 0, com)"
  by (simp add: packResource_def optRecord_def packName.simps [of com b "''.''"] packInt16_def)

lemma packResource_server:
  assumes "validFQDN (qName q)" and "tbl_small b com" and "length b + length (qName q) < 65536"
    and "4 \<le> length (ipBytes ip)"
  shows "\<exists>b' com'. packResource (serverRR ip q) b com = Inr (b', com') \<and> tbl_small b' com'
    \<and> length b' \<le> length b + length (qName q) + 16"
proof -
  obtain b1 com1 where p: "packName com b (qName q) = Inr (b1, com1)" "tbl_small b1 com1"
    "length b1 \<le> length b + length (qName q) + 2"
    using packName_succeeds [OF _ assms(2,3)] assms(1) by blast
  have ttl: "packUint32 (5 * 60) = Inr (putUint32 300)" by (simp add: packUint32_def)
  have l: "packInt16 4 = Inr (putUint16 4)" by (simp add: packInt16_def)
  have q: "length (case ipTo4 (ipBytes ip) of None \<Rightarrow> [] | Some q \<Rightarrow> q) \<le> 4"
    by (auto simp: ipTo4_def)
  show ?thesis
    using p ttl l q assms(4)
    by (auto simp: packResource_def serverRR_def writerRR_def intro!: tbl_small_append)
qed

lemma packAll_opts:
  "\<exists>s. packAll packResource (map (\<lambda>(c, t). optRecord c t) os) b com = Inr (b @ s, com)
     \<and> length s = 11 * length os"
proof (induction os arbitrary: b)
  case (Cons x os)
  obtain c t where x: "x = (c, t)" by (cases x)
  let ?r = "CHR 0x00 # putUint16 TypeOPT @ putUint16 c @ putUint32 t @ putUint16 0"
  obtain s where "packAll packResource (map (\<lambda>(c, t). optRecord c t) os) (b @ ?r) com = Inr ((b @ ?r) @ s, com)"
    "length s = 11 * length os" using Cons.IH by blast
  then show ?case by (intro exI [of _ "?r @ s"]) (simp add: packResource_opt x)
qed simp

definition headerFields :: "message \<Rightarrow> bool" where
  \<comment> \<open>what every message read from the wire has\<close>
  "headerFields m \<longleftrightarrow> uint (word_of_int (mID m) :: 16 word) = mID m
     \<and> and (mOpCode m) 0xF = mOpCode m \<and> and (mRCode m) 0xF = mRCode m"

lemma sessionWrite_header: "sessionWrite b = Inr m \<Longrightarrow> headerFields m"
  by (auto simp: sessionWrite_def unpackMessage_def unpackHeader_def unpackSections_def Let_def headerFields_def
      and.assoc split: sum.splits if_splits)

lemma packHeader_succeeds:
  assumes "headerFields m" and "length (mQuestions m) < 65536" and "length (mAnswers m) < 65536"
    and "length (mAuthorities m) < 65536"
  shows "\<exists>h. packHeader m = Inr h \<and> length h = 12"
  using assms by (simp add: packHeader_def headerFields_def small16)

definition replyShape :: "bytes \<Rightarrow> question \<Rightarrow> (16 word \<times> 32 word) list \<Rightarrow> message \<Rightarrow> bool" where
  "replyShape ip q os m \<longleftrightarrow> headerFields m \<and> mQuestions m = [q]
     \<and> (mAnswers m = [] \<or> (mAnswers m = [serverRR ip q] \<and> 4 \<le> length (ipBytes ip)))
     \<and> mAuthorities m = [] \<and> mAdditionals m = map (\<lambda>(c, t). optRecord c t) os"

lemma packMessage_reply:
  assumes "replyShape ip q os m" and "validFQDN (qName q)" and "length (qName q) \<le> 254" and "length os \<le> 2"
  shows "\<exists>buf. packMessage m [] True = Inr buf \<and> length buf \<le> 600"
proof -
  let ?c = "\<lparr>comTbl = Some [], comOffset = 0\<rparr>"
  obtain h where h: "packHeader m = Inr h" "length h = 12"
    using packHeader_succeeds [of m] assms(1) by (auto simp: replyShape_def)
  have "tbl_small h ?c" by (simp add: tbl_small_def)
  then obtain b1 com1 where n: "packName ?c h (qName q) = Inr (b1, com1)" "tbl_small b1 com1"
    "length b1 \<le> length h + length (qName q) + 2"
    using packName_succeeds [of "qName q" h ?c] assms(2,3) h(2) by auto
  let ?b = "b1 @ putUint16 (qType q) @ putUint16 (qClass q)"
  have qn: "packAll packQuestion (mQuestions m) h ?c = Inr (?b, com1)"
    using n(1) assms(1) by (simp add: replyShape_def packQuestion_def)
  have small: "tbl_small ?b com1" using n(2) by (rule tbl_small_append)
  obtain b2 com2 where an: "packAll packResource (mAnswers m) ?b com1 = Inr (b2, com2)"
    "length b2 \<le> length ?b + length (qName q) + 16"
    using packResource_server [OF assms(2) small, of ip] n(3) h(2) assms(1,3)
    by (auto simp: replyShape_def)
  obtain s where ar: "packAll packResource (mAdditionals m) b2 com2 = Inr (b2 @ s, com2)" "length s \<le> 22"
    using packAll_opts [of os b2 com2] assms(1,4) by (auto simp: replyShape_def)
  have "packMessage m [] True = Inr (b2 @ s)"
    using h(1) qn an(1) ar(1) assms(1) by (simp add: packMessage_def packAll_append replyShape_def)
  then show ?thesis using an(2) ar(2) n(3) h(2) assms(3) by simp
qed

section \<open>A lookup from end to end\<close>

definition ednsOnly :: "message \<Rightarrow> bool" where
  "ednsOnly r \<longleftrightarrow> (\<exists>os. mAdditionals r = map (\<lambda>(c, t). optRecord c t) os \<and> length os \<le> 1)"

definition regionLookup :: "(message \<Rightarrow> msgerr) \<Rightarrow> bytes \<Rightarrow> bytes \<Rightarrow> bytes \<Rightarrow> nat \<Rightarrow> (packet \<times> message list) option" where
  \<comment> \<open>a query written to a connection of the resolver and the reply read from it\<close>
  "regionLookup rt cn ip b len =
     (case sessionWrite b of
        Inl e \<Rightarrow> None
      | Inr r \<Rightarrow> map_option (\<lambda>(me, sent). (sessionRead len me, sent)) (dnsDo rt (regionMux cn ip) r))"

lemma copy_opt [simp]: "copyRR (optRecord c t) = optRecord ClassIN t"
  by (simp add: copyRR_def writerRR_def optRecord_def)

definition regionResponse :: "bytes \<Rightarrow> bytes \<Rightarrow> message \<Rightarrow> question \<Rightarrow> message" where
  "regionResponse cn ip r q =
     (regionReply cn ip r [q])\<lparr>mAdditionals := mAdditionals r @ map copyRR (mAdditionals r)\<rparr>"

lemma region_do:
  assumes "plainQuery r" and "mQuestions r = [q]"
  shows "dnsDo rt (regionMux cn ip) r = Some (Inr (regionResponse cn ip r q), [])"
  using region_serve [OF assms(1)] assms(2)
  by (simp add: dnsDo_def regionResponse_def regionReply_def response_def)

lemma region_shape:
  assumes "headerFields r" and "plainQuery r" and "mAdditionals r = map (\<lambda>(c, t). optRecord c t) os"
    and "asksServer cn q \<Longrightarrow> 4 \<le> length (ipBytes ip)"
  shows "replyShape ip q (os @ map (\<lambda>(c, t). (ClassIN, t)) os) (regionResponse cn ip r q)"
  using assms
  by (auto simp: replyShape_def regionResponse_def regionReply_def response_def headerFields_def NXDomain_def
      NoError_def)

lemma prefix_bytes: "map char_of v4InV6Prefix = replicate 10 (CHR 0x00) @ [CHR 0xFF, CHR 0xFF]"
  by code_simp

lemma ipBytes_v4:
  assumes "parseIP ip = Some (v4InV6Prefix @ quad)"
  shows "ipTo4 (ipBytes ip) = Some (map char_of quad)" and "4 \<le> length (ipBytes ip)"
proof -
  have ip: "ipBytes ip = map char_of v4InV6Prefix @ map char_of quad" using assms by (simp add: ipBytes_def)
  have p: "length (map char_of v4InV6Prefix :: bytes) = 12" unfolding prefix_bytes by simp
  have l: "length quad = 4" using parseIP_shape [OF assms] p by simp
  show "ipTo4 (ipBytes ip) = Some (map char_of quad)"
    using p l by (simp add: ipTo4_def ip flip: prefix_bytes)
  show "4 \<le> length (ipBytes ip)" using l by (simp add: ip)
qed

lemma fqdn_root: "fqdn ''.''"
  by (simp add: fqdn_def hasSuffix_def)

lemma whole_seconds_times [simp]: "whole_seconds (x * second)"
  by (simp add: whole_seconds_def)

lemma reply_wf:
  assumes "replyShape ip q os m" and "fqdn (qName q)" and "mAnswers m \<noteq> [] \<Longrightarrow> ipTo4 (ipBytes ip) \<noteq> None"
  shows "wf_message m"
proof -
  have "list_all wf_resource (map (\<lambda>(c, t). optRecord c t) os)"
    by (auto simp: list_all_iff wf_resource_def optRecord_def fqdn_root)
  moreover have "list_all wf_resource (mAnswers m)"
    using assms by (auto simp: replyShape_def wf_resource_def serverRR_def writerRR_def)
  ultimately show ?thesis using assms by (auto simp: wf_message_def replyShape_def)
qed

lemma wire_server:
  assumes "parseIP ip = Some (v4InV6Prefix @ quad)"
  shows "wireResource (serverRR ip q) = \<lparr>rName = qName q, rClass = ClassIN, rTTL = 300 * second,
    rRecord = RA (map char_of quad)\<rparr>"
  using ipBytes_v4(1) [OF assms] by (simp add: serverRR_def writerRR_def wireResource_def)

text \<open>
  C20: the address a registration connects to is the one the server list states. Take a query
  that the session reads, of the kind the resolver of Go sends: a plain query with one question, for
  a valid fully qualified name of at most 254 bytes, whose only additional record, if any, is an
  EDNS option; let the address of the server list be one that \<open>net.ParseIP\<close> reads as IPv4,
  and the buffer of the reader have at least 600 bytes. Then the resolver built for the server
  answers: asked for the IPv4 address of the common name it replies with exactly that address
  and five minutes to live, asked for anything else it says that the name does not exist; the
  reply has the number and the question of the query, fits the buffer, is decoded to what was
  meant, and no message is sent to a name server. Queries that are not of this kind are outside
  the statement.
\<close>

theorem region_lookup_end_to_end:
  assumes "sessionWrite b = Inr r" and "plainQuery r" and "mQuestions r = [q]" and "ednsOnly r"
    and "validFQDN (qName q)" and "length (qName q) \<le> 254" and "600 \<le> len"
    and "parseIP ip = Some (v4InV6Prefix @ quad)"
  shows "\<exists>buf m. regionLookup rt cn ip b len = Some (ReadBytes buf, []) \<and> unpackMessage buf = Inr (m, [])
    \<and> mID m = mID r \<and> mResponse m \<and> mQuestions m = [q]
    \<and> (if asksServer cn q
        then mRCode m = NoError \<and> mAnswers m = [\<lparr>rName = qName q, rClass = ClassIN, rTTL = 300 * second,
          rRecord = RA (map char_of quad)\<rparr>]
        else mRCode m = NXDomain \<and> mAnswers m = [])"
proof -
  let ?m = "regionResponse cn ip r q"
  note v4 = ipBytes_v4 [OF assms(8)]
  obtain os where os: "mAdditionals r = map (\<lambda>(c, t). optRecord c t) os" "length os \<le> 1"
    using assms(4) by (auto simp: ednsOnly_def)
  let ?os = "os @ map (\<lambda>(c, t). (ClassIN, t)) os"
  have sh: "replyShape ip q ?os ?m"
    using region_shape [OF sessionWrite_header [OF assms(1)] assms(2) os(1)] v4(2) by blast
  obtain buf where buf: "packMessage ?m [] True = Inr buf" "length buf \<le> 600"
    using packMessage_reply [OF sh assms(5,6)] os(2) by auto
  have "qName q \<noteq> []" using assms(2,3) by (simp add: plainQuery_def)
  then have "wf_message ?m" using reply_wf [OF sh validFQDN_fqdn [OF assms(5)]] v4(1) by simp
  then have "unpackMessage buf = Inr (wireMessage ?m, [])" 
    using unpackMessage_packed [OF buf(1), of "[]"] buf(2) by simp
  moreover have "regionLookup rt cn ip b len = Some (ReadBytes buf, [])"
    using assms(1,7) region_do [OF assms(2,3)] buf by (simp add: regionLookup_def sessionRead_def)
  ultimately show ?thesis
    by (intro exI [of _ buf] exI [of _ "wireMessage ?m"])
      (simp add: wireMessage_def regionResponse_def regionReply_def response_def wire_server [OF assms(8)])
qed

lemma packMessage_bad:
  assumes "headerFields m" and "mQuestions m = [q]" and "mAnswers m = [serverRR ip q]"
    and "mAuthorities m = []" and "ipBytes ip = []" and "validFQDN (qName q)" and "length (qName q) \<le> 254"
  shows "packMessage m [] True = Inl ResourceLen"
proof -
  let ?c = "\<lparr>comTbl = Some [], comOffset = 0\<rparr>"
  obtain h where h: "packHeader m = Inr h" "length h = 12"
    using packHeader_succeeds [of m] assms(1-4) by auto
  have "tbl_small h ?c" by (simp add: tbl_small_def)
  then obtain b1 com1 where n: "packName ?c h (qName q) = Inr (b1, com1)" "tbl_small b1 com1"
    "length b1 \<le> length h + length (qName q) + 2"
    using packName_succeeds [of "qName q" h ?c] assms(6,7) h(2) by auto
  let ?b = "b1 @ putUint16 (qType q) @ putUint16 (qClass q)"
  have small: "tbl_small ?b com1" using n(2) by (rule tbl_small_append)
  have "length ?b + length (qName q) < 65536" using n(3) h(2) assms(7) by simp
  then obtain b2 com2 where "packName com1 ?b (qName q) = Inr (b2, com2)"
    using packName_succeeds [OF _ small] assms(6) by blast
  then have "packResource (serverRR ip q) ?b com1 = Inl ResourceLen"
    using assms(5) by (simp add: packResource_def serverRR_def writerRR_def packUint32_def packInt16_def)
  then show ?thesis
    using h(1) n(1) assms(2,3) by (simp add: packMessage_def packQuestion_def)
qed

text \<open>
  An address in the server list that is no IP address is not noticed when the resolver is
  built: the lookup of the server fails when the reply is encoded, with nothing sent anywhere.
\<close>

theorem region_lookup_bad_address:
  assumes "sessionWrite b = Inr r" and "plainQuery r" and "mQuestions r = [q]" and "asksServer cn q"
    and "validFQDN (qName q)" and "length (qName q) \<le> 254" and "parseIP ip = None"
  shows "regionLookup rt cn ip b len = Some (ReadFails ResourceLen, [])"
proof -
  have "packMessage (regionResponse cn ip r q) [] True = Inl ResourceLen"
    using sessionWrite_header [OF assms(1)] assms(4,7)
    by (intro packMessage_bad [where ip = ip, OF _ _ _ _ _ assms(5,6)])
      (simp_all add: headerFields_def regionResponse_def regionReply_def response_def NoError_def ipBytes_def)
  then show ?thesis
    using assms(1) region_do [OF assms(2,3)] by (simp add: regionLookup_def sessionRead_def)
qed

lemma ipv6_announced_not_written:
  \<comment> \<open>the record of an IPv6 address announces four bytes and writes none\<close>
  assumes "ipTo4 ip = None" and "4 \<le> length ip"
  shows "lengthRData (RA ip) com = Inr 4" and "packRData (RA ip) b com = Inr (b, com)"
  using assms by simp_all

definition exampleQuestion :: question where
  "exampleQuestion = \<lparr>qName = ''srv1.'', qType = TypeA, qClass = ClassIN\<rparr>"

definition exampleDnsQuery :: message where
  \<comment> \<open>as the resolver of package \<open>net\<close> sends it\<close>
  "exampleDnsQuery = \<lparr>mID = 7, mResponse = False, mOpCode = 0, mAuthoritative = False, mTruncated = False,
     mRecursionDesired = True, mRecursionAvailable = False, mRCode = 0, mQuestions = [exampleQuestion],
     mAnswers = [], mAuthorities = [], mAdditionals = [optRecord 1232 0]\<rparr>"

definition examplePacket :: bytes where
  "examplePacket =
     map char_of ([0, 7, 1, 0, 0, 1, 0, 0, 0, 0, 0, 1, 4] :: nat list) @ ''srv1''
     @ map char_of ([0, 0, 1, 0, 1, 0, 0, 41, 4, 208, 0, 0, 0, 0, 0, 0] :: nat list)"

lemma examplePacket_read: "sessionWrite examplePacket = Inr exampleDnsQuery"
  by code_simp

theorem region_lookup_end_to_end_witness:
  "\<exists>buf m. regionLookup (\<lambda>_. Inl UpstreamError) ''srv1'' ''10.0.0.1'' examplePacket 1232 = Some (ReadBytes buf, [])
    \<and> unpackMessage buf = Inr (m, []) \<and> mID m = 7
    \<and> mAnswers m = [\<lparr>rName = ''srv1.'', rClass = ClassIN, rTTL = 300 * second,
        rRecord = RA (map char_of ([10, 0, 0, 1] :: nat list))\<rparr>]"
proof -
  have "parseIP ''10.0.0.1'' = Some (v4InV6Prefix @ [10, 0, 0, 1])" by code_simp
  moreover have "plainQuery exampleDnsQuery" by code_simp
  moreover have "mQuestions exampleDnsQuery = [exampleQuestion]" by (simp add: exampleDnsQuery_def)
  moreover have "ednsOnly exampleDnsQuery"
    by (auto simp: ednsOnly_def exampleDnsQuery_def intro!: exI [of _ "[(1232, 0)]"])
  moreover have "validFQDN (qName exampleQuestion)" "asksServer ''srv1'' exampleQuestion" by code_simp+
  moreover have "length (qName exampleQuestion) \<le> 254" "qName exampleQuestion = ''srv1.''"
    by (simp_all add: exampleQuestion_def)
  moreover have "mID exampleDnsQuery = 7" by (simp add: exampleDnsQuery_def)
  ultimately show ?thesis
    using region_lookup_end_to_end [OF examplePacket_read, where len = 1232 and cn = "''srv1''"
      and ip = "''10.0.0.1''" and quad = "[10, 0, 0, 1]" and q = exampleQuestion
      and rt = "\<lambda>_. Inl UpstreamError"]
    by auto
qed

theorem region_lookup_bad_address_witness:
  "regionLookup (\<lambda>_. Inl UpstreamError) ''srv1'' ''no address'' examplePacket 1232
    = Some (ReadFails ResourceLen, [])"
proof (rule region_lookup_bad_address [OF examplePacket_read])
  show "plainQuery exampleDnsQuery" "asksServer ''srv1'' exampleQuestion"
    "validFQDN (qName exampleQuestion)" "parseIP ''no address'' = None" by code_simp+
qed (simp_all add: exampleDnsQuery_def exampleQuestion_def)

text \<open>
  No query of a registration leaves the program. Whatever questions a query asks, in whatever
  number, the resolver built for a server answers all of them itself: nothing is sent to a name
  server, and the answers are the address of the server, once for every question that asks for
  it, in the order of the questions.
\<close>

theorem region_never_upstream:
  assumes "plainQuery r"
  shows "\<exists>m. dnsDo rt (regionMux cn ip) r = Some (Inr m, [])
    \<and> mAnswers m = map (serverRR ip) (filter (asksServer cn) (mQuestions r))
    \<and> mRCode m = (if list_all (asksServer cn) (mQuestions r) then NoError else NXDomain)"
  using region_serve [OF assms, of rt cn ip]
  by (simp add: dnsDo_def response_def regionReply_def)

theorem region_never_upstream_witness:
  "\<exists>m. dnsDo (\<lambda>_. Inl UpstreamError) (regionMux ''srv1'' ''10.0.0.1'')
      (exampleDnsQuery\<lparr>mQuestions := [exampleQuestion, exampleQuestion\<lparr>qName := ''other.''\<rparr>, exampleQuestion]\<rparr>)
        = Some (Inr m, [])
    \<and> mAnswers m = [serverRR ''10.0.0.1'' exampleQuestion, serverRR ''10.0.0.1'' exampleQuestion]"
proof -
  let ?r = "exampleDnsQuery\<lparr>mQuestions := [exampleQuestion, exampleQuestion\<lparr>qName := ''other.''\<rparr>, exampleQuestion]\<rparr>"
  have "plainQuery ?r" by code_simp
  moreover have "filter (asksServer ''srv1'') (mQuestions ?r) = [exampleQuestion, exampleQuestion]"
    by (simp add: asksServer_def exampleQuestion_def)
  ultimately show ?thesis using region_never_upstream [of ?r "\<lambda>_. Inl UpstreamError" "''srv1''" "''10.0.0.1''"]
    by auto
qed

end
