(* ===== verification/Dns_Session.thy ===== *)
theory Dns_Session
  imports Dns_Client
begin

text \<open>
  The rest of a session (\<open>dns/session.go\<close>, \<open>dns/client.go\<close>): messages over a stream with their two
  bytes of length, a packet that does not fit the buffer of its reader, and the round trip to a
  name server with its own message numbers.
\<close>

section \<open>Message numbers\<close>

definition nextID :: "32 word \<Rightarrow> int \<times> 32 word" where
  "nextID c = (uint (and (c + 1) 0xFFFF), c + 1)"

definition clientRoundtrip :: "(message \<Rightarrow> msgerr) \<Rightarrow> 32 word \<Rightarrow> message \<Rightarrow> msgerr \<times> 32 word" where
  \<comment> \<open>the first argument is what \<open>Send\<close> and \<open>Recv\<close> on the connection make of a message\<close>
  "clientRoundtrip exchange c query =
     (let (i, c') = nextID c in
      (case exchange (query\<lparr>mID := i\<rparr>) of Inl e \<Rightarrow> Inl e | Inr m \<Rightarrow> Inr (m\<lparr>mID := mID query\<rparr>), c'))"

lemma nextID_range: "0 \<le> fst (nextID c) \<and> fst (nextID c) < 65536"
proof -
  have "(0xFFFF :: 32 word) = mask 16" by (simp add: mask_eq_exp_minus_1)
  then have "and (c + 1) 0xFFFF = take_bit 16 (c + 1)" by (simp add: take_bit_eq_mask)
  then have "uint (and (c + 1) 0xFFFF) = take_bit 16 (uint (c + 1))" by (simp add: unsigned_take_bit_eq)
  then show ?thesis using take_bit_int_less_exp [of 16 "uint (c + 1)"] by (simp add: nextID_def)
qed

lemma roundtrip_number: "clientRoundtrip exchange c q = (Inr m, c') \<Longrightarrow> mID m = mID q"
  by (auto simp: clientRoundtrip_def nextID_def split: sum.splits)

section \<open>Streams\<close>

datatype stream_error =
    ShortWrite | StreamUnpack dns_error
  | StreamUpstream dns_failure | StreamPack dns_error | OversizedMessage | StreamPanic

definition frame :: "bytes \<Rightarrow> bytes" where
  "frame b = putUint16 (word_of_nat (length b)) @ b"

definition streamWrite :: "bytes \<Rightarrow> stream_error + message" where
  \<comment> \<open>\<open>streamSession.Write\<close>: the query it starts\<close>
  "streamWrite b =
     (if length b < 2 then Inl ShortWrite
      else if unat (uint16 b) \<noteq> length (drop 2 b) then Inl ShortWrite
      else (case unpackMessage (drop 2 b) of Inl e \<Rightarrow> Inl (StreamUnpack e) | Inr (m, _) \<Rightarrow> Inr m))"

definition streamRead :: "nat \<Rightarrow> bytes \<Rightarrow> msgerr \<Rightarrow> (stream_error + bytes) \<times> bytes" where
  \<comment> \<open>\<open>streamSession.Read\<close> into a buffer of the given size, with \<open>rbuf\<close> before and after; the reply
      is taken from the channel when \<open>rbuf\<close> is empty\<close>
  "streamRead len rbuf me =
     (if rbuf \<noteq> [] then (Inr (take len rbuf), drop len rbuf)
      else
        (case me of
           Inl e \<Rightarrow> (Inl (StreamUpstream e), [])
         | Inr m \<Rightarrow>
             (case packMessage m [] True of
                Inl e \<Rightarrow> (Inl (StreamPack e), [])
              | Inr buf \<Rightarrow>
                  if unat (word_of_nat (length buf) :: 16 word) \<noteq> length buf
                    then (Inl OversizedMessage, buf)
                  else if len < 2 then (Inl StreamPanic, buf)
                  else (Inr (putUint16 (word_of_nat (length buf)) @ take (len - 2) buf), drop (len - 2) buf))))"

fun streamReads :: "nat list \<Rightarrow> bytes \<Rightarrow> msgerr \<Rightarrow> (stream_error + bytes) \<times> bytes" where
  \<comment> \<open>what a reader collects with buffers of these sizes until the reply is used up\<close>
  "streamReads [] rbuf me = (Inr [], rbuf)"
| "streamReads (n # ns) rbuf me =
     (case streamRead n rbuf me of
        (Inl e, r) \<Rightarrow> (Inl e, r)
      | (Inr s, r) \<Rightarrow>
          if r = [] then (Inr s, [])
          else (case streamReads ns r me of (Inl e, r') \<Rightarrow> (Inl e, r') | (Inr t, r') \<Rightarrow> (Inr (s @ t), r')))"

lemma streamReads_rest:
  "rbuf \<noteq> [] \<Longrightarrow> streamReads ns rbuf me = (Inr (take (sum_list ns) rbuf), drop (sum_list ns) rbuf)"
proof (induction ns arbitrary: rbuf)
  case (Cons n ns)
  then show ?case
    by (cases "drop n rbuf = []") (auto simp: streamRead_def add.commute take_add)
qed simp

text \<open>
  A reply arrives over a stream as its length and its bytes, in pieces of any sizes the reader
  likes, as long as the first one has room for the length.
\<close>

theorem stream_delivers_frame:
  assumes "packMessage m [] True = Inr buf" and "length buf < 65536" and "2 \<le> n"
  shows "streamReads (n # ns) [] (Inr m)
    = (Inr (take (n + sum_list ns) (frame buf)), drop (n + sum_list ns) (frame buf))"
proof -
  have l: "unat (word_of_nat (length buf) :: 16 word) = length buf" using assms(2) by (rule small16)
  obtain j where n: "n = 2 + j" using assms(3) le_Suc_ex by blast
  let ?p = "putUint16 (word_of_nat (length buf))" and ?k = "sum_list ns"
  have all: "take (n + ?k) (frame buf) = ?p @ take (j + ?k) buf" "drop (n + ?k) (frame buf) = drop (j + ?k) buf"
    by (simp_all add: frame_def n)
  have first: "streamRead n [] (Inr m) = (Inr (?p @ take j buf), drop j buf)"
    using assms(1) l by (simp add: streamRead_def n)
  show ?thesis
  proof (cases "drop j buf = []")
    case True
    then show ?thesis using first all by simp
  next
    case False
    then show ?thesis
      unfolding all using first streamReads_rest [OF False, of ns "Inr m"] by (simp add: take_add add.commute)
  qed
qed

theorem stream_roundtrip:
  assumes "packMessage m [] True = Inr b" and "wf_message m" and "length b \<le> 16384"
  shows "streamWrite (frame b) = Inr (wireMessage m)"
proof -
  have "unat (word_of_nat (length b) :: 16 word) = length b" using assms(3) by (intro small16) simp
  then show ?thesis using unpackMessage_packed [OF assms, of "[]"] by (simp add: streamWrite_def frame_def)
qed

lemma oversized_reply_unframed:
  \<comment> \<open>after the error the buffer still holds the message, and the next read gives it without a length\<close>
  assumes "packMessage m [] True = Inr buf" and "unat (word_of_nat (length buf) :: 16 word) \<noteq> length buf"
  shows "streamRead len [] (Inr m) = (Inl OversizedMessage, buf)"
    and "streamRead len' buf me = (Inr (take len' buf), drop len' buf)"
  using assms by (auto simp: streamRead_def)

section \<open>A packet that does not fit\<close>

fun unpackWhile :: "nat \<Rightarrow> (bytes \<Rightarrow> dns_error + 'a \<times> bytes) \<Rightarrow> bytes \<Rightarrow> 'a list \<times> (dns_error + bytes)" where
  \<comment> \<open>the entries of a section up to the first that fails\<close>
  "unpackWhile 0 unpack b = ([], Inr b)"
| "unpackWhile (Suc k) unpack b =
     (case unpack b of
        Inl e \<Rightarrow> ([], Inl e)
      | Inr (x, b1) \<Rightarrow> (case unpackWhile k unpack b1 of (xs, r) \<Rightarrow> (x # xs, r)))"

lemma unpackWhile_unpackN:
  "unpackN k unpack b = (case unpackWhile k unpack b of (xs, Inl e) \<Rightarrow> Inl e | (xs, Inr r) \<Rightarrow> Inr (xs, r))"
  by (induction k arbitrary: b) (auto split: sum.splits prod.splits)

definition unpackPartial :: "bytes \<Rightarrow> dns_error + message \<times> dns_error option" where
  \<comment> \<open>\<open>Message.Unpack\<close> with what it has stored in the message when it fails\<close>
  "unpackPartial b =
     (case unpackHeader b of
        Inl e \<Rightarrow> Inl e
      | Inr (m, (qd, an, ns, ar), b1) \<Rightarrow>
          Inr (case unpackWhile qd (unpackQuestion (Some b)) b1 of
             (qs, Inl e) \<Rightarrow> (m\<lparr>mQuestions := qs\<rparr>, Some e)
           | (qs, Inr b2) \<Rightarrow>
               (case unpackWhile an (unpackResource (Some b)) b2 of
                  (ans, Inl e) \<Rightarrow> (m\<lparr>mQuestions := qs, mAnswers := ans\<rparr>, Some e)
                | (ans, Inr b3) \<Rightarrow>
                    (case unpackWhile ns (unpackResource (Some b)) b3 of
                       (auths, Inl e) \<Rightarrow> (m\<lparr>mQuestions := qs, mAnswers := ans, mAuthorities := auths\<rparr>, Some e)
                     | (auths, Inr b4) \<Rightarrow>
                         (case unpackWhile ar (unpackResource (Some b)) b4 of
                            (adds, r) \<Rightarrow>
                              (m\<lparr>mQuestions := qs, mAnswers := ans, mAuthorities := auths, mAdditionals := adds\<rparr>,
                               case r of Inl e \<Rightarrow> Some e | Inr _ \<Rightarrow> None))))))"

lemma unpackPartial_complete:
  "unpackMessage b = Inr (m, r) \<Longrightarrow> unpackPartial b = Inr (m, None)"
  by (auto simp: unpackMessage_def unpackSections_def unpackPartial_def unpackWhile_unpackN
      split: sum.splits prod.splits)

lemma unpackPartial_fails:
  "unpackMessage b = Inl e \<Longrightarrow> unpackPartial b = Inl e \<or> (\<exists>m. unpackPartial b = Inr (m, Some e))"
  by (auto simp: unpackMessage_def unpackSections_def unpackPartial_def unpackWhile_unpackN
      split: sum.splits prod.splits)

definition truncateReply :: "bytes \<Rightarrow> dns_error + bytes" where
  \<comment> \<open>\<open>truncate\<close> on the array below the reply: always its first 512 bytes, whatever the
      length it is given; the array must have that many\<close>
  "truncateReply arr =
     (if length arr < 512 then Inl IndexPanic
      else
        (case unpackPartial (take 512 arr) of
           Inl e \<Rightarrow> Inl e
         | Inr (m, err) \<Rightarrow>
             if err \<noteq> None \<and> err \<noteq> Some ResourceLen \<and> err \<noteq> Some BaseLen then Inl (the err)
             else packMessage (m\<lparr>mTruncated := True\<rparr>) [] True))"

definition packetRead :: "bytes \<Rightarrow> nat \<Rightarrow> msgerr \<Rightarrow> (dns_failure + dns_error) + nat \<times> bytes" where
  \<comment> \<open>the whole of \<open>packetSession.Read\<close>: the count it returns and the bytes it puts into the
      buffer; the first argument is what follows the reply in its array\<close>
  "packetRead spare len me =
     (case sessionRead len me of
        ReadUpstream e \<Rightarrow> Inl (Inl e)
      | ReadFails e \<Rightarrow> Inl (Inr e)
      | ReadBytes buf \<Rightarrow> Inr (length buf, buf)
      | ReadTruncates buf \<Rightarrow>
          (case truncateReply (buf @ spare) of
             Inl e \<Rightarrow> Inl (Inr e)
           | Inr buf' \<Rightarrow> Inr (length buf', take len buf')))"

definition longNames :: bytes where
  \<comment> \<open>the start of a message with one question, whose last label in the first 512 bytes goes on after them\<close>
  "longNames = map char_of ([0, 1, 0x80, 0, 0, 1, 0, 0, 0, 0, 0, 0] :: nat list)
     @ concat (replicate 8 (char_of (63 :: nat) # replicate 63 (CHR ''a'')))"

lemma cut_label_not_truncated:
  \<comment> \<open>only a cut between fields is expected; a cut inside a label makes the reading fail\<close>
  "truncateReply longNames = Inl CalcLen"
  by code_simp

end
