(* ===== verification/Go_Flag.thy ===== *)
theory Go_Flag
  imports Cli_Context
begin

text \<open>
  The package \<open>flag\<close> of the standard library as far as the command line of the program uses
  it: flag sets with string, integer and boolean flags, and \<open>FlagSet.Parse\<close>. Integer flags
  are read by \<open>strconv.ParseInt\<close> with base 0, which takes prefixes and underscores that
  \<open>strconv.Atoi\<close> does not take.
\<close>

section \<open>strconv with base 0\<close>

definition lowerByte :: "char \<Rightarrow> nat" where
  \<comment> \<open>\<open>c | ('x' - 'X')\<close>\<close>
  "lowerByte c = or (byte c) 32"

definition basePrefix :: "bytes \<Rightarrow> nat \<times> bytes" where
  "basePrefix s =
     (if s = [] \<or> hd s \<noteq> CHR ''0'' then (10, s)
      else if 3 \<le> length s \<and> lowerByte (s ! 1) = 98 then (2, drop 2 s)
      else if 3 \<le> length s \<and> lowerByte (s ! 1) = 111 then (8, drop 2 s)
      else if 3 \<le> length s \<and> lowerByte (s ! 1) = 120 then (16, drop 2 s)
      else (8, drop 1 s))"

datatype saw = SawStart | SawDigit | SawUnderscore | SawOther

fun underscore_loop :: "bool \<Rightarrow> saw \<Rightarrow> bytes \<Rightarrow> bool" where
  "underscore_loop hex saw [] = (saw \<noteq> SawUnderscore)"
| "underscore_loop hex saw (c # cs) =
     (if is_digit c \<or> hex \<and> 97 \<le> lowerByte c \<and> lowerByte c \<le> 102 then underscore_loop hex SawDigit cs
      else if c = CHR ''_'' then saw = SawDigit \<and> underscore_loop hex SawUnderscore cs
      else saw \<noteq> SawUnderscore \<and> underscore_loop hex SawOther cs)"

definition underscoreOK :: "bytes \<Rightarrow> bool" where
  \<comment> \<open>for a text without a sign\<close>
  "underscoreOK s =
     (if 2 \<le> length s \<and> hd s = CHR ''0'' \<and> lowerByte (s ! 1) \<in> {98, 111, 120}
      then underscore_loop (lowerByte (s ! 1) = 120) SawDigit (drop 2 s)
      else underscore_loop False SawStart s)"

definition parseUint0 :: "bytes \<Rightarrow> nat option" where
  "parseUint0 s =
     (if s = [] then None
      else
        (let (base, rest) = basePrefix s in
         case parse_uint_loop base (2 ^ 64 - 1) 0 (filter (\<lambda>c. c \<noteq> CHR ''_'') rest) of
           None \<Rightarrow> None
         | Some n \<Rightarrow> if CHR ''_'' \<in> set rest \<and> \<not> underscoreOK s then None else Some n))"

definition parseInt0 :: "bytes \<Rightarrow> int option" where
  \<comment> \<open>\<open>strconv.ParseInt(s, 0, 64)\<close>\<close>
  "parseInt0 s =
     (case s of
        [] \<Rightarrow> None
      | c # cs \<Rightarrow>
          (let neg = (c = CHR ''-'');
               rest = (if c = CHR ''+'' \<or> c = CHR ''-'' then cs else s)
           in case parseUint0 rest of
                None \<Rightarrow> None
              | Some un \<Rightarrow>
                  if \<not> neg \<and> 2 ^ 63 \<le> un then None
                  else if neg \<and> 2 ^ 63 < un then None
                  else Some (if neg then - int un else int un)))"

definition parseBool :: "bytes \<Rightarrow> bool option" where
  "parseBool s =
     (if s \<in> {''1'', ''t'', ''T'', ''true'', ''TRUE'', ''True''} then Some True
      else if s \<in> {''0'', ''f'', ''F'', ''false'', ''FALSE'', ''False''} then Some False
      else None)"

text \<open>A decimal numeral is read the same way with base 0 and with base 10.\<close>

lemma parseUint0_digits:
  assumes "s \<noteq> []" and "list_all is_digit s" and "hd s \<noteq> CHR ''0'' \<or> s = ''0''"
  shows "parseUint0 s = parseUint s 10 64"
proof (cases "s = ''0''")
  case True
  have "parseUint0 ''0'' = parseUint ''0'' 10 64" by code_simp
  then show ?thesis using True by simp
next
  case False
  have u: "CHR ''_'' \<notin> set s" using assms(2) by (auto simp: list_all_iff is_digit_def)
  then have f: "filter (\<lambda>c. c \<noteq> CHR ''_'') s = s" by (auto simp: filter_id_conv)
  have b: "basePrefix s = (10, s)" using assms(3) False by (simp add: basePrefix_def)
  show ?thesis
    unfolding parseUint0_def parseUint_def b Let_def prod.case f
    using assms(1) u by (simp split: option.split)
qed

lemma utoa_plain: "hd (utoa n) \<noteq> CHR ''0'' \<or> utoa n = ''0''"
  using utoa_hd_nonzero [of n] by (cases "n = 0") (auto simp: utoa.simps [of 0] digit_char_def)

lemma parseInt0_digits:
  assumes "s \<noteq> []" and "list_all is_digit s" and "hd s \<noteq> CHR ''0'' \<or> s = ''0''"
  shows "parseInt0 s = atoi s" "parseInt0 (CHR ''-'' # s) = atoi (CHR ''-'' # s)"
proof -
  obtain c cs where s: "s = c # cs" using assms(1) by (cases s) auto
  then have "c \<noteq> CHR ''-''" "c \<noteq> CHR ''+''" using assms(2) by (auto simp: is_digit_def)
  then show "parseInt0 s = atoi s" "parseInt0 (CHR ''-'' # s) = atoi (CHR ''-'' # s)"
    using parseUint0_digits [OF assms] by (simp_all add: parseInt0_def atoi_def parseInt64_def s)
qed

lemma parseInt0_itoa: "parseInt0 (itoa i) = atoi (itoa i)"
  using parseInt0_digits [OF utoa_nonempty utoa_digits utoa_plain] by (simp add: itoa_def)

section \<open>Flag sets\<close>

datatype flag_value = StringValue bytes | IntValue int | BoolValue bool

fun flagText :: "flag_value \<Rightarrow> bytes" where
  \<comment> \<open>the method \<open>String\<close>\<close>
  "flagText (StringValue s) = s"
| "flagText (IntValue i) = itoa i"
| "flagText (BoolValue b) = (if b then ''true'' else ''false'')"

fun flagSetValue :: "flag_value \<Rightarrow> bytes \<Rightarrow> flag_value option" where
  \<comment> \<open>the method \<open>Set\<close> of the flag's type; None is its error\<close>
  "flagSetValue (StringValue _) s = Some (StringValue s)"
| "flagSetValue (IntValue _) s = map_option IntValue (parseInt0 s)"
| "flagSetValue (BoolValue _) s = map_option BoolValue (parseBool s)"

fun isBoolFlag :: "flag_value \<Rightarrow> bool" where
  "isBoolFlag (BoolValue _) = True"
| "isBoolFlag _ = False"

record flag_set =
  fsFormal :: "bytes \<rightharpoonup> flag_value"   \<comment> \<open>the declared flags with their current values\<close>
  fsActual :: "bytes list"                \<comment> \<open>the flags that have been set\<close>

datatype flag_error =
    BadFlagSyntax bytes | FlagNotDefined bytes | InvalidFlagValue bytes bytes
  | FlagNeedsArgument bytes | TwoForms bytes

datatype 'a one = NoFlag 'a | OneFlag flag_set "bytes list" | FlagFails flag_error

definition flagName :: "bytes \<Rightarrow> (bytes \<times> bytes option) option" where
  \<comment> \<open>name and joined value of an argument without its dashes\<close>
  "flagName name =
     (if name = [] \<or> hd name = CHR ''-'' \<or> hd name = CHR ''='' then None
      else
        (case indexByte name (CHR ''='') of
           None \<Rightarrow> Some (name, None)
         | Some i \<Rightarrow> Some (take i name, Some (drop (Suc i) name))))"

definition flagAssign :: "flag_set \<Rightarrow> bytes \<Rightarrow> bytes \<Rightarrow> bytes list \<Rightarrow> bytes list one" where
  "flagAssign f name v rest =
     (case fsFormal f name of
        None \<Rightarrow> FlagFails (FlagNotDefined name)
      | Some old \<Rightarrow>
          (case flagSetValue old v of
             None \<Rightarrow> FlagFails (InvalidFlagValue name v)
           | Some new \<Rightarrow>
               OneFlag (f\<lparr>fsFormal := (fsFormal f)(name \<mapsto> new), fsActual := name # fsActual f\<rparr>) rest))"

definition parseOne :: "flag_set \<Rightarrow> bytes list \<Rightarrow> bytes list one" where
  "parseOne f args =
     (case args of
        [] \<Rightarrow> NoFlag []
      | s # rest \<Rightarrow>
          if length s < 2 \<or> hd s \<noteq> CHR ''-'' then NoFlag args
          else if s = ''--'' then NoFlag rest
          else
            (let body = (if s ! 1 = CHR ''-'' then drop 2 s else drop 1 s) in
             case flagName body of
               None \<Rightarrow> FlagFails (BadFlagSyntax s)
             | Some (name, joined) \<Rightarrow>
                 (case fsFormal f name of
                    None \<Rightarrow> FlagFails (FlagNotDefined name)
                  | Some old \<Rightarrow>
                      if isBoolFlag old then
                        flagAssign f name (case joined of None \<Rightarrow> ''true'' | Some v \<Rightarrow> v) rest
                      else
                        (case joined of
                           Some v \<Rightarrow> flagAssign f name v rest
                         | None \<Rightarrow>
                             (case rest of
                                [] \<Rightarrow> FlagFails (FlagNeedsArgument name)
                              | v # rest1 \<Rightarrow> flagAssign f name v rest1)))))"

lemma flagAssign_OneFlag:
  "flagAssign f name v rest = OneFlag f1 rest1 \<Longrightarrow>
     rest1 = rest \<and> fsActual f1 = name # fsActual f
     \<and> (\<exists>old new. fsFormal f name = Some old \<and> flagSetValue old v = Some new
          \<and> fsFormal f1 = (fsFormal f)(name \<mapsto> new))"
  by (auto simp: flagAssign_def split: option.splits)

lemma parseOne_shorter: "parseOne f args = OneFlag f1 args1 \<Longrightarrow> length args1 < length args"
  by (auto simp: parseOne_def Let_def dest!: flagAssign_OneFlag
      split: list.splits if_splits option.splits prod.splits)

function flagParse :: "flag_set \<Rightarrow> bytes list \<Rightarrow> flag_error + flag_set \<times> bytes list" where
  \<comment> \<open>\<open>FlagSet.Parse\<close>: the flag set and the arguments that are left, or the first error\<close>
  "flagParse f args =
     (case parseOne f args of
        NoFlag rest \<Rightarrow> Inr (f, rest)
      | FlagFails e \<Rightarrow> Inl e
      | OneFlag f1 args1 \<Rightarrow> flagParse f1 args1)"
  by pat_completeness auto
termination
  by (relation "measure (\<lambda>(_, args). length args)") (auto dest: parseOne_shorter)

declare flagParse.simps [simp del]

end
