(* ===== verification/Cli_App.thy ===== *)
theory Cli_App
  imports Go_Flag Raw_Args
begin

text \<open>
  The command-line library (\<open>urfave/cli\<close>, vendored) as the program uses it: an application
  without commands of its own, without environment variables, short-option handling or
  completion, so that its root command has the declared flags, the help flag and the help
  command. \<open>cliRun\<close> says what \<open>App.Run\<close> does with an argument vector: usage error, help, or
  the action with its context. The flags are those \<open>main\<close> declares; their usage texts are
  left out.
\<close>

section \<open>The application\<close>

record cli_flag =
  flName :: bytes
  flAliases :: "bytes list"
  flValue :: flag_value

definition stringFlagDecl :: "bytes \<Rightarrow> bytes list \<Rightarrow> bytes \<Rightarrow> cli_flag" where
  "stringFlagDecl name aliases v = \<lparr>flName = name, flAliases = aliases, flValue = StringValue v\<rparr>"

definition boolFlagDecl :: "bytes \<Rightarrow> bytes list \<Rightarrow> cli_flag" where
  "boolFlagDecl name aliases = \<lparr>flName = name, flAliases = aliases, flValue = BoolValue False\<rparr>"

definition intFlagDecl :: "bytes \<Rightarrow> int \<Rightarrow> cli_flag" where
  "intFlagDecl name v = \<lparr>flName = name, flAliases = [], flValue = IntValue v\<rparr>"

definition mainFlags :: "cli_flag list" where
  "mainFlags =
     [stringFlagDecl ''outfile'' [''o''] [],
      stringFlagDecl ''region'' [''r''] ''ca_toronto'',
      boolFlagDecl ''verbose'' [''v''],
      boolFlagDecl ''server'' [''s''],
      boolFlagDecl ''port-forwarding'' [''p''],
      boolFlagDecl ''json'' [''j''],
      stringFlagDecl ''metadata-file'' [] [],
      stringFlagDecl ''serverlist-cache'' [] [],
      stringFlagDecl ''serverlist-cache-ttl'' [] ''24h'',
      stringFlagDecl ''serverlist-cache-max-age'' [] ''168h'',
      boolFlagDecl ''serverlist-force-refresh'' [],
      intFlagDecl ''serverlist-fetch-retries'' 5,
      boolFlagDecl ''list-regions'' [],
      intFlagDecl ''credentials-fd'' (- 1),
      intFlagDecl ''constrained-plan-fd'' (- 1),
      intFlagDecl ''public-ca-fd'' (- 1),
      intFlagDecl ''regional-ca-fd'' (- 1),
      intFlagDecl ''config-fd'' (- 1),
      intFlagDecl ''result-fd'' (- 1),
      stringFlagDecl ''socket-mark'' [] []]"

definition helpFlag :: cli_flag where
  "helpFlag = boolFlagDecl ''help'' [''h'']"

definition flagNames :: "cli_flag \<Rightarrow> bytes list" where
  "flagNames f = flName f # flAliases f"

named_theorems flag_decls \<open>the declared flags and their names\<close>

declare stringFlagDecl_def [flag_decls] boolFlagDecl_def [flag_decls] intFlagDecl_def [flag_decls]
  mainFlags_def [flag_decls] helpFlag_def [flag_decls] flagNames_def [flag_decls]

definition newFlagSet :: "cli_flag list \<Rightarrow> flag_set" where
  "newFlagSet flags =
     \<lparr>fsFormal = map_of (concat (map (\<lambda>f. map (\<lambda>n. (n, flValue f)) (flagNames f)) flags)),
      fsActual = []\<rparr>"

definition normalizeFlag :: "bytes list \<Rightarrow> cli_flag \<Rightarrow> flag_set \<Rightarrow> flag_error + flag_set" where
  \<comment> \<open>one round of \<open>normalizeFlags\<close>: the value of the form that was used goes to the others\<close>
  "normalizeFlag visited fl f =
     (case filter (\<lambda>n. n \<in> set visited) (flagNames fl) of
        [] \<Rightarrow> Inr f
      | [n] \<Rightarrow>
          (let others = filter (\<lambda>m. m \<notin> set visited) (flagNames fl) in
           Inr (f\<lparr>fsFormal := fsFormal f ++ map_of (map (\<lambda>m. (m, the (fsFormal f n))) others),
                  fsActual := others @ fsActual f\<rparr>))
      | n # m # _ \<Rightarrow> Inl (TwoForms m))"

fun normalize_loop :: "bytes list \<Rightarrow> cli_flag list \<Rightarrow> flag_set \<Rightarrow> flag_error + flag_set" where
  "normalize_loop visited [] f = Inr f"
| "normalize_loop visited (fl # fls) f =
     (case normalizeFlag visited fl f of
        Inl e \<Rightarrow> Inl e
      | Inr f1 \<Rightarrow> normalize_loop visited fls f1)"

definition normalizeFlags :: "cli_flag list \<Rightarrow> flag_set \<Rightarrow> flag_error + flag_set" where
  "normalizeFlags flags f = normalize_loop (fsActual f) flags f"

definition cliIsSet :: "cli_flag list \<Rightarrow> flag_set \<Rightarrow> bytes \<Rightarrow> bool" where
  \<comment> \<open>\<open>Context.IsSet\<close>: the name itself, or another name of its flag, has been set\<close>
  "cliIsSet flags f n \<longleftrightarrow>
     fsFormal f n \<noteq> None \<and>
     (n \<in> set (fsActual f)
      \<or> (case find (\<lambda>fl. n \<in> set (flagNames fl)) flags of
           None \<Rightarrow> False
         | Some fl \<Rightarrow> list_ex (\<lambda>m. m \<in> set (fsActual f)) (flagNames fl)))"

definition flagString :: "flag_set \<Rightarrow> bytes \<Rightarrow> bytes" where
  "flagString f n = (case fsFormal f n of None \<Rightarrow> [] | Some v \<Rightarrow> flagText v)"

definition cliContextOf :: "cli_flag list \<Rightarrow> flag_set \<Rightarrow> bytes list \<Rightarrow> cliContext" where
  "cliContextOf flags f rest =
     \<lparr>isSet = cliIsSet flags f,
      intFlag = (\<lambda>n. case parseInt0 (flagString f n) of None \<Rightarrow> 0 | Some i \<Rightarrow> i),
      stringFlag = flagString f,
      boolFlag = (\<lambda>n. case parseBool (flagString f n) of None \<Rightarrow> False | Some b \<Rightarrow> b),
      ctxArgs = rest\<rparr>"

datatype cli_outcome = CliUsage flag_error | CliHelp | CliAction cliContext

definition cliRun :: "cli_flag list \<Rightarrow> bytes list \<Rightarrow> cli_outcome" where
  "cliRun declared args =
     (let flags = declared @ [helpFlag] in
      case flagParse (newFlagSet flags) args of
        Inl e \<Rightarrow> CliUsage e
      | Inr (f, rest) \<Rightarrow>
          (case normalizeFlags flags f of
             Inl e \<Rightarrow> CliUsage e
           | Inr f1 \<Rightarrow>
               (let c = cliContextOf flags f1 rest in
                if list_ex (boolFlag c) (flagNames helpFlag) then CliHelp
                else if rest \<noteq> [] \<and> hd rest \<in> set (flagNames helpFlag) then CliHelp
                else CliAction c)))"

end
