(* ===== verification/Cli_Raw.thy ===== *)
theory Cli_Raw
  imports Cli_App Constrained_Runs
begin

text \<open>
  The raw scan of constrained mode against the command-line library: which constrained
  invocations the scan sees, and that the parser behind it reads an invocation it accepts as
  the library would.
\<close>

section \<open>Flags that are set were written\<close>

definition writtenAs :: "bytes \<Rightarrow> bytes \<Rightarrow> bool" where
  \<comment> \<open>the argument \<open>a\<close> is an occurrence of the flag \<open>n\<close>\<close>
  "writtenAs n a \<longleftrightarrow>
     a = ''-'' @ n \<or> a = ''--'' @ n
     \<or> (\<exists>v. a = ''-'' @ n @ CHR ''='' # v \<or> a = ''--'' @ n @ CHR ''='' # v)"

lemma flagName_Some:
  "flagName s = Some (n, joined) \<Longrightarrow> s = (case joined of None \<Rightarrow> n | Some v \<Rightarrow> n @ CHR ''='' # v)"
  by (auto simp: flagName_def id_take_nth_drop [symmetric] split: if_splits option.splits
      dest!: indexByte_SomeD) (metis id_take_nth_drop)

lemma parseOne_writes:
  assumes "parseOne f args = OneFlag f1 args1"
  shows "\<exists>n a pre. args = a # pre @ args1 \<and> writtenAs n a \<and> fsActual f1 = n # fsActual f"
proof -
  obtain s rest where args: "args = s # rest" and s: "2 \<le> length s" "hd s = CHR ''-''"
    using assms by (auto simp: parseOne_def split: list.splits if_splits)
  define body where "body = (if s ! 1 = CHR ''-'' then drop 2 s else drop 1 s)"
  have sb: "s = ''-'' @ body \<or> s = ''--'' @ body"
  proof -
    obtain d t where "s = CHR ''-'' # d # t" using s by (cases s; cases "tl s") auto
    then show ?thesis by (auto simp: body_def)
  qed
  obtain n joined where n: "flagName body = Some (n, joined)"
    and one: "\<exists>v r. (r = rest \<or> (\<exists>w. rest = w # r)) \<and> flagAssign f n v r = OneFlag f1 args1"
    using assms s unfolding args body_def
    by (auto simp: parseOne_def Let_def split: list.splits if_splits option.splits prod.splits)
  have "writtenAs n s"
    using flagName_Some [OF n] sb by (auto simp: writtenAs_def split: option.splits)
  moreover have "\<exists>pre. rest = pre @ args1" "fsActual f1 = n # fsActual f"
    using one flagAssign_OneFlag by (metis append_Cons append_Nil)+
  ultimately show ?thesis using args by blast
qed

lemma flagParse_written:
  "flagParse f args = Inr (f1, rest) \<Longrightarrow> n \<in> set (fsActual f1) \<Longrightarrow>
     n \<in> set (fsActual f) \<or> (\<exists>a \<in> set args. writtenAs n a)"
proof (induction f args rule: flagParse.induct)
  case (1 f args)
  show ?case
  proof (cases "parseOne f args")
    case (OneFlag f' args')
    then have "flagParse f' args' = Inr (f1, rest)" using "1.prems"(1) by (simp add: flagParse.simps [of f args])
    with "1.IH" [OF OneFlag] "1.prems"(2)
    have "n \<in> set (fsActual f') \<or> (\<exists>a \<in> set args'. writtenAs n a)" by blast
    then show ?thesis using parseOne_writes [OF OneFlag] by auto
  qed (use "1.prems" in \<open>simp_all add: flagParse.simps [of f args]\<close>)
qed

lemma normalizeFlag_actual:
  "normalizeFlag visited fl f = Inr f1 \<Longrightarrow> n \<in> set (fsActual f1) \<Longrightarrow>
     n \<in> set (fsActual f) \<or> (n \<in> set (flagNames fl) \<and> (\<exists>m \<in> set (flagNames fl). m \<in> set visited \<and> m \<noteq> n))"
  by (auto simp: normalizeFlag_def Let_def filter_eq_Cons_iff split: list.splits)

lemma normalize_loop_actual:
  "normalize_loop visited fls f = Inr f1 \<Longrightarrow> n \<in> set (fsActual f1) \<Longrightarrow>
     n \<in> set (fsActual f) \<or> (\<exists>fl \<in> set fls. n \<in> set (flagNames fl)
        \<and> (\<exists>m \<in> set (flagNames fl). m \<in> set visited \<and> m \<noteq> n))"
proof (induction fls arbitrary: f)
  case (Cons fl fls)
  then obtain f2 where f2: "normalizeFlag visited fl f = Inr f2" "normalize_loop visited fls f2 = Inr f1"
    by (auto split: sum.splits)
  from Cons.IH [OF f2(2) Cons.prems(2)] normalizeFlag_actual [OF f2(1)] show ?case by auto
qed simp

text \<open>A flag with one name only is set in the context only if it was written.\<close>

lemma cliRun_set_written:
  assumes run: "cliRun flags args = CliAction c" and set: "isSet c n"
    and single: "\<And>fl. fl \<in> set (flags @ [helpFlag]) \<Longrightarrow> n \<in> set (flagNames fl) \<Longrightarrow> flagNames fl = [n]"
  shows "\<exists>a \<in> set args. writtenAs n a"
proof -
  let ?flags = "flags @ [helpFlag]"
  obtain f rest f1 where p: "flagParse (newFlagSet ?flags) args = Inr (f, rest)"
    and nf: "normalizeFlags ?flags f = Inr f1" and c: "c = cliContextOf ?flags f1 rest"
    using run by (auto simp: cliRun_def Let_def split: sum.splits if_splits prod.splits)
  have "n \<in> set (fsActual f1)"
  proof (cases "find (\<lambda>fl. n \<in> set (flagNames fl)) ?flags")
    case (Some fl)
    then have "fl \<in> set ?flags" "n \<in> set (flagNames fl)"
      unfolding find_Some_iff by (metis nth_mem)+
    then have "flagNames fl = [n]" using single by blast
    with Some set c show ?thesis by (auto simp: cliContextOf_def cliIsSet_def)
  qed (use set c in \<open>auto simp: cliContextOf_def cliIsSet_def\<close>)
  then have "n \<in> set (fsActual f)"
    using normalize_loop_actual [of "fsActual f" ?flags f f1 n] nf single
    unfolding normalizeFlags_def by (metis empty_iff insert_iff list.set)
  then show ?thesis using flagParse_written [OF p] by (simp add: newFlagSet_def)
qed

lemma mainFlags_single:
  assumes "n \<in> set rawNames" and "fl \<in> set (mainFlags @ [helpFlag])" and "n \<in> set (flagNames fl)"
  shows "flagNames fl = [n]"
  using assms
  by (auto simp: rawNames_def fdNames_def flag_decls)

lemma rawConstrainedRequested_iff:
  "''--'' \<notin> set args \<Longrightarrow>
     rawConstrainedRequested args \<longleftrightarrow> (\<exists>a \<in> set args. rawFlagName a \<in> set requestNames)"
  by (induction args) auto

lemma requestNames_raw: "set requestNames \<subseteq> set rawNames"
  by (auto simp: requestNames_def rawNames_def fdNames_def)

text \<open>
  C18: no constrained invocation gets past the raw scan. Whenever the command-line library
  would hand the action a context in which a constrained flag is set, the scan at the start
  of \<open>main\<close> has already taken the invocation, unless an argument is the terminator \<open>--\<close>
  (which the library can take as a value) or is written with one dash and an equals sign,
  the two spellings the scan does not read as the library does.
\<close>

theorem raw_scan_complete:
  assumes "cliRun mainFlags args = CliAction c" and "constrainedRequested c"
    and "''--'' \<notin> set args"
    and "\<And>n v. n \<in> set requestNames \<Longrightarrow> ''-'' @ n @ CHR ''='' # v \<notin> set args"
  shows "rawConstrainedRequested args"
proof -
  obtain n where n: "n \<in> set requestNames" and set: "isSet c n"
    using assms(2) by (auto simp: constrainedRequested_def list_ex_iff)
  then have raw: "n \<in> set rawNames" using requestNames_raw by blast
  obtain a where a: "a \<in> set args" "writtenAs n a"
    using cliRun_set_written [OF assms(1) set] mainFlags_single [OF raw] by blast
  then have "a \<noteq> ''-'' @ n @ CHR ''='' # v" for v using assms(4) [OF n] by blast
  then have "rawFlagName a = n"
    using a(2) rawFlagName_words [OF raw] by (auto simp: writtenAs_def)
  then show ?thesis
    using a(1) n assms(3) rawConstrainedRequested_iff by blast
qed

section \<open>An accepted vector means the same to the library\<close>

definition itemFlag :: "item \<Rightarrow> flag_value" where
  "itemFlag i = (if itemName i = ''socket-mark'' then StringValue (itemValue i)
     else IntValue (the (parseInt0 (itemValue i))))"

definition plainItem :: "item \<Rightarrow> bool" where
  \<comment> \<open>an item whose number base 0 and base 10 read alike\<close>
  "plainItem i \<longleftrightarrow> okItem i \<and> (itemName i \<noteq> ''socket-mark'' \<longrightarrow> parseInt0 (itemValue i) = atoi (itemValue i))"

definition rawTyped :: "flag_set \<Rightarrow> bool" where
  "rawTyped f \<longleftrightarrow> (\<forall>n \<in> set fdNames. \<exists>k. fsFormal f n = Some (IntValue k))
     \<and> (\<exists>s. fsFormal f ''socket-mark'' = Some (StringValue s))"

definition setItem :: "item \<Rightarrow> flag_set \<Rightarrow> flag_set" where
  "setItem i f = f\<lparr>fsFormal := (fsFormal f)(itemName i \<mapsto> itemFlag i), fsActual := itemName i # fsActual f\<rparr>"

lemma flagName_item:
  assumes "n \<in> set rawNames"
  shows "flagName n = Some (n, None)" "flagName (n @ CHR ''='' # v) = Some (n, Some v)"
proof -
  note plain = rawNames_plain [OF assms]
  then have "hd n \<noteq> CHR ''=''" using hd_in_set by metis
  then show "flagName n = Some (n, None)" "flagName (n @ CHR ''='' # v) = Some (n, Some v)"
    using plain indexByte_None_iff [of n "CHR ''=''"]
    by (simp_all add: flagName_def indexByte_append_notin)
qed

lemma flagAssign_item:
  assumes "plainItem i" and "rawTyped f"
  shows "flagAssign f (itemName i) (itemValue i) rest = OneFlag (setItem i f) rest"
    and "\<exists>old. fsFormal f (itemName i) = Some old \<and> \<not> isBoolFlag old"
  using assms
  by (auto simp: plainItem_def okItem_def rawNames_def rawTyped_def flagAssign_def setItem_def itemFlag_def)

lemma itemWords_shape:
  assumes "okItem i"
  shows "\<exists>s more. itemWords i = s # more \<and> 2 \<le> length s \<and> hd s = CHR ''-'' \<and> s \<noteq> ''--''
    \<and> flagName (if s ! 1 = CHR ''-'' then drop 2 s else drop 1 s)
        = Some (itemName i, if more = [] then Some (itemValue i) else None)
    \<and> (more = [] \<or> more = [itemValue i])"
proof -
  have raw: "itemName i \<in> set rawNames" using assms by (simp add: okItem_def)
  obtain c t where n: "itemName i = c # t" "c \<noteq> CHR ''-''"
    using rawNames_plain [OF raw] by (cases "itemName i") auto
  show ?thesis
    using n flagName_item [OF raw] by (cases i) auto
qed

lemma parseOne_item:
  assumes "plainItem i" and "rawTyped f"
  shows "parseOne f (itemWords i @ rest) = OneFlag (setItem i f) rest"
proof -
  obtain s more where w: "itemWords i = s # more" "2 \<le> length s" "hd s = CHR ''-''" "s \<noteq> ''--''"
      "flagName (if s ! 1 = CHR ''-'' then drop 2 s else drop 1 s)
        = Some (itemName i, if more = [] then Some (itemValue i) else None)"
      "more = [] \<or> more = [itemValue i]"
    using itemWords_shape assms(1) unfolding plainItem_def by blast
  obtain old where "fsFormal f (itemName i) = Some old" "\<not> isBoolFlag old"
    using flagAssign_item(2) [OF assms] by blast
  then show ?thesis
    using w(2-6) flagAssign_item(1) [OF assms]
    unfolding parseOne_def w(1) by auto
qed

lemma rawTyped_setItem: "plainItem i \<Longrightarrow> rawTyped f \<Longrightarrow> rawTyped (setItem i f)"
  by (auto simp: rawTyped_def setItem_def itemFlag_def plainItem_def fdNames_def)

lemma flagParse_items:
  "list_all plainItem its \<Longrightarrow> rawTyped f \<Longrightarrow>
     flagParse f (concat (map itemWords its)) = Inr (fold setItem its f, [])"
proof (induction its arbitrary: f)
  case Nil
  show ?case by (simp add: flagParse.simps [of f] parseOne_def)
next
  case (Cons i its)
  then show ?case
    using parseOne_item [of i f] rawTyped_setItem [of i f]
    by (simp add: flagParse.simps [of f "itemWords i @ _"])
qed

lemma fold_setItem:
  "distinct (map itemName its) \<Longrightarrow>
     fsFormal (fold setItem its f) = fsFormal f ++ map_of (map (\<lambda>i. (itemName i, itemFlag i)) its)
     \<and> fsActual (fold setItem its f) = rev (map itemName its) @ fsActual f"
proof (induction its arbitrary: f)
  case (Cons i its)
  have fresh: "itemName i \<notin> dom (map_of (map (\<lambda>i. (itemName i, itemFlag i)) its))"
    using Cons.prems by (auto simp: dom_map_of_conv_image_fst image_iff)
  have "(fsFormal f)(itemName i \<mapsto> itemFlag i) ++ map_of (map (\<lambda>i. (itemName i, itemFlag i)) its)
      = fsFormal f ++ map_of (map (\<lambda>i. (itemName i, itemFlag i)) (i # its))"
    by (simp only: list.map map_of.simps fst_conv snd_conv map_add_upd map_add_upd_left [OF fresh])
  moreover have "fsFormal (setItem i f) = (fsFormal f)(itemName i \<mapsto> itemFlag i)"
    by (simp add: setItem_def)
  ultimately have M: "fsFormal (setItem i f) ++ map_of (map (\<lambda>i. (itemName i, itemFlag i)) its)
      = fsFormal f ++ map_of (map (\<lambda>i. (itemName i, itemFlag i)) (i # its))"
    by argo
  have IH: "fsFormal (fold setItem its (setItem i f))
      = fsFormal (setItem i f) ++ map_of (map (\<lambda>i. (itemName i, itemFlag i)) its)
    \<and> fsActual (fold setItem its (setItem i f)) = rev (map itemName its) @ fsActual (setItem i f)"
    using Cons by simp
  then have "fsFormal (fold setItem (i # its) f)
      = fsFormal f ++ map_of (map (\<lambda>i. (itemName i, itemFlag i)) (i # its))"
    using M by (simp only: fold_simps)
  moreover have "fsActual (fold setItem (i # its) f) = rev (map itemName (i # its)) @ fsActual f"
    using IH by (simp add: setItem_def)
  ultimately show ?case by blast
qed simp

lemma normalize_loop_id:
  "\<forall>fl \<in> set fls. filter (\<lambda>n. n \<in> set visited) (flagNames fl) = [] \<or> (\<exists>n. flagNames fl = [n]) \<Longrightarrow>
     normalize_loop visited fls f = Inr f"
proof (induction fls)
  case (Cons fl fls)
  then have "normalizeFlag visited fl f = Inr f"
    by (auto simp: normalizeFlag_def split: list.split if_splits)
  with Cons show ?case by simp
qed simp

definition libraryContext :: "item list \<Rightarrow> cliContext" where
  "libraryContext its =
     cliContextOf (mainFlags @ [helpFlag]) (fold setItem its (newFlagSet (mainFlags @ [helpFlag]))) []"

lemma rawTyped_main: "rawTyped (newFlagSet (mainFlags @ [helpFlag]))"
  by (simp add: rawTyped_def fdNames_def newFlagSet_def flag_decls)

lemma itemNames_raw: "list_all plainItem its \<Longrightarrow> set (map itemName its) \<subseteq> set rawNames"
  by (auto simp: list_all_iff plainItem_def okItem_def)

lemma formal_item:
  assumes "distinct (map itemName its)" and "i \<in> set its"
  shows "fsFormal (fold setItem its f) (itemName i) = Some (itemFlag i)"
proof -
  have "map_of (map (\<lambda>i. (itemName i, itemFlag i)) its) (itemName i) = Some (itemFlag i)"
    using assms by (auto simp: map_of_eq_Some_iff comp_def)
  then show ?thesis by (simp add: fold_setItem [OF assms(1)])
qed

lemma formal_other:
  assumes "distinct (map itemName its)" and "n \<notin> set (map itemName its)"
  shows "fsFormal (fold setItem its f) n = fsFormal f n"
proof -
  have "map_of (map (\<lambda>i. (itemName i, itemFlag i)) its) n = None"
    using assms(2) by (auto simp: map_of_eq_None_iff image_iff)
  then show ?thesis by (simp add: fold_setItem [OF assms(1)] map_add_def)
qed

lemma cliRun_items:
  assumes "list_all plainItem its" and "distinct (map itemName its)"
  shows "cliRun mainFlags (concat (map itemWords its)) = CliAction (libraryContext its)"
proof -
  let ?flags = "mainFlags @ [helpFlag]"
  let ?f = "fold setItem its (newFlagSet ?flags)"
  have names: "set (map itemName its) \<subseteq> set rawNames" using itemNames_raw [OF assms(1)] .
  have parse: "flagParse (newFlagSet ?flags) (concat (map itemWords its)) = Inr (?f, [])"
    using flagParse_items [OF assms(1) rawTyped_main] .
  have act: "set (fsActual ?f) = set (map itemName its)"
    using fold_setItem [OF assms(2)] by (simp add: newFlagSet_def)
  have "filter (\<lambda>n. n \<in> set (fsActual ?f)) (flagNames fl) = [] \<or> (\<exists>n. flagNames fl = [n])"
    if fl: "fl \<in> set ?flags" for fl
  proof (cases "\<exists>n \<in> set (flagNames fl). n \<in> set (fsActual ?f)")
    case True
    then show ?thesis using mainFlags_single [OF _ fl] names act by blast
  next
    case False
    then show ?thesis by (simp add: filter_empty_conv)
  qed
  then have norm: "normalizeFlags ?flags ?f = Inr ?f"
    unfolding normalizeFlags_def using normalize_loop_id by blast
  have "\<not> boolFlag (libraryContext its) n" if n: "n \<in> set (flagNames helpFlag)" for n
  proof -
    have "n \<notin> set rawNames" "fsFormal (newFlagSet ?flags) n = Some (BoolValue False)"
      using n by (auto simp: rawNames_def fdNames_def newFlagSet_def flag_decls)
    then have "fsFormal ?f n = Some (BoolValue False)"
      using formal_other [OF assms(2), of n] names by fastforce
    then show ?thesis
      by (simp add: libraryContext_def cliContextOf_def flagString_def parseBool_def)
  qed
  then show ?thesis
    unfolding cliRun_def Let_def parse sum.case prod.case norm
    by (auto simp: list_ex_iff libraryContext_def)
qed

text \<open>The two contexts of an accepted vector agree on everything the constrained mode reads.\<close>

definition sameInvocation :: "cliContext \<Rightarrow> cliContext \<Rightarrow> bool" where
  "sameInvocation c d \<longleftrightarrow> isSet c = isSet d \<and> (\<forall>n \<in> set fdNames. intFlag c n = intFlag d n)
     \<and> stringFlag c ''socket-mark'' = stringFlag d ''socket-mark'' \<and> ctxArgs c = ctxArgs d"

lemma open_loop_same:
  assumes "sameInvocation c d" and "fst ` set specs \<subseteq> set fdNames"
  shows "open_loop linux tbl c seen files specs = open_loop linux tbl d seen files specs"
  using assms
proof (induction linux tbl c seen files specs rule: open_loop.induct)
  case (2 linux tbl c seen files name mode specs)
  then have "isSet c name = isSet d name" "intFlag c name = intFlag d name"
    using "2.prems" unfolding sameInvocation_def by auto
  with 2 show ?case by (simp add: Let_def split: option.split)
qed simp

lemma constrainedAction_same:
  assumes "sameInvocation c d" and "isSet c ''result-fd''"
  shows "constrainedAction linux tbl env c = constrainedAction linux tbl env d"
proof -
  have f: "openConstrainedFiles linux tbl c = openConstrainedFiles linux tbl d"
    unfolding openConstrainedFiles_def
    by (rule open_loop_same [OF assms(1)]) (simp add: fdSpecs_def fdNames_def)
  have r: "intFlag c ''result-fd'' = intFlag d ''result-fd''"
    using assms(1) by (simp add: sameInvocation_def fdNames_def)
  have v: "validateConstrainedInvocation c xs = validateConstrainedInvocation d xs" for xs
    using assms(1) by (simp add: sameInvocation_def validateConstrainedInvocation_def)
  have m: "constrainedSocketControl b so c = constrainedSocketControl b so d" for b so
    using assms(1) by (simp add: sameInvocation_def constrainedSocketControl_def)
  have "execute env files c = execute env files d" for files
    by (simp only: execute_def executeInputs_def v m)
  then show ?thesis by (simp only: constrainedAction_def f r)
qed

lemma itemValues_item:
  "distinct (map itemName its) \<Longrightarrow> i \<in> set its \<Longrightarrow> itemName i \<noteq> ''socket-mark'' \<Longrightarrow>
     itemValues its (itemName i) = Some (the (atoi (itemValue i)))"
  by (auto simp: itemValues_def map_of_eq_Some_iff comp_def distinct_map_filter image_iff)

lemma itemStrings_item:
  "distinct (map itemName its) \<Longrightarrow> i \<in> set its \<Longrightarrow> itemName i = ''socket-mark'' \<Longrightarrow>
     itemStrings its ''socket-mark'' = Some (itemValue i)"
  by (force simp: itemStrings_def map_of_eq_Some_iff comp_def distinct_map_filter)

lemma item_values_dom:
  "itemValues its n \<noteq> None \<longleftrightarrow> n \<in> set (map itemName its) \<and> n \<noteq> ''socket-mark''"
  "itemStrings its n \<noteq> None \<longleftrightarrow> n \<in> set (map itemName its) \<and> n = ''socket-mark''"
  by (auto simp: itemValues_def itemStrings_def map_of_eq_None_iff image_iff) force

lemma library_isSet:
  assumes "list_all plainItem its" and "distinct (map itemName its)"
  shows "isSet (libraryContext its) n \<longleftrightarrow> n \<in> set (map itemName its)"
proof -
  let ?flags = "mainFlags @ [helpFlag]"
  let ?f = "fold setItem its (newFlagSet ?flags)"
  have act: "set (fsActual ?f) = set (map itemName its)"
    using fold_setItem [OF assms(2)] by (simp add: newFlagSet_def)
  have "n = m" if "find (\<lambda>fl. n \<in> set (flagNames fl)) ?flags = Some fl" "m \<in> set (flagNames fl)"
      "m \<in> set (map itemName its)" for fl m
  proof -
    have fl: "fl \<in> set ?flags" "n \<in> set (flagNames fl)"
      using that(1) unfolding find_Some_iff by (metis nth_mem)+
    have "flagNames fl = [m]"
      using mainFlags_single [OF _ fl(1) that(2)] itemNames_raw [OF assms(1)] that(3) by blast
    then show ?thesis using fl(2) by simp
  qed
  then have "isSet (libraryContext its) n \<longleftrightarrow> fsFormal ?f n \<noteq> None \<and> n \<in> set (map itemName its)"
    unfolding libraryContext_def cliContextOf_def cliIsSet_def
    by (auto simp: act list_ex_iff split: option.split)
  moreover have "fsFormal ?f n \<noteq> None" if "n \<in> set (map itemName its)"
    using that formal_item [OF assms(2)] by fastforce
  ultimately show ?thesis by blast
qed

lemma library_same:
  assumes "list_all plainItem its" and "distinct (map itemName its)" and "set fdNames \<subseteq> set (map itemName its)"
  shows "sameInvocation (constrainedContextFromValues (itemValues its) (itemStrings its)) (libraryContext its)"
proof -
  let ?c = "constrainedContextFromValues (itemValues its) (itemStrings its)"
  let ?f = "fold setItem its (newFlagSet (mainFlags @ [helpFlag]))"
  have names: "n \<in> set intNames \<and> n \<noteq> ''socket-mark'' \<or> n \<in> set stringNames \<and> n = ''socket-mark''"
    if "n \<in> set (map itemName its)" for n
  proof -
    have "n \<in> set rawNames" using that itemNames_raw [OF assms(1)] by blast
    then show ?thesis by (auto simp: rawNames_def fdNames_def intNames_def stringNames_def)
  qed
  have "isSet ?c n = isSet (libraryContext its) n" for n
    using names [of n] item_values_dom [of its n] library_isSet [OF assms(1,2)]
    by (auto simp: constrainedContextFromValues_def)
  moreover have "intFlag ?c n = intFlag (libraryContext its) n" if n: "n \<in> set fdNames" for n
  proof -
    have nn: "n \<noteq> ''socket-mark''" "n \<in> set intNames" using n by (auto simp: fdNames_def intNames_def)
    obtain i where i: "i \<in> set its" "itemName i = n" using n assms(3) by auto
    then have ok: "okItem i" "parseInt0 (itemValue i) = atoi (itemValue i)"
      using assms(1) nn by (auto simp: list_all_iff plainItem_def)
    then obtain k where k: "atoi (itemValue i) = Some k" using i nn by (auto simp: okItem_def)
    then have "- (2 ^ 63) \<le> k" "k < 2 ^ 63" using parseInt64_range by (auto simp: atoi_def)
    then have "parseInt0 (itoa k) = Some k"
      using parseInt64_itoa parseInt0_itoa by (simp add: atoi_def)
    moreover have "fsFormal ?f n = Some (IntValue k)"
      using formal_item [OF assms(2) i(1)] i(2) nn k ok by (simp add: itemFlag_def)
    ultimately have "intFlag (libraryContext its) n = k"
      by (simp add: libraryContext_def cliContextOf_def flagString_def)
    then show ?thesis
      using itemValues_item [OF assms(2) i(1)] i(2) nn k by (simp add: constrainedContextFromValues_def)
  qed
  moreover have "stringFlag ?c ''socket-mark'' = stringFlag (libraryContext its) ''socket-mark''"
  proof (cases "''socket-mark'' \<in> set (map itemName its)")
    case True
    then obtain i where i: "i \<in> set its" "itemName i = ''socket-mark''" by auto
    then show ?thesis
      using formal_item [OF assms(2) i(1)] itemStrings_item [OF assms(2) i]
      by (simp add: itemFlag_def libraryContext_def cliContextOf_def flagString_def
          constrainedContextFromValues_def stringNames_def)
  next
    case False
    then have "itemStrings its ''socket-mark'' = None"
      using item_values_dom(2) [of its "''socket-mark''"] by blast
    moreover have "fsFormal (newFlagSet (mainFlags @ [helpFlag])) ''socket-mark'' = Some (StringValue [])"
      by (simp add: newFlagSet_def flag_decls)
    ultimately show ?thesis
      using formal_other [OF assms(2) False]
      by (simp add: libraryContext_def cliContextOf_def flagString_def constrainedContextFromValues_def stringNames_def)
  qed
  moreover have "ctxArgs ?c = ctxArgs (libraryContext its)"
    by (simp add: libraryContext_def cliContextOf_def constrainedContextFromValues_def)
  ultimately show ?thesis unfolding sameInvocation_def by blast
qed

text \<open>
  C7: the private argument parser of constrained mode replaces the command-line library
  faithfully. For every argument vector it accepts, in which no number is written so that
  base 10 and base 0 read it differently, the library hands the action a context in which
  the constrained mode is requested, and the constrained action does exactly the same with
  it as with the context built by the raw parser.
\<close>

theorem raw_parser_agrees:
  assumes "parseRawConstrainedArgs args = (None, vals, strs)"
    and "\<And>p v. p @ v \<in> set args \<Longrightarrow> p = [] \<or> last p = CHR ''='' \<Longrightarrow> atoi v \<noteq> None \<Longrightarrow> parseInt0 v = atoi v"
  shows "\<exists>c. cliRun mainFlags args = CliAction c \<and> constrainedRequested c
    \<and> constrainedActionFromRawArgs linux tbl env args = constrainedAction linux tbl env c"
proof -
  obtain its where its: "args = concat (map itemWords its)" "list_all okItem its"
      "distinct (map itemName its)" "set fdNames \<subseteq> set (map itemName its)"
      "vals = itemValues its" "strs = itemStrings its"
    using assms(1) accepted_items by blast
  have "parseInt0 (itemValue i) = atoi (itemValue i)" if "i \<in> set its" "itemName i \<noteq> ''socket-mark''" for i
  proof -
    have "atoi (itemValue i) \<noteq> None" using its(2) that by (auto simp: list_all_iff okItem_def)
    moreover have "\<exists>p. p @ itemValue i \<in> set (itemWords i) \<and> (p = [] \<or> last p = CHR ''='')"
    proof (cases i)
      case (Joined n v)
      then show ?thesis by (intro exI [of _ "''--'' @ n @ ''=''"]) simp
    qed (auto intro: exI [of _ "[]"])
    moreover have "a \<in> set args" if "a \<in> set (itemWords i)" for a
      using that \<open>i \<in> set its\<close> its(1) by auto
    ultimately show ?thesis using assms(2) by blast
  qed
  then have plain: "list_all plainItem its" using its(2) by (auto simp: list_all_iff plainItem_def)
  have "isSet (libraryContext its) ''result-fd''"
    using library_isSet [OF plain its(3)] its(4) by (auto simp: fdNames_def)
  then show ?thesis
    using cliRun_items [OF plain its(3)] library_same [OF plain its(3,4)] assms(1) its
    by (auto simp: constrainedActionFromRawArgs_def sameInvocation_def requestNames_def
        constrainedRequested_def intro!: constrainedAction_same)
qed

section \<open>Witnesses\<close>

definition exampleItems :: "item list" where
  "exampleItems = [Split True ''constrained-plan-fd'' ''3'', Split True ''credentials-fd'' ''4'',
     Split True ''public-ca-fd'' ''5'', Split True ''regional-ca-fd'' ''6'',
     Split True ''config-fd'' ''7'', Split True ''result-fd'' ''8'']"

definition exampleArgs :: "bytes list" where
  "exampleArgs = [''--constrained-plan-fd'', ''3'', ''--credentials-fd'', ''4'', ''--public-ca-fd'', ''5'',
     ''--regional-ca-fd'', ''6'', ''--config-fd'', ''7'', ''--result-fd'', ''8'']"

lemma exampleArgs_items: "exampleArgs = concat (map itemWords exampleItems)"
  by (simp add: exampleArgs_def exampleItems_def)

lemma example_numbers:
  "list_all (\<lambda>v. atoi v \<noteq> None \<and> parseInt0 v = atoi v) [''3'', ''4'', ''5'', ''6'', ''7'', ''8'']"
  by code_simp

lemma exampleItems_ok:
  "list_all plainItem exampleItems" "distinct (map itemName exampleItems)"
  "set fdNames \<subseteq> set (map itemName exampleItems)"
  using example_numbers
  by (simp_all add: exampleItems_def plainItem_def okItem_def rawNames_def fdNames_def)

theorem raw_scan_complete_witness:
  "\<exists>c. cliRun mainFlags exampleArgs = CliAction c \<and> constrainedRequested c
     \<and> rawConstrainedRequested exampleArgs"
proof -
  have run: "cliRun mainFlags exampleArgs = CliAction (libraryContext exampleItems)"
    using cliRun_items [OF exampleItems_ok(1,2)] by (simp add: exampleArgs_items)
  have req: "constrainedRequested (libraryContext exampleItems)"
    using library_isSet [OF exampleItems_ok(1,2)] by (simp add: constrainedRequested_def requestNames_def exampleItems_def)
  have "rawConstrainedRequested exampleArgs"
  proof (rule raw_scan_complete [OF run req])
    have "\<forall>a \<in> set exampleArgs. CHR ''='' \<notin> set a" by (simp add: exampleArgs_def)
    then show "''-'' @ n @ CHR ''='' # v \<notin> set exampleArgs" for n v by fastforce
  qed (simp add: exampleArgs_def)
  with run req show ?thesis by blast
qed

theorem raw_parser_agrees_witness:
  "\<exists>c. cliRun mainFlags exampleArgs = CliAction c
     \<and> constrainedActionFromRawArgs True runTable exampleEnv exampleArgs
         = constrainedAction True runTable exampleEnv c"
proof -
  have acc: "parseRawConstrainedArgs exampleArgs = (None, itemValues exampleItems, itemStrings exampleItems)"
    using exampleItems_ok by (auto simp: accepted_items exampleArgs_items list_all_iff plainItem_def)
  have num: "parseInt0 v = atoi v" if "p @ v \<in> set exampleArgs" "p = [] \<or> last p = CHR ''=''" for p v
  proof -
    have "\<forall>a \<in> set exampleArgs. CHR ''='' \<notin> set a" by (simp add: exampleArgs_def)
    then have "p = []" using that by (metis Un_iff last_in_set set_append)
    then have "v \<in> set exampleArgs" using that(1) by simp
    moreover have "list_all (\<lambda>v. parseInt0 v = atoi v) exampleArgs" by code_simp
    ultimately show ?thesis by (simp add: list_all_iff)
  qed
  show ?thesis using raw_parser_agrees [OF acc] num by blast
qed

end
