(* ===== verification/Server_Fetch.thy ===== *)
theory Server_Fetch
  imports Prelude
begin

text \<open>
  The network part of \<open>pia/serverlist.go\<close>: one GET of the server list with the base64 tail
  stripped, the classification of its errors, and the retry loop with its back-off. What the
  network answers to the attempt number \<open>n\<close> is \<open>net n\<close>; an error is what the type
  assertions of the code see of it. Durations are nanoseconds. A log line is an event with what
  the code formats into it.
\<close>

section \<open>One fetch\<close>

record go_error =
  geNetError :: bool      \<comment> \<open>\<open>err.(net.Error)\<close> succeeds\<close>
  geTimeout :: bool       \<comment> \<open>and its \<open>Timeout()\<close>\<close>
  geOsTimeout :: bool     \<comment> \<open>\<open>os.IsTimeout(err)\<close>\<close>
  geOpError :: bool       \<comment> \<open>\<open>err.(*net.OpError)\<close> succeeds\<close>

datatype fetch_error = ServerListHTTPError int | TransportError go_error | NoJSONObject

datatype http_get =
    GetFails go_error
  | GetResponse int bytes "go_error option"   \<comment> \<open>status, body, error after the body\<close>

definition serverListURL :: bytes where
  "serverListURL = ''https://serverlist.piaservers.net/vpninfo/servers/v6''"

definition serverListURLOverride :: bytes where
  \<comment> \<open>the variable that the tests patch; no code of the program assigns it\<close>
  "serverListURLOverride = serverListURL"

definition lastIndexByte :: "bytes \<Rightarrow> char \<Rightarrow> int" where
  "lastIndexByte s b =
     (if b \<in> set s then int (length s) - 1 - int (length (takeWhile (\<lambda>c. c \<noteq> b) (rev s))) else - 1)"

definition fetchServerListRaw :: "http_get \<Rightarrow> fetch_error + bytes" where
  "fetchServerListRaw g =
     (case g of
        GetFails e \<Rightarrow> Inl (TransportError e)
      | GetResponse status body readErr \<Rightarrow>
          if status \<noteq> 200 then Inl (ServerListHTTPError status)
          else
            (case readErr of
               Some e \<Rightarrow> Inl (TransportError e)
             | None \<Rightarrow>
                 (let lastBrace = lastIndexByte body (CHR ''}'') in
                  if lastBrace < 0 then Inl NoJSONObject
                  else Inr (take (nat (lastBrace + 1)) body))))"

lemma takeWhile_until: "b \<notin> set xs \<Longrightarrow> takeWhile (\<lambda>c. c \<noteq> b) (xs @ b # ys) = xs"
  by (induction xs) auto

lemma strip_tail:
  assumes "b \<in> set s"
  shows "\<exists>t. s = take (nat (lastIndexByte s b + 1)) s @ t \<and> b \<notin> set t
    \<and> last (take (nat (lastIndexByte s b + 1)) s) = b \<and> take (nat (lastIndexByte s b + 1)) s \<noteq> []"
proof -
  obtain h t where s: "s = h @ b # t" and t: "b \<notin> set t"
    using split_list_last [OF assms] by blast
  have "takeWhile (\<lambda>c. c \<noteq> b) (rev s) = rev t"
    using t by (simp add: s takeWhile_until)
  then have "nat (lastIndexByte s b + 1) = Suc (length h)"
    using assms by (simp add: lastIndexByte_def s)
  with s t show ?thesis by simp
qed

lemma take_strip_tail:
  assumes "b \<notin> set t" and "d \<noteq> []" and "last d = b"
  shows "take (nat (lastIndexByte (d @ t) b + 1)) (d @ t) = d \<and> 0 \<le> lastIndexByte (d @ t) b"
proof -
  obtain h where d: "d = h @ [b]" using assms(2,3) by (metis append_butlast_last_id)
  have "takeWhile (\<lambda>c. c \<noteq> b) (rev (d @ t)) = rev t"
    using assms(1) by (simp add: d takeWhile_until)
  then have "lastIndexByte (d @ t) b = int (length h)"
    by (simp add: lastIndexByte_def d)
  moreover have "nat (int (length h) + 1) = Suc (length h)" by simp
  ultimately show ?thesis by (simp add: d)
qed

text \<open>
  One fetch succeeds exactly for a complete response with status 200 that holds a
  closing brace; what it returns is the body up to and including the last brace, so the
  base64 tail after the JSON text is stripped and the JSON text itself is kept in full.
\<close>

theorem fetchServerListRaw_exact:
  "fetchServerListRaw g = Inr d \<longleftrightarrow>
     (\<exists>tail. g = GetResponse 200 (d @ tail) None \<and> CHR ''}'' \<notin> set tail \<and> d \<noteq> [] \<and> last d = CHR ''}'')"
proof
  assume "fetchServerListRaw g = Inr d"
  then obtain body where g: "g = GetResponse 200 body None"
    and i: "\<not> lastIndexByte body (CHR ''}'') < 0"
    and d: "d = take (nat (lastIndexByte body (CHR ''}'') + 1)) body"
    by (auto simp: fetchServerListRaw_def Let_def split: http_get.splits if_splits option.splits)
  have "CHR ''}'' \<in> set body" using i by (simp add: lastIndexByte_def split: if_splits)
  from strip_tail [OF this] d g
  show "\<exists>tail. g = GetResponse 200 (d @ tail) None \<and> CHR ''}'' \<notin> set tail \<and> d \<noteq> [] \<and> last d = CHR ''}''"
    by metis
next
  assume "\<exists>tail. g = GetResponse 200 (d @ tail) None \<and> CHR ''}'' \<notin> set tail \<and> d \<noteq> [] \<and> last d = CHR ''}''"
  then obtain tail where g: "g = GetResponse 200 (d @ tail) None"
    and t: "CHR ''}'' \<notin> set tail" "d \<noteq> []" "last d = CHR ''}''" by blast
  show "fetchServerListRaw g = Inr d"
    using take_strip_tail [OF t] by (simp add: fetchServerListRaw_def g)
qed

section \<open>Transient errors\<close>

definition isTransientError :: "fetch_error \<Rightarrow> bool" where
  "isTransientError err =
     (case err of
        ServerListHTTPError statusCode \<Rightarrow> statusCode \<in> {429, 500, 502, 503, 504}
      | TransportError e \<Rightarrow> geNetError e \<and> geTimeout e \<or> geOsTimeout e \<or> geOpError e
      | NoJSONObject \<Rightarrow> False)"

section \<open>The retry loop\<close>

definition defaultBackoffs :: "int list" where
  "defaultBackoffs = [2 * second, 5 * second, 10 * second, 20 * second, 30 * second]"

datatype fetch_event =
    FetchGet
  | FetchLog nat nat "fetch_error option" int
      \<comment> \<open>the attempt of how many that failed, its error with \<open>--verbose\<close>, and the pause to come\<close>
  | FetchSleep int

datatype retry_error = NonRetryable fetch_error | RetriesExhausted int fetch_error

definition backoff :: "nat \<Rightarrow> int" where
  \<comment> \<open>the pause after the failed attempt number \<open>attempt\<close>\<close>
  "backoff attempt =
     (if attempt - 1 < length defaultBackoffs then defaultBackoffs ! (attempt - 1)
      else last defaultBackoffs)"

function retry_loop ::
  "bool \<Rightarrow> (nat \<Rightarrow> http_get) \<Rightarrow> nat \<Rightarrow> nat \<Rightarrow> (retry_error + bytes) \<times> fetch_event list" where
  \<comment> \<open>the loop from its round \<open>attempt \<le> maxAttempts\<close>; it is entered with attempt 1\<close>
  "retry_loop verbose net maxAttempts attempt =
     (case fetchServerListRaw (net attempt) of
        Inr data \<Rightarrow> (Inr data, [FetchGet])
      | Inl err \<Rightarrow>
          if \<not> isTransientError err then (Inl (NonRetryable err), [FetchGet])
          else if maxAttempts \<le> attempt
            then (Inl (RetriesExhausted (int maxAttempts) err), [FetchGet])
          else
            (let shown = (if verbose then Some err else None);
                 (r, evs) = retry_loop verbose net maxAttempts (attempt + 1)
             in (r, FetchGet # FetchLog attempt maxAttempts shown (backoff attempt)
                      # FetchSleep (backoff attempt) # evs)))"
  by pat_completeness auto
termination
  by (relation "measure (\<lambda>(_, _, maxAttempts, attempt). maxAttempts - attempt)") auto

declare retry_loop.simps [simp del]

definition effectiveAttempts :: "int \<Rightarrow> nat" where
  "effectiveAttempts maxAttempts =
     (if maxAttempts \<le> 0 then length defaultBackoffs + 1 else nat maxAttempts)"

definition fetchServerListWithRetry ::
  "bool \<Rightarrow> (nat \<Rightarrow> http_get) \<Rightarrow> int \<Rightarrow> (retry_error + bytes) \<times> fetch_event list" where
  "fetchServerListWithRetry verbose net maxAttempts = retry_loop verbose net (effectiveAttempts maxAttempts) 1"

lemma effectiveAttempts_pos: "0 < effectiveAttempts m"
  by (simp add: effectiveAttempts_def)

section \<open>What the loop does\<close>

definition failsTransiently :: "http_get \<Rightarrow> bool" where
  "failsTransiently g = (case fetchServerListRaw g of Inl e \<Rightarrow> isTransientError e | Inr _ \<Rightarrow> False)"

definition failedRound :: "bool \<Rightarrow> (nat \<Rightarrow> http_get) \<Rightarrow> nat \<Rightarrow> nat \<Rightarrow> fetch_event list" where
  \<comment> \<open>attempt \<open>a\<close> of \<open>n\<close>, which failed: the line about it, and the pause\<close>
  "failedRound verbose net n a =
     [FetchGet,
      FetchLog a n (case fetchServerListRaw (net a) of Inl e \<Rightarrow> if verbose then Some e else None | Inr _ \<Rightarrow> None)
        (backoff a),
      FetchSleep (backoff a)]"

definition retryTrace :: "bool \<Rightarrow> (nat \<Rightarrow> http_get) \<Rightarrow> nat \<Rightarrow> nat \<Rightarrow> nat \<Rightarrow> fetch_event list" where
  \<comment> \<open>the attempts from \<open>i\<close> to \<open>k\<close> with the lines and the pauses between them\<close>
  "retryTrace verbose net n i k = concat (map (failedRound verbose net n) [i..<k]) @ [FetchGet]"

lemma retryTrace_end [simp]: "retryTrace verbose net n i i = [FetchGet]"
  by (simp add: retryTrace_def)

lemma retryTrace_step:
  "i < k \<Longrightarrow> retryTrace verbose net n i k = failedRound verbose net n i @ retryTrace verbose net n (Suc i) k"
  by (simp add: retryTrace_def upt_conv_Cons)

definition settled :: "nat \<Rightarrow> nat \<Rightarrow> http_get \<Rightarrow> retry_error + bytes \<Rightarrow> bool" where
  \<comment> \<open>the result \<open>r\<close> of a loop that stopped at attempt \<open>k\<close> of \<open>n\<close> with the answer \<open>g\<close>\<close>
  "settled n k g r =
     (case fetchServerListRaw g of
        Inr data \<Rightarrow> r = Inr data
      | Inl e \<Rightarrow>
          (if isTransientError e then k = n \<and> r = Inl (RetriesExhausted (int n) e)
           else r = Inl (NonRetryable e)))"

lemma retry_loop_exact:
  assumes "i \<le> n" and "retry_loop verbose net n i = (r, evs)"
  shows "\<exists>k \<ge> i. k \<le> n \<and> evs = retryTrace verbose net n i k \<and> (\<forall>a \<in> {i..<k}. failsTransiently (net a))
    \<and> settled n k (net k) r"
  using assms
proof (induction verbose net n i arbitrary: r evs rule: retry_loop.induct)
  case (1 verbose net n i)
  have stop: ?case if "evs = [FetchGet]" "settled n i (net i) r"
    using that "1.prems"(1) by (intro exI [of _ i]) simp
  show ?case
  proof (cases "fetchServerListRaw (net i)")
    case (Inr d)
    then show ?thesis
      using "1.prems"(2) by (intro stop) (simp_all add: retry_loop.simps [of verbose net n i] settled_def)
  next
    case (Inl e)
    consider (fatal) "\<not> isTransientError e" | (last) "isTransientError e" "n \<le> i"
      | (again) "isTransientError e" "\<not> n \<le> i" by blast
    then show ?thesis
    proof cases
      case again
      obtain r' evs' where rec: "retry_loop verbose net n (i + 1) = (r', evs')" by fastforce
      then have r: "r = r'" "evs = failedRound verbose net n i @ evs'"
        using "1.prems"(2) Inl again
        by (simp_all add: retry_loop.simps [of verbose net n i] failedRound_def)
      obtain k where k: "i + 1 \<le> k" "k \<le> n" "evs' = retryTrace verbose net n (i + 1) k"
          "\<forall>a \<in> {i + 1..<k}. failsTransiently (net a)" "settled n k (net k) r'"
        using "1.IH" [OF Inl _ again(2) refl] again rec by fastforce
      have "failsTransiently (net i)" using Inl again by (simp add: failsTransiently_def)
      then have "\<forall>a \<in> {i..<k}. failsTransiently (net a)"
        using k(4) by (metis Suc_eq_plus1 atLeastLessThan_iff le_antisym not_less_eq_eq)
      with k r show ?thesis by (intro exI [of _ k]) (simp add: retryTrace_step)
    next
      case last
      then have "evs = [FetchGet]" "r = Inl (RetriesExhausted (int n) e)"
        using "1.prems"(2) Inl by (auto simp: retry_loop.simps [of verbose net n i])
      moreover have "n = i" using last "1.prems"(1) by simp
      ultimately show ?thesis using last Inl by (intro stop) (simp_all add: settled_def)
    qed (use "1.prems" Inl stop in \<open>simp add: retry_loop.simps [of verbose net n i] settled_def\<close>)
  qed
qed

text \<open>
  C30: \<open>fetchServerListWithRetry\<close> always returns. It makes \<open>k\<close> attempts, at least one and
  never more than asked for (six when none or a negative number is asked for), with the
  back-off of each failed attempt between them, announced on the log with the error only in
  verbose mode, and no pause after the last; every attempt
  before the last one failed transiently; and the result is that of the last attempt: its
  data, its error when the error is not transient, or the exhaustion error with the last
  error when all attempts were used up.
\<close>

theorem fetchServerListWithRetry_exact:
  assumes "fetchServerListWithRetry verbose net m = (r, evs)"
  shows "\<exists>k. 1 \<le> k \<and> k \<le> effectiveAttempts m
    \<and> evs = retryTrace verbose net (effectiveAttempts m) 1 k
    \<and> (\<forall>a \<in> {1..<k}. failsTransiently (net a)) \<and> settled (effectiveAttempts m) k (net k) r"
  using retry_loop_exact [of 1 "effectiveAttempts m" verbose net r evs] effectiveAttempts_pos [of m] assms
  by (auto simp: fetchServerListWithRetry_def Suc_le_eq)

definition exampleNet :: "nat \<Rightarrow> http_get" where
  "exampleNet n = (if n = 3 then GetResponse 200 ''{}tail'' None else GetResponse 503 [] None)"

lemma example_retry:
  "fetchServerListWithRetry False exampleNet 5
     = (Inr ''{}'', [FetchGet, FetchLog 1 5 None 2000000000, FetchSleep 2000000000,
      FetchGet, FetchLog 2 5 None 5000000000, FetchSleep 5000000000, FetchGet])"
  by code_simp

theorem fetchServerListWithRetry_exact_witness:
  "\<exists>k. 1 \<le> k \<and> k \<le> 5
     \<and> [FetchGet, FetchLog 1 5 None 2000000000, FetchSleep 2000000000,
      FetchGet, FetchLog 2 5 None 5000000000, FetchSleep 5000000000, FetchGet]
       = retryTrace False exampleNet 5 1 k"
  using fetchServerListWithRetry_exact [OF example_retry] by (auto simp: effectiveAttempts_def)

section \<open>Bounds\<close>

fun sleepOf :: "fetch_event \<Rightarrow> int" where
  "sleepOf FetchGet = 0"
| "sleepOf (FetchLog a n e d) = 0"
| "sleepOf (FetchSleep d) = d"

definition totalSleep :: "fetch_event list \<Rightarrow> int" where
  "totalSleep evs = sum_list (map sleepOf evs)"

definition attempts :: "fetch_event list \<Rightarrow> nat" where
  "attempts evs = length (filter (\<lambda>e. e = FetchGet) evs)"

lemma backoff_range: "2 * second \<le> backoff a" "backoff a \<le> 30 * second"
proof -
  have "defaultBackoffs \<noteq> []" by (simp add: defaultBackoffs_def)
  then have "backoff a \<in> set defaultBackoffs" by (simp add: backoff_def)
  then show "2 * second \<le> backoff a" "backoff a \<le> 30 * second"
    by (auto simp: defaultBackoffs_def second_def)
qed

lemma retryTrace_attempts: "i \<le> k \<Longrightarrow> attempts (retryTrace verbose net n i k) = Suc (k - i)"
proof (induction "k - i" arbitrary: i)
  case (Suc l)
  then have "i < k" by simp
  then show ?case using Suc.hyps(1) [of "Suc i"] Suc.hyps(2) by (simp add: retryTrace_step failedRound_def attempts_def)
qed (simp add: attempts_def)

lemma retryTrace_sleep:
  "i \<le> k \<Longrightarrow> totalSleep (retryTrace verbose net n i k) \<le> int (k - i) * (30 * second)"
proof (induction "k - i" arbitrary: i)
  case (Suc l)
  then have "i < k" by simp
  then have "totalSleep (retryTrace verbose net n i k) = backoff i + totalSleep (retryTrace verbose net n (Suc i) k)"
    by (simp add: retryTrace_step failedRound_def totalSleep_def)
  moreover have "totalSleep (retryTrace verbose net n (Suc i) k) \<le> int l * (30 * second)"
  proof -
    have "l = k - Suc i" using Suc.hyps(2) by simp
    then show ?thesis using Suc.hyps(1) [of "Suc i"] \<open>i < k\<close> by simp
  qed
  ultimately show ?case
    using backoff_range(2) [of i] Suc.hyps(2) by (simp add: algebra_simps flip: Suc.hyps(2))
qed (simp add: totalSleep_def)

lemma fetchServerListWithRetry_attempts: "1 \<le> attempts (snd (fetchServerListWithRetry verbose net m))"
proof -
  obtain k where "1 \<le> k" and "snd (fetchServerListWithRetry verbose net m) = retryTrace verbose net (effectiveAttempts m) 1 k"
    using retry_loop_exact [of 1 "effectiveAttempts m" verbose net] effectiveAttempts_pos [of m]
    by (metis One_nat_def Suc_leI fetchServerListWithRetry_def prod.collapse)
  then show ?thesis using retryTrace_attempts [of 1 k verbose net] by simp
qed

text \<open>
  C31: however the network behaves, a fetch of the server list makes between one attempt and
  the number asked for (six by default), and the time it spends waiting is at most thirty
  seconds for each attempt after the first: there is no input for which the loop does not
  return.
\<close>

theorem fetchServerListWithRetry_bounded:
  "1 \<le> attempts (snd (fetchServerListWithRetry verbose net m))
   \<and> attempts (snd (fetchServerListWithRetry verbose net m)) \<le> effectiveAttempts m
   \<and> totalSleep (snd (fetchServerListWithRetry verbose net m))
       \<le> (int (attempts (snd (fetchServerListWithRetry verbose net m))) - 1) * (30 * second)"
proof -
  obtain k where "1 \<le> k" "k \<le> effectiveAttempts m"
    and t: "snd (fetchServerListWithRetry verbose net m) = retryTrace verbose net (effectiveAttempts m) 1 k"
    using retry_loop_exact [of 1 "effectiveAttempts m" verbose net] effectiveAttempts_pos [of m]
    by (metis One_nat_def Suc_leI fetchServerListWithRetry_def prod.collapse)
  moreover have "attempts (retryTrace verbose net (effectiveAttempts m) 1 k) = k" using retryTrace_attempts [of 1 k verbose net] \<open>1 \<le> k\<close> by simp
  moreover have "totalSleep (retryTrace verbose net (effectiveAttempts m) 1 k) \<le> int (k - 1) * (30 * second)"
    using retryTrace_sleep \<open>1 \<le> k\<close> by blast
  ultimately show ?thesis by (simp add: of_nat_diff)
qed

text \<open>
  An error of \<open>http.Get\<close> that is a \<open>net.Error\<close> without being a timeout is not retried:
  such an error (a failed DNS lookup, a refused connection) comes wrapped in a \<open>*url.Error\<close>,
  which the assertion to \<open>*net.OpError\<close> does not see, so the first one ends the fetch after
  a single attempt and without a pause.
\<close>

theorem connection_error_not_retried:
  assumes "net 1 = GetFails e" and "geNetError e" and "\<not> geOpError e"
    and "\<not> geTimeout e" and "\<not> geOsTimeout e"
  shows "fetchServerListWithRetry verbose net m = (Inl (NonRetryable (TransportError e)), [FetchGet])"
  using assms
  by (simp add: fetchServerListWithRetry_def retry_loop.simps [of verbose net _ "Suc 0"] fetchServerListRaw_def
      isTransientError_def)

definition refused :: go_error where
  "refused = \<lparr>geNetError = True, geTimeout = False, geOsTimeout = False, geOpError = False\<rparr>"

theorem connection_error_not_retried_witness:
  "fetchServerListWithRetry True (\<lambda>_. GetFails refused) 5
     = (Inl (NonRetryable (TransportError refused)), [FetchGet])"
  using connection_error_not_retried [of "\<lambda>_. GetFails refused" refused True 5] by (simp add: refused_def)

end
