(* ===== verification/Go_Duration.thy ===== *)
theory Go_Duration
  imports Server_Fetch
begin

text \<open>
  \<open>time.ParseDuration\<close>, which reads the two cache ages of the command line. Unsigned 64-bit
  sums wrap; the fraction of a number is scaled in \<open>float64\<close>, modelled as a mantissa and an
  exponent of 2 with rounding to 53 bits, ties to even. The exponent has no bounds: a value
  that leaves the range of \<open>float64\<close> here is a fraction far below one nanosecond.
\<close>

section \<open>Floating-point numbers\<close>

type_synonym flt = "nat \<times> int"

fun bitLen :: "nat \<Rightarrow> nat" where
  "bitLen n = (if n = 0 then 0 else Suc (bitLen (n div 2)))"

declare bitLen.simps [simp del]

definition scaleQuot :: "nat \<Rightarrow> nat \<Rightarrow> int \<Rightarrow> nat \<times> nat" where
  \<comment> \<open>numerator and denominator of \<open>n / d / 2 ^ e\<close>\<close>
  "scaleQuot n d e = (if 0 \<le> e then (n, d * 2 ^ nat e) else (n * 2 ^ nat (- e), d))"

definition roundQuot :: "nat \<Rightarrow> nat \<Rightarrow> nat" where
  "roundQuot a b =
     (let q = a div b; r = a mod b in if b < 2 * r \<or> (b = 2 * r \<and> odd q) then q + 1 else q)"

definition nearest :: "nat \<Rightarrow> nat \<Rightarrow> flt" where
  \<comment> \<open>the floating-point number nearest to \<open>n / d\<close>\<close>
  "nearest n d =
     (if n = 0 then (0, 0)
      else
        (let e0 = int (bitLen n) - int (bitLen d) - 53;
             (a, b) = scaleQuot n d e0;
             e = (if 2 ^ 53 * b \<le> a then e0 + 1 else e0);
             (a1, b1) = scaleQuot n d e
         in (roundQuot a1 b1, e)))"

fun fltQuot :: "flt \<Rightarrow> nat \<times> nat" where
  "fltQuot (m, e) = scaleQuot m 1 (- e)"

definition fltMul :: "flt \<Rightarrow> flt \<Rightarrow> flt" where
  "fltMul x y = (let (a, b) = fltQuot x; (c, d) = fltQuot y in nearest (a * c) (b * d))"

definition fltDiv :: "flt \<Rightarrow> flt \<Rightarrow> flt" where
  "fltDiv x y = (let (a, b) = fltQuot x; (c, d) = fltQuot y in nearest (a * d) (b * c))"

definition fltOf :: "nat \<Rightarrow> flt" where
  "fltOf n = nearest n 1"

definition fltTrunc :: "flt \<Rightarrow> nat" where
  "fltTrunc x = (let (a, b) = fltQuot x in a div b)"

section \<open>The parts of a duration\<close>

definition digitOf :: "char \<Rightarrow> nat" where
  "digitOf c = byte c - 48"

fun leadingInt :: "nat \<Rightarrow> bytes \<Rightarrow> (nat \<times> bytes) option" where
  "leadingInt x [] = Some (x, [])"
| "leadingInt x (c # cs) =
     (if \<not> is_digit c then Some (x, c # cs)
      else if 2 ^ 63 div 10 < x then None
      else if 2 ^ 63 < x * 10 + digitOf c then None
      else leadingInt (x * 10 + digitOf c) cs)"

fun leadingFraction :: "nat \<Rightarrow> flt \<Rightarrow> bool \<Rightarrow> bytes \<Rightarrow> nat \<times> flt \<times> bytes" where
  "leadingFraction x scale overflow [] = (x, scale, [])"
| "leadingFraction x scale overflow (c # cs) =
     (if \<not> is_digit c then (x, scale, c # cs)
      else if overflow then leadingFraction x scale True cs
      else if (2 ^ 63 - 1) div 10 < x then leadingFraction x scale True cs
      else if 2 ^ 63 < x * 10 + digitOf c then leadingFraction x scale True cs
      else leadingFraction (x * 10 + digitOf c) (fltMul scale (fltOf 10)) False cs)"

definition unitMap :: "bytes \<Rightarrow> nat option" where
  "unitMap u =
     map_of [(''ns'', 1), (''us'', 1000), ([CHR 0xC2, CHR 0xB5, CHR ''s''], 1000),
       ([CHR 0xCE, CHR 0xBC, CHR ''s''], 1000), (''ms'', 1000000), (''s'', 1000000000),
       (''m'', 60000000000), (''h'', 3600000000000)] u"

definition unitByte :: "char \<Rightarrow> bool" where
  "unitByte c \<longleftrightarrow> \<not> (c = CHR ''.'' \<or> is_digit c)"

definition unitNanos :: "nat \<Rightarrow> nat \<Rightarrow> flt \<Rightarrow> nat \<Rightarrow> nat option" where
  \<comment> \<open>the nanoseconds of \<open>v + f / scale\<close> units; None is an overflow\<close>
  "unitNanos v f scale u =
     (if 2 ^ 63 div u < v then None
      else if f = 0 then Some (v * u)
      else
        (let w = v * u + fltTrunc (fltMul (fltOf f) (fltDiv (fltOf u) scale)) in
         if 2 ^ 63 < w then None else Some w))"

definition durationPart :: "bytes \<Rightarrow> (nat \<times> bytes) option" where
  \<comment> \<open>one round of the loop: the nanoseconds of one number with its unit, and the rest\<close>
  "durationPart s =
     (if s = [] \<or> \<not> (hd s = CHR ''.'' \<or> is_digit (hd s)) then None
      else
        (case leadingInt 0 s of
           None \<Rightarrow> None
         | Some (v, s1) \<Rightarrow>
             (let dot = (s1 \<noteq> [] \<and> hd s1 = CHR ''.'');
                  (f, scale, s2) = (if dot then leadingFraction 0 (fltOf 1) False (tl s1) else (0, fltOf 1, s1));
                  pre = (length s1 \<noteq> length s);
                  post = (dot \<and> length s2 \<noteq> length (tl s1));
                  u = takeWhile unitByte s2
              in
              if \<not> pre \<and> \<not> post then None
              else if u = [] then None
              else
                (case unitMap u of
                   None \<Rightarrow> None
                 | Some unit \<Rightarrow>
                     map_option (\<lambda>n. (n, dropWhile unitByte s2)) (unitNanos v f scale unit)))))"

lemma leadingInt_length: "leadingInt x s = Some (v, r) \<Longrightarrow> length r \<le> length s"
  by (induction x s rule: leadingInt.induct) (auto split: if_splits)

lemma leadingFraction_length: "leadingFraction x scale ov s = (v, sc, r) \<Longrightarrow> length r \<le> length s"
  by (induction x scale ov s rule: leadingFraction.induct) (auto split: if_splits)

lemma dropWhile_shorter: "takeWhile P xs \<noteq> [] \<Longrightarrow> length (dropWhile P xs) < length xs"
  by (cases xs) (auto simp: length_dropWhile_le less_Suc_eq_le split: if_splits)

lemma durationPart_shorter: "durationPart s = Some (n, r) \<Longrightarrow> length r < length s"
proof -
  assume "durationPart s = Some (n, r)"
  then obtain v s1 f scale s2 where i: "leadingInt 0 s = Some (v, s1)"
    and fr: "(if s1 \<noteq> [] \<and> hd s1 = CHR ''.'' then leadingFraction 0 (fltOf 1) False (tl s1)
        else (0, fltOf 1, s1)) = (f, scale, s2)"
    and u: "takeWhile unitByte s2 \<noteq> []" and r: "r = dropWhile unitByte s2"
    by (auto simp: durationPart_def Let_def split: if_splits option.splits prod.splits)
  have "length s2 \<le> length s1"
    using fr leadingFraction_length [of 0 "fltOf 1" False "tl s1"] by (auto split: if_splits)
  then show ?thesis using leadingInt_length [OF i] dropWhile_shorter [OF u] r by simp
qed

function duration_loop :: "nat \<Rightarrow> bytes \<Rightarrow> nat option" where
  "duration_loop d s =
     (if s = [] then Some d
      else
        (case durationPart s of
           None \<Rightarrow> None
         | Some (v, rest) \<Rightarrow>
             (let d1 = (d + v) mod 2 ^ 64 in
              if 2 ^ 63 < d1 then None else duration_loop d1 rest)))"
  by pat_completeness auto
termination
  by (relation "measure (\<lambda>(_, s). length s)") (auto dest: durationPart_shorter)

declare duration_loop.simps [simp del]

definition parseDuration :: "bytes \<Rightarrow> int option" where
  "parseDuration s =
     (let neg = (s \<noteq> [] \<and> hd s = CHR ''-'');
          body = (if s \<noteq> [] \<and> (hd s = CHR ''-'' \<or> hd s = CHR ''+'') then tl s else s)
      in
      if body = ''0'' then Some 0
      else if body = [] then None
      else
        (case duration_loop 0 body of
           None \<Rightarrow> None
         | Some d \<Rightarrow>
             if neg then Some (- int d)
             else if 2 ^ 63 - 1 < d then None
             else Some (int d)))"

lemma duration_loop_bound: "duration_loop d s = Some n \<Longrightarrow> d \<le> 2 ^ 63 \<Longrightarrow> n \<le> 2 ^ 63"
proof (induction d s rule: duration_loop.induct)
  case (1 d s)
  show ?case
  proof (cases "s = []")
    case False
    with "1.prems" obtain v rest where p: "durationPart s = Some (v, rest)"
      and b: "\<not> 2 ^ 63 < (d + v) mod 2 ^ 64" and l: "duration_loop ((d + v) mod 2 ^ 64) rest = Some n"
      by (auto simp: duration_loop.simps [of d s] Let_def split: option.splits if_splits)
    show ?thesis using "1.IH" [OF False p refl _ b l] b by simp
  qed (use "1.prems" in \<open>simp add: duration_loop.simps\<close>)
qed

lemma parseDuration_range:
  assumes "parseDuration s = Some d"
  shows "- (2 ^ 63) \<le> d \<and> d < 2 ^ 63"
proof -
  consider "d = 0" | n where "duration_loop 0 (if s \<noteq> [] \<and> (hd s = CHR ''-'' \<or> hd s = CHR ''+'') then tl s else s)
      = Some n" "d = - int n \<or> d = int n \<and> \<not> 2 ^ 63 - 1 < n"
    using assms by (auto simp: parseDuration_def Let_def split: if_splits option.splits)
  then show ?thesis
  proof cases
    case (2 n)
    then have "n \<le> 2 ^ 63" using duration_loop_bound by blast
    with 2 show ?thesis by auto
  qed simp
qed

lemma default_durations:
  "parseDuration ''24h'' = Some (86400 * second)" "parseDuration ''168h'' = Some (604800 * second)"
  by code_simp+

lemma fraction_duration: "parseDuration ''1.5h'' = Some (5400 * second)"
  by (simp add: parseDuration_def duration_loop.simps durationPart_def unitNanos_def unitMap_def
      unitByte_def is_digit_def digitOf_def fltTrunc_def fltMul_def fltDiv_def fltOf_def nearest_def
      scaleQuot_def roundQuot_def bitLen.simps Let_def second_def)

end
