(* ===== verification/Json_Struct.thy ===== *)
theory Json_Struct
  imports Json_Object
begin

text \<open>
  \<open>json.Unmarshal\<close> into a struct and into a slice, as the non-strict readers of package
  \<open>pia\<close> use it: members are applied one after the other, a member of an unknown name is
  skipped, a name matches a field exactly or else after case folding, \<open>null\<close> changes
  nothing, and a later member of the same name is decoded over the earlier value. None is
  any error; every caller drops the value then. On top: arrays and objects that were
  written without superfluous white space are read back to exactly their parts.
\<close>

section \<open>Field names\<close>

definition foldRune :: "nat \<Rightarrow> nat" where
  \<comment> \<open>the smallest rune of the fold set, for the sets that hold an ASCII letter; any other
      rune is mapped into a set without ASCII runes, which no field name of the program has\<close>
  "foldRune r =
     (if 97 \<le> r \<and> r \<le> 122 then r - 32
      else if r = 0x17F then 83
      else if r = 0x212A then 75
      else r)"

definition foldName :: "bytes \<Rightarrow> nat list" where
  "foldName s = map foldRune (runes s)"

type_synonym 's field_decoder = "bytes \<Rightarrow> 's \<Rightarrow> 's option"

definition structField :: "(bytes \<times> 's field_decoder) list \<Rightarrow> bytes \<Rightarrow> 's field_decoder" where
  \<comment> \<open>\<open>byExactName\<close>, then \<open>byFoldedName\<close>, then the value is skipped\<close>
  "structField fs key v s =
     (case map_of fs key of
        Some f \<Rightarrow> f v s
      | None \<Rightarrow>
          (case find (\<lambda>(n, _). foldName n = foldName key) fs of
             Some (_, f) \<Rightarrow> f v s
           | None \<Rightarrow> Some s))"

section \<open>Objects\<close>

function splitMembers :: "bytes \<Rightarrow> (bytes \<times> bytes) list option" where
  \<comment> \<open>the member texts of an object, from after its opening brace or a comma\<close>
  "splitMembers s =
     (case readValue s of
        None \<Rightarrow> None
      | Some (k, r) \<Rightarrow>
          (case dropWhile isSpace r of
             [] \<Rightarrow> None
           | c # t \<Rightarrow>
               if c \<noteq> CHR '':'' then None
               else
                 (case readValue t of
                    None \<Rightarrow> None
                  | Some (v, r') \<Rightarrow>
                      (case dropWhile isSpace r' of
                         [] \<Rightarrow> None
                       | c' # t' \<Rightarrow>
                           if c' = CHR '','' then map_option ((#) (k, v)) (splitMembers t')
                           else if c' = CHR ''}'' then Some [(k, v)]
                           else None))))"
  by pat_completeness auto
termination
proof (relation "measure length", goal_cases)
  case 1
  show ?case by simp
next
  case (2 s kr k r c t vr v r' c' t')
  have "length (c' # t') \<le> length r'" "length (c # t) \<le> length r"
    using 2 length_dropWhile_le by metis+
  moreover have "length r < length s" "length r' < length t"
    using 2 readValue_shorter [of s k r] readValue_shorter [of t v r'] by simp_all
  ultimately show ?case by simp
qed

declare splitMembers.simps [simp del]

fun applyMembers :: "(bytes \<times> 's field_decoder) list \<Rightarrow> (bytes \<times> bytes) list \<Rightarrow> 's \<Rightarrow> 's option" where
  "applyMembers fs [] s = Some s"
| "applyMembers fs ((k, v) # ms) s =
     (case unquote (valueText k) of
        None \<Rightarrow> None
      | Some key \<Rightarrow> Option.bind (structField fs key v s) (applyMembers fs ms))"

definition decodeStruct :: "(bytes \<times> 's field_decoder) list \<Rightarrow> 's field_decoder" where
  "decodeStruct fs raw s =
     (if \<not> checkValid raw then None
      else
        (case valueText raw of
           [] \<Rightarrow> None
         | c # t \<Rightarrow>
             if c = CHR ''n'' then Some s
             else if c = CHR ''{'' then
               (if hasPrefix (dropWhile isSpace t) ''}'' then Some s
                else
                  (case splitMembers t of
                     None \<Rightarrow> None
                   | Some ms \<Rightarrow> applyMembers fs ms s))
             else None))"

section \<open>Slices\<close>

text \<open>
  A slice is its length and the cells written so far of its array: decoding into a slice
  that has elements decodes over them, also over those a shorter value has cut off.
\<close>

type_synonym 'a slice = "nat \<times> 'a list"

definition elems :: "'a slice \<Rightarrow> 'a list" where
  "elems s = take (fst s) (snd s)"

definition nilSlice :: "'a slice" where
  "nilSlice = (0, [])"

fun decodeCells :: "'a field_decoder \<Rightarrow> 'a \<Rightarrow> bytes list \<Rightarrow> 'a list \<Rightarrow> 'a list option" where
  "decodeCells dec zero [] cells = Some cells"
| "decodeCells dec zero (e # es) cells =
     (case dec e (if cells = [] then zero else hd cells) of
        None \<Rightarrow> None
      | Some x \<Rightarrow> map_option ((#) x) (decodeCells dec zero es (tl cells)))"

definition decodeSlice :: "'a field_decoder \<Rightarrow> 'a \<Rightarrow> bytes \<Rightarrow> 'a slice \<Rightarrow> 'a slice option" where
  "decodeSlice dec zero raw old =
     (if \<not> checkValid raw then None
      else
        (case valueText raw of
           [] \<Rightarrow> None
         | c # t \<Rightarrow>
             if c = CHR ''n'' then Some nilSlice
             else if c = CHR ''['' then
               (if hasPrefix (dropWhile isSpace t) '']'' then Some nilSlice
                else
                  (case splitElements t of
                     None \<Rightarrow> None
                   | Some es \<Rightarrow>
                       map_option (Pair (length es)) (decodeCells dec zero es (snd old))))
             else None))"

section \<open>Written objects\<close>

lemma splitMembers_text:
  assumes "members_ok n ms" and "ms \<noteq> []" and "n \<le> maxNestingDepth"
  shows "splitMembers (membersText ms @ CHR ''}'' # r)
    = Some (map (\<lambda>(k, v). (marshalString k, v)) ms)"
  using assms(1,2)
proof (induction ms rule: membersText.induct)
  case (2 k v)
  then have k: "ascii k" and v: "json_text n v" by (simp_all add: members_ok_def)
  show ?case
    using json_text_readValue [OF v assms(3), of "CHR ''}'' # r"]
    by (subst splitMembers.simps) (simp add: readValue_string [OF k])
next
  case (3 k v m ms)
  then have k: "ascii k" and v: "json_text n v" and ms: "members_ok n (m # ms)"
    by (simp_all add: members_ok_def)
  show ?case
    using 3(1) [OF ms]
      json_text_readValue [OF v assms(3), of "CHR '','' # membersText (m # ms) @ CHR ''}'' # r"]
    by (subst splitMembers.simps) (simp add: readValue_string [OF k])
qed simp

lemma valueText_marshalString [simp]: "ascii k \<Longrightarrow> valueText (marshalString k) = marshalString k"
  using json_text_valid [OF json_text_marshalString] by simp

fun applyFields :: "(bytes \<times> 's field_decoder) list \<Rightarrow> raw_fields \<Rightarrow> 's \<Rightarrow> 's option" where
  \<comment> \<open>the members by name: what reading an object should do\<close>
  "applyFields fs [] s = Some s"
| "applyFields fs ((k, v) # ms) s = Option.bind (structField fs k v s) (applyFields fs ms)"

lemma applyMembers_written:
  "members_ok n ms \<Longrightarrow>
     applyMembers fs (map (\<lambda>(k, v). (marshalString k, v)) ms) s = applyFields fs ms s"
proof (induction ms arbitrary: s)
  case (Cons p ms)
  obtain k v where p: "p = (k, v)" by (cases p)
  then have k: "ascii k" and ms: "members_ok n ms" using Cons.prems by (simp_all add: members_ok_def)
  have "applyMembers fs (map (\<lambda>(k, v). (marshalString k, v)) ms) = applyFields fs ms"
    using Cons.IH [OF ms] by blast
  with p k show ?case by (simp add: unquote_marshalString)
qed simp

theorem decodeStruct_objectText:
  assumes "members_ok n ms" and "n < maxNestingDepth"
  shows "decodeStruct fs (objectText ms) s = applyFields fs ms s"
proof -
  have "json_text (Suc n) (objectText ms)" by (rule json_text_objectText [OF assms(1)]) simp
  then have v: "checkValid (objectText ms)" "valueText (objectText ms) = objectText ms"
    using json_text_valid assms(2) by auto
  show ?thesis
  proof (cases ms)
    case Nil
    with v show ?thesis by (simp add: decodeStruct_def objectText_def)
  next
    case (Cons p ps)
    then have "\<exists>t. membersText ms @ ''}'' = CHR 0x22 # t"
      by (cases p; cases ps) (auto simp: marshalString_def)
    then have "\<not> hasPrefix (dropWhile isSpace (membersText ms @ ''}'')) ''}''" by auto
    moreover have "splitMembers (membersText ms @ ''}'') = Some (map (\<lambda>(k, v). (marshalString k, v)) ms)"
      using splitMembers_text [OF assms(1)] Cons assms(2) by simp
    ultimately show ?thesis
      using v applyMembers_written [OF assms(1)]
      by (simp add: decodeStruct_def objectText_def del: applyMembers.simps)
  qed
qed

lemma json_text_mono: "json_text n v \<Longrightarrow> n \<le> m \<Longrightarrow> json_text m v"
  by (auto simp: json_text_def)

section \<open>Written arrays\<close>

fun elementsText :: "bytes list \<Rightarrow> bytes" where
  "elementsText [] = []"
| "elementsText [e] = e"
| "elementsText (e # f # es) = e @ CHR '','' # elementsText (f # es)"

definition arrayText :: "bytes list \<Rightarrow> bytes" where
  "arrayText es = CHR ''['' # elementsText es @ '']''"

lemma splitElements_text:
  assumes "list_all (json_text n) es" and "es \<noteq> []" and "n \<le> maxNestingDepth"
  shows "splitElements (elementsText es @ CHR '']'' # r) = Some es"
  using assms(1,2)
proof (induction es rule: elementsText.induct)
  case (2 e)
  then show ?case
    using json_text_readValue [OF _ assms(3), of e "CHR '']'' # r"]
    by (subst splitElements.simps) (simp add: isSpace_def)
next
  case (3 e f es)
  then show ?case
    using json_text_readValue [OF _ assms(3), of e "CHR '','' # elementsText (f # es) @ CHR '']'' # r"]
    by (subst splitElements.simps) simp
qed simp

lemma scan_elements:
  assumes "list_all (json_text n) es" and "es \<noteq> []" and "length ps + Suc n \<le> maxNestingDepth"
  shows "scan_value (BeginValue, ParseArrayValue # ps) (elementsText es @ CHR '']'' # r)
    = prefixed (elementsText es @ '']'') (scan_value (EndValue, ps) r)"
  using assms(1,2)
proof (induction es rule: elementsText.induct)
  case (2 e)
  have "scan_value (EndValue, ParseArrayValue # ps) (CHR '']'' # r)
      = prefixed '']'' (scan_value (EndValue, ps) r)"
    by (cases ps) (simp_all add: stateEndValue_def popParseState_def isSpace_def)
  with 2 show ?case
    using assms(3) json_text_scan [of n e "ParseArrayValue # ps" "CHR '']'' # r"]
    by (simp del: scan_value.simps)
next
  case (3 e f es)
  have "scan_value (EndValue, ParseArrayValue # ps) (CHR '','' # t)
      = prefixed '','' (scan_value (BeginValue, ParseArrayValue # ps) t)" for t
    by (simp add: stateEndValue_def isSpace_def)
  with 3 show ?case
    using assms(3) json_text_scan [of n e "ParseArrayValue # ps" "CHR '','' # elementsText (f # es) @ CHR '']'' # r"]
    by (simp del: scan_value.simps)
qed simp

lemma elementsText_hd:
  assumes "list_all (json_text n) (e # es)"
  shows "\<exists>c t. elementsText (e # es) = c # t \<and> \<not> isSpace c \<and> e \<noteq> [] \<and> c = hd e"
  using assms by (cases es; cases e) (auto simp: json_text_def)

lemma json_text_hd_value:
  assumes "json_text n v" and "n \<le> maxNestingDepth"
  shows "hd v \<noteq> CHR '']''"
proof
  assume h: "hd v = CHR '']''"
  then obtain t where v: "v = CHR '']'' # t" using assms(1) by (cases v) (auto simp: json_text_def)
  have "readValue (v @ []) = Some (v, [])" by (rule json_text_readValue [OF assms]) simp
  then show False
    by (simp add: v readValue_def stateBeginValue_def isSpace_def is_digit_def scanFail_def)
qed

lemma json_text_arrayText:
  assumes "list_all (json_text n) es" and "Suc n \<le> m"
  shows "json_text m (arrayText es)"
proof (rule json_textI)
  fix ps :: "parse_state list" and r assume "length ps + m \<le> maxNestingDepth"
  then have d: "length ps + Suc n \<le> maxNestingDepth" using assms(2) by simp
  have bracket: "scan_value (BeginValue, ps) (CHR ''['' # t)
      = prefixed ''['' (scan_value (BeginValueOrEmpty, ParseArrayValue # ps) t)" for t
    using d by (simp add: stateBeginValue_def isSpace_def pushParseState_def)
  show "scan_value (BeginValue, ps) (arrayText es @ r)
      = prefixed (arrayText es) (scan_value (EndValue, ps) r)"
  proof (cases es)
    case Nil
    have "scan_value (BeginValueOrEmpty, ParseArrayValue # ps) (CHR '']'' # r)
        = prefixed '']'' (scan_value (EndValue, ps) r)"
      by (cases ps) (simp_all add: stateEndValue_def popParseState_def isSpace_def)
    then show ?thesis using Nil bracket by (simp add: arrayText_def del: scan_value.simps)
  next
    case (Cons e q)
    obtain c t where c: "elementsText es = c # t" "\<not> isSpace c" "c = hd e"
      using elementsText_hd assms(1) Cons by blast
    have "json_text n e" "n \<le> maxNestingDepth" using assms(1) Cons d by simp_all
    then have "c \<noteq> CHR '']''" using json_text_hd_value [of n e] c(3) by simp
    then have "scan_value (BeginValueOrEmpty, ParseArrayValue # ps) (elementsText es @ CHR '']'' # r)
        = scan_value (BeginValue, ParseArrayValue # ps) (elementsText es @ CHR '']'' # r)"
      using c by simp
    then show ?thesis
      using scan_elements [OF assms(1) _ d, of r] Cons bracket by (simp add: arrayText_def del: scan_value.simps)
  qed
qed (simp_all add: arrayText_def isSpace_def)

theorem decodeSlice_arrayText:
  assumes "list_all (json_text n) es" and "n < maxNestingDepth"
  shows "decodeSlice dec zero (arrayText es) old =
    (if es = [] then Some nilSlice
     else map_option (Pair (length es)) (decodeCells dec zero es (snd old)))"
proof -
  have "json_text (Suc n) (arrayText es)" by (rule json_text_arrayText [OF assms(1)]) simp
  then have v: "checkValid (arrayText es)" "valueText (arrayText es) = arrayText es"
    using json_text_valid assms(2) by auto
  show ?thesis
  proof (cases es)
    case Nil
    with v show ?thesis by (simp add: decodeSlice_def arrayText_def isSpace_def)
  next
    case (Cons e q)
    obtain c t where c: "elementsText es = c # t" "\<not> isSpace c" "c = hd e"
      using elementsText_hd assms(1) Cons by blast
    have "json_text n e" "n \<le> maxNestingDepth" using assms Cons by simp_all
    then have "c \<noteq> CHR '']''" using json_text_hd_value [of n e] c(3) by simp
    then have "\<not> hasPrefix (dropWhile isSpace (elementsText es @ '']'')) '']''" using c by simp
    moreover have "splitElements (elementsText es @ '']'') = Some es"
      using splitElements_text [OF assms(1)] Cons assms(2) by simp
    ultimately show ?thesis using v Cons by (simp add: decodeSlice_def arrayText_def)
  qed
qed

lemma decodeCells_fresh:
  assumes "\<And>x. x \<in> set xs \<Longrightarrow> dec (enc x) zero = Some x"
  shows "decodeCells dec zero (map enc xs) [] = Some xs"
  using assms by (induction xs) simp_all

lemma ascii_elementsText: "list_all ascii es \<Longrightarrow> ascii (elementsText es)"
  by (induction es rule: elementsText.induct) auto

lemma ascii_arrayText: "list_all ascii es \<Longrightarrow> ascii (arrayText es)"
  by (simp add: arrayText_def ascii_elementsText)

lemma decodeSlice_fresh:
  assumes "\<And>x. x \<in> set xs \<Longrightarrow> json_text n (enc x) \<and> dec (enc x) zero = Some x"
    and "n < maxNestingDepth"
  shows "decodeSlice dec zero (arrayText (map enc xs)) nilSlice = Some (length xs, xs)"
proof -
  have "list_all (json_text n) (map enc xs)" using assms(1) by (simp add: list_all_iff)
  moreover have "decodeCells dec zero (map enc xs) [] = Some xs"
    using assms(1) by (intro decodeCells_fresh) simp
  ultimately show ?thesis
    using decodeSlice_arrayText [of n "map enc xs" dec zero nilSlice] assms(2)
    by (simp add: nilSlice_def)
qed

end
