(* ===== verification/Server_Cache.thy ===== *)
theory Server_Cache
  imports Server_Fetch
begin

text \<open>
  The server-list cache file: \<open>readServerListCache\<close>, \<open>writeServerListCache\<close> and the file
  system they act on. A file system maps names to files and directories to modes. A call
  that can fail has its error in an environment record. The write returns, beside its
  error, every state of the file system it goes through, so a crash after any of its system
  calls is one of these states. A second model of the same write is a step relation over
  any number of processes that write the same cache file at once; the first one refines it.
\<close>

section \<open>The file system\<close>

record fs_file =
  ffData :: bytes
  ffMode :: nat
  ffTime :: int

record fs =
  fsFiles :: "bytes \<rightharpoonup> fs_file"
  fsDirs :: "bytes \<rightharpoonup> nat"

definition lookupFile :: "fs \<Rightarrow> bytes \<Rightarrow> fs_file option" where
  "lookupFile s p = fsFiles s p"

definition putFile :: "bytes \<Rightarrow> fs_file \<Rightarrow> fs \<Rightarrow> fs" where
  "putFile p f s = s\<lparr>fsFiles := (fsFiles s)(p \<mapsto> f)\<rparr>"

definition removeFile :: "bytes \<Rightarrow> fs \<Rightarrow> fs" where
  "removeFile p s = s\<lparr>fsFiles := (fsFiles s)(p := None)\<rparr>"

definition renameFile :: "bytes \<Rightarrow> bytes \<Rightarrow> fs \<Rightarrow> fs" where
  "renameFile p q s =
     (case fsFiles s p of
        None \<Rightarrow> s
      | Some f \<Rightarrow> s\<lparr>fsFiles := (fsFiles s)(p := None, q \<mapsto> f)\<rparr>)"

definition chmodFile :: "bytes \<Rightarrow> nat \<Rightarrow> fs \<Rightarrow> fs" where
  "chmodFile p m s =
     (case fsFiles s p of None \<Rightarrow> s | Some f \<Rightarrow> putFile p (f\<lparr>ffMode := m\<rparr>) s)"

definition setContent :: "bytes \<Rightarrow> bytes \<Rightarrow> int \<Rightarrow> fs \<Rightarrow> fs" where
  \<comment> \<open>what has been written through the open descriptor so far\<close>
  "setContent p d t s =
     (case fsFiles s p of None \<Rightarrow> s | Some f \<Rightarrow> putFile p (f\<lparr>ffData := d, ffTime := t\<rparr>) s)"

lemma lookup_simps [simp]:
  "lookupFile (putFile p f s) q = (if q = p then Some f else lookupFile s q)"
  "lookupFile (removeFile p s) q = (if q = p then None else lookupFile s q)"
  "lookupFile (s\<lparr>fsDirs := d\<rparr>) q = lookupFile s q"
  by (simp_all add: lookupFile_def putFile_def removeFile_def)

lemma lookup_setContent [simp]:
  "lookupFile (setContent p d t s) q =
     (if q = p then map_option (\<lambda>f. f\<lparr>ffData := d, ffTime := t\<rparr>) (lookupFile s p) else lookupFile s q)"
  by (auto simp: lookupFile_def setContent_def putFile_def split: option.split)

lemma lookup_chmodFile [simp]:
  "lookupFile (chmodFile p m s) q =
     (if q = p then map_option (\<lambda>f. f\<lparr>ffMode := m\<rparr>) (lookupFile s p) else lookupFile s q)"
  by (auto simp: lookupFile_def chmodFile_def putFile_def split: option.split)

lemma lookup_renameFile:
  "lookupFile s p = Some f \<Longrightarrow> p \<noteq> q \<Longrightarrow>
     lookupFile (renameFile p q s) r = (if r = q then Some f else if r = p then None else lookupFile s r)"
  by (simp add: lookupFile_def renameFile_def)

subsection \<open>Directories\<close>

fun cleanSegs :: "bool \<Rightarrow> bytes list \<Rightarrow> bytes list \<Rightarrow> bytes list" where
  \<comment> \<open>the segments of a path; \<open>..\<close> removes the segment before it\<close>
  "cleanSegs rooted st [] = rev st"
| "cleanSegs rooted st (x # xs) =
     (if x = [] \<or> x = ''.'' then cleanSegs rooted st xs
      else if x = ''..'' then
        (case st of
           [] \<Rightarrow> cleanSegs rooted (if rooted then [] else [''..'']) xs
         | y # ys \<Rightarrow> cleanSegs rooted (if y = ''..'' then ''..'' # st else ys) xs)
      else cleanSegs rooted (x # st) xs)"

fun joinSegs :: "bytes list \<Rightarrow> bytes" where
  "joinSegs [] = []"
| "joinSegs [x] = x"
| "joinSegs (x # y # xs) = x @ CHR ''/'' # joinSegs (y # xs)"

definition cleanPath :: "bytes \<Rightarrow> bytes" where
  \<comment> \<open>\<open>filepath.Clean\<close> on Unix\<close>
  "cleanPath p =
     (let rooted = (p \<noteq> [] \<and> hd p = CHR ''/'');
          body = joinSegs (cleanSegs rooted [] (splitByte (CHR ''/'') p))
      in if rooted then CHR ''/'' # body else if body = [] then ''.'' else body)"

definition filepathDir :: "bytes \<Rightarrow> bytes" where
  "filepathDir p = cleanPath (take (nat (lastIndexByte p (CHR ''/'') + 1)) p)"

definition ancestors :: "bytes \<Rightarrow> bytes list" where
  \<comment> \<open>the directories \<open>os.MkdirAll\<close> makes when they are missing, outermost first\<close>
  "ancestors dir =
     (if dir = ''.'' \<or> dir = ''/'' then []
      else [take i dir. i \<leftarrow> [1..<length dir], dir ! i = CHR ''/''] @ [dir])"

definition makeDirs :: "bytes list \<Rightarrow> nat \<Rightarrow> fs \<Rightarrow> fs" where
  "makeDirs ds mode s =
     s\<lparr>fsDirs := foldl (\<lambda>m d. if m d = None then m(d \<mapsto> mode) else m) (fsDirs s) ds\<rparr>"

lemma lookup_makeDirs [simp]: "lookupFile (makeDirs ds mode s) q = lookupFile s q"
  by (simp add: makeDirs_def)

section \<open>Reading the cache\<close>

type_synonym os_errno = int

datatype read_error = NotExist | ReadFailed os_errno

record read_env =
  crStat :: "read_error option"
  crRead :: "read_error option"

definition readServerListCache :: "read_env \<Rightarrow> fs \<Rightarrow> bytes \<Rightarrow> read_error + bytes \<times> int" where
  "readServerListCache env s path =
     (case crStat env of
        Some e \<Rightarrow> Inl e
      | None \<Rightarrow>
          (case lookupFile s path of
             None \<Rightarrow> Inl NotExist
           | Some info \<Rightarrow>
               (case crRead env of
                  Some e \<Rightarrow> Inl e
                | None \<Rightarrow> Inr (ffData info, ffTime info))))"

section \<open>Writing the cache\<close>

datatype cache_error =
    CreatingDirectory os_errno | CreatingTemp os_errno | WritingTemp os_errno
  | SyncingTemp os_errno | ClosingTemp os_errno | SettingPermissions os_errno
  | RenamingCache os_errno

record write_env =
  weMkdir :: "os_errno option"
  weMadeDirs :: nat              \<comment> \<open>directories made before \<open>MkdirAll\<close> failed\<close>
  weTemp :: "os_errno + bytes"   \<comment> \<open>the name \<open>CreateTemp\<close> chose\<close>
  weProgress :: "nat list"       \<comment> \<open>bytes in the file after each \<open>write\<close> call\<close>
  weWrite :: "os_errno option"
  weSync :: "os_errno option"
  weClose :: "os_errno option"
  weChmod :: "os_errno option"
  weRename :: "os_errno option"
  weRemove :: "os_errno option"
  weNow :: int

definition cleanup :: "write_env \<Rightarrow> bytes \<Rightarrow> fs \<Rightarrow> fs" where
  "cleanup env tmpName s = (case weRemove env of None \<Rightarrow> removeFile tmpName s | Some _ \<Rightarrow> s)"

definition cacheCommit ::
  "write_env \<Rightarrow> bytes \<Rightarrow> bytes \<Rightarrow> fs \<Rightarrow> cache_error option \<times> fs list" where
  \<comment> \<open>from \<open>tmp.Sync\<close> on; \<open>s\<close> is the state after the complete write\<close>
  "cacheCommit env path tmpName s =
     (case weSync env of
        Some e \<Rightarrow> (Some (SyncingTemp e), [cleanup env tmpName s])
      | None \<Rightarrow>
          (case weClose env of
             Some e \<Rightarrow> (Some (ClosingTemp e), [cleanup env tmpName s])
           | None \<Rightarrow>
               (case weChmod env of
                  Some e \<Rightarrow> (Some (SettingPermissions e), [cleanup env tmpName s])
                | None \<Rightarrow>
                    (let s1 = chmodFile tmpName 384 s in
                     case weRename env of
                       Some e \<Rightarrow> (Some (RenamingCache e), [s1, cleanup env tmpName s1])
                     | None \<Rightarrow> (None, [s1, renameFile tmpName path s1])))))"

definition writeTemp ::
  "write_env \<Rightarrow> bytes \<Rightarrow> bytes \<Rightarrow> bytes \<Rightarrow> fs \<Rightarrow> cache_error option \<times> fs list" where
  \<comment> \<open>from the creation of the temporary file on; \<open>s1\<close> is the state before it\<close>
  "writeTemp env path data tmpName s1 =
     (let s2 = putFile tmpName \<lparr>ffData = [], ffMode = 384, ffTime = weNow env\<rparr> s1;
          partial = map (\<lambda>k. setContent tmpName (take k data) (weNow env) s2) (weProgress env)
      in
      case weWrite env of
        Some e \<Rightarrow>
          (Some (WritingTemp e), s2 # partial @ [cleanup env tmpName (last (s2 # partial))])
      | None \<Rightarrow>
          (let s3 = setContent tmpName data (weNow env) s2;
               (err, states) = cacheCommit env path tmpName s3
           in (err, s2 # partial @ s3 # states)))"

definition writeServerListCache ::
  "write_env \<Rightarrow> bytes \<Rightarrow> bytes \<Rightarrow> fs \<Rightarrow> cache_error option \<times> fs list" where
  \<comment> \<open>the error, and the states of the file system after each system call, in order\<close>
  "writeServerListCache env path data s0 =
     (let dirs = ancestors (filepathDir path) in
      case weMkdir env of
        Some e \<Rightarrow> (Some (CreatingDirectory e), [makeDirs (take (weMadeDirs env) dirs) 448 s0])
      | None \<Rightarrow>
          (let s1 = makeDirs dirs 448 s0 in
           case weTemp env of
             Inl e \<Rightarrow> (Some (CreatingTemp e), [s1])
           | Inr tmpName \<Rightarrow>
               (let (err, states) = writeTemp env path data tmpName s1 in (err, s1 # states))))"

definition finalState :: "fs \<Rightarrow> fs list \<Rightarrow> fs" where
  "finalState s0 states = last (s0 # states)"

end
