(* ===== verification/Server_Cache_Steps.thy ===== *)
theory Server_Cache_Steps
  imports Server_Cache
begin

text \<open>
  The cache write as a transition system. Any number of processes run the statements of
  \<open>writeServerListCache\<close> on the same path, each with its own data; a step is one system call
  of one process, which succeeds or fails. A crash needs no step: every reachable state is
  a state the machine can be left in. The invariant shows that the cache file is always
  either the one that was there before or the complete data of one of the writers, and that
  no other file is touched. \<open>writeServerListCache\<close> is shown to be one run of this system.
\<close>

section \<open>The transition system\<close>

datatype writer_pc =
    AtMkdir | AtCreate
  | AtWrite bytes nat
  | AtSync bytes | AtClose bytes | AtChmod bytes | AtRename bytes | AtCleanup bytes
  | Finished bool

type_synonym writers = "fs \<times> (nat \<Rightarrow> writer_pc)"

inductive cache_step :: "bytes \<Rightarrow> (nat \<Rightarrow> bytes) \<Rightarrow> writers \<Rightarrow> writers \<Rightarrow> bool"
  for path data where
  mkdir: "pc p = AtMkdir \<Longrightarrow> cache_step path data (s, pc) (makeDirs ds 448 s, pc(p := AtCreate))"
| mkdir_fails:
    "pc p = AtMkdir \<Longrightarrow> cache_step path data (s, pc) (makeDirs ds 448 s, pc(p := Finished False))"
| create:
    "pc p = AtCreate \<Longrightarrow> lookupFile s name = None \<Longrightarrow> name \<noteq> path \<Longrightarrow>
     cache_step path data (s, pc)
       (putFile name \<lparr>ffData = [], ffMode = 384, ffTime = t\<rparr> s, pc(p := AtWrite name 0))"
| create_fails: "pc p = AtCreate \<Longrightarrow> cache_step path data (s, pc) (s, pc(p := Finished False))"
| writes:
    "pc p = AtWrite name k \<Longrightarrow>
     cache_step path data (s, pc) (setContent name (take n (data p)) t s, pc(p := AtWrite name n))"
| written:
    "pc p = AtWrite name k \<Longrightarrow>
     cache_step path data (s, pc) (setContent name (data p) t s, pc(p := AtSync name))"
| write_fails: "pc p = AtWrite name k \<Longrightarrow> cache_step path data (s, pc) (s, pc(p := AtCleanup name))"
| sync: "pc p = AtSync name \<Longrightarrow> cache_step path data (s, pc) (s, pc(p := AtClose name))"
| sync_fails: "pc p = AtSync name \<Longrightarrow> cache_step path data (s, pc) (s, pc(p := AtCleanup name))"
| closed: "pc p = AtClose name \<Longrightarrow> cache_step path data (s, pc) (s, pc(p := AtChmod name))"
| close_fails: "pc p = AtClose name \<Longrightarrow> cache_step path data (s, pc) (s, pc(p := AtCleanup name))"
| chmod: "pc p = AtChmod name \<Longrightarrow>
     cache_step path data (s, pc) (chmodFile name 384 s, pc(p := AtRename name))"
| chmod_fails: "pc p = AtChmod name \<Longrightarrow> cache_step path data (s, pc) (s, pc(p := AtCleanup name))"
| rename: "pc p = AtRename name \<Longrightarrow>
     cache_step path data (s, pc) (renameFile name path s, pc(p := Finished True))"
| rename_fails: "pc p = AtRename name \<Longrightarrow> cache_step path data (s, pc) (s, pc(p := AtCleanup name))"
| remove: "pc p = AtCleanup name \<Longrightarrow>
     cache_step path data (s, pc) (removeFile name s, pc(p := Finished False))"
| remove_fails: "pc p = AtCleanup name \<Longrightarrow> cache_step path data (s, pc) (s, pc(p := Finished False))"

definition initially :: "nat \<Rightarrow> writer_pc" where
  "initially p = AtMkdir"

definition reaches :: "bytes \<Rightarrow> (nat \<Rightarrow> bytes) \<Rightarrow> fs \<Rightarrow> fs \<Rightarrow> (nat \<Rightarrow> writer_pc) \<Rightarrow> bool" where
  \<comment> \<open>the reachable states from the file system \<open>s0\<close> with every writer at its start\<close>
  "reaches path data s0 s pc \<longleftrightarrow> (cache_step path data)\<^sup>*\<^sup>* (s0, initially) (s, pc)"

section \<open>The invariant\<close>

fun tempOf :: "writer_pc \<Rightarrow> bytes option" where
  "tempOf (AtWrite name k) = Some name"
| "tempOf (AtSync name) = Some name"
| "tempOf (AtClose name) = Some name"
| "tempOf (AtChmod name) = Some name"
| "tempOf (AtRename name) = Some name"
| "tempOf (AtCleanup name) = Some name"
| "tempOf _ = None"

fun complete :: "writer_pc \<Rightarrow> bool" where
  "complete (AtSync name) = True"
| "complete (AtClose name) = True"
| "complete (AtChmod name) = True"
| "complete (AtRename name) = True"
| "complete _ = False"

definition old_or_complete :: "bytes \<Rightarrow> (nat \<Rightarrow> bytes) \<Rightarrow> fs \<Rightarrow> fs \<Rightarrow> bool" where
  "old_or_complete path data s0 s \<longleftrightarrow>
     lookupFile s path = lookupFile s0 path
     \<or> (\<exists>p f. lookupFile s path = Some f \<and> ffData f = data p \<and> ffMode f = 384)"

definition temp_ok ::
  "bytes \<Rightarrow> (nat \<Rightarrow> bytes) \<Rightarrow> fs \<Rightarrow> fs \<Rightarrow> (nat \<Rightarrow> writer_pc) \<Rightarrow> nat \<Rightarrow> bytes \<Rightarrow> bool" where
  \<comment> \<open>the temporary file \<open>m\<close> belongs to writer \<open>p\<close> alone, and is complete once it is written\<close>
  "temp_ok path data s0 s pc p m \<longleftrightarrow>
     m \<noteq> path \<and> lookupFile s0 m = None \<and> (\<forall>q. tempOf (pc q) = Some m \<longrightarrow> q = p)
     \<and> (\<exists>f. lookupFile s m = Some f \<and> ffMode f = 384 \<and> (complete (pc p) \<longrightarrow> ffData f = data p))"

definition temps_ok :: "bytes \<Rightarrow> (nat \<Rightarrow> bytes) \<Rightarrow> fs \<Rightarrow> fs \<Rightarrow> (nat \<Rightarrow> writer_pc) \<Rightarrow> bool" where
  "temps_ok path data s0 s pc \<longleftrightarrow>
     (\<forall>p m. tempOf (pc p) = Some m \<longrightarrow> temp_ok path data s0 s pc p m)"

definition others_kept :: "bytes \<Rightarrow> fs \<Rightarrow> fs \<Rightarrow> bool" where
  "others_kept path s0 s \<longleftrightarrow>
     (\<forall>q f. q \<noteq> path \<longrightarrow> lookupFile s0 q = Some f \<longrightarrow> lookupFile s q = Some f)"

definition cache_inv :: "bytes \<Rightarrow> (nat \<Rightarrow> bytes) \<Rightarrow> fs \<Rightarrow> writers \<Rightarrow> bool" where
  "cache_inv path data s0 w \<longleftrightarrow>
     old_or_complete path data s0 (fst w) \<and> temps_ok path data s0 (fst w) (snd w)
     \<and> others_kept path s0 (fst w)"

lemma cache_inv_init: "cache_inv path data s0 (s0, initially)"
  by (simp add: cache_inv_def old_or_complete_def temps_ok_def others_kept_def initially_def)

lemma temps_okD: "temps_ok path data s0 s pc \<Longrightarrow> tempOf (pc p) = Some m \<Longrightarrow> temp_ok path data s0 s pc p m"
  by (simp add: temps_ok_def)

lemma temp_okI:
  assumes "m \<noteq> path" and "lookupFile s0 m = None" and "\<And>q. tempOf (pc q) = Some m \<Longrightarrow> q = p"
    and "lookupFile s m = Some f" and "ffMode f = 384" and "complete (pc p) \<Longrightarrow> ffData f = data p"
  shows "temp_ok path data s0 s pc p m"
  using assms unfolding temp_ok_def by blast

lemma temp_ok_owner: "temp_ok path data s0 s pc p m \<Longrightarrow> tempOf (pc q) = Some m \<Longrightarrow> q = p"
  by (simp add: temp_ok_def)

lemma temp_ok_path: "temp_ok path data s0 s pc p m \<Longrightarrow> m \<noteq> path"
  by (simp add: temp_ok_def)

lemma temp_ok_exists: "temp_ok path data s0 s pc p m \<Longrightarrow> lookupFile s m \<noteq> None"
  unfolding temp_ok_def by blast

lemma temp_ok_other:
  assumes "temp_ok path data s0 s pc q m" and "q \<noteq> p" and "tempOf c \<noteq> Some m"
    and "lookupFile s' m = lookupFile s m"
  shows "temp_ok path data s0 s' (pc(p := c)) q m"
  using assms by (simp add: temp_ok_def)

lemma temps_ok_update:
  assumes t: "temps_ok path data s0 s pc"
    and mine: "\<And>m. tempOf c = Some m \<Longrightarrow> temp_ok path data s0 s' (pc(p := c)) p m"
    and same: "\<And>q m. q \<noteq> p \<Longrightarrow> tempOf (pc q) = Some m \<Longrightarrow>
      tempOf c \<noteq> Some m \<and> lookupFile s' m = lookupFile s m"
  shows "temps_ok path data s0 s' (pc(p := c))"
  unfolding temps_ok_def
proof (intro allI impI)
  fix q m assume m: "tempOf ((pc(p := c)) q) = Some m"
  show "temp_ok path data s0 s' (pc(p := c)) q m"
  proof (cases "q = p")
    case True
    with m mine show ?thesis by simp
  next
    case False
    then have "tempOf (pc q) = Some m" using m by simp
    then show ?thesis using temp_ok_other [OF temps_okD [OF t]] False same by blast
  qed
qed

text \<open>A step of a writer on its own temporary file, which the other writers do not see.\<close>

lemma cache_inv_temp:
  assumes inv: "cache_inv path data s0 (s, pc)" and own: "tempOf (pc p) = Some m"
    and pc: "tempOf c = None \<or> tempOf c = Some m"
    and same: "\<And>q. q \<noteq> m \<Longrightarrow> lookupFile s' q = lookupFile s q"
    and mine: "\<And>f. tempOf c = Some m \<Longrightarrow> lookupFile s m = Some f \<Longrightarrow> ffMode f = 384 \<Longrightarrow>
      (complete (pc p) \<Longrightarrow> ffData f = data p) \<Longrightarrow>
      \<exists>f. lookupFile s' m = Some f \<and> ffMode f = 384 \<and> (complete c \<longrightarrow> ffData f = data p)"
  shows "cache_inv path data s0 (s', pc(p := c))"
proof -
  have t: "temps_ok path data s0 s pc" and old: "old_or_complete path data s0 s"
    and k: "others_kept path s0 s"
    using inv by (simp_all add: cache_inv_def)
  note ok = temps_okD [OF t own]
  have n: "m \<noteq> path" "lookupFile s0 m = None" using ok by (simp_all add: temp_ok_def)
  have "old_or_complete path data s0 s'" using old n(1) same [of path] by (simp add: old_or_complete_def)
  moreover have "others_kept path s0 s'"
    using k n(2) same by (metis option.distinct(1) others_kept_def)
  moreover have "temps_ok path data s0 s' (pc(p := c))"
  proof (rule temps_ok_update [OF t])
    fix x assume c: "tempOf c = Some x"
    then have x: "x = m" using pc by simp
    obtain f where f: "lookupFile s m = Some f" "ffMode f = 384" "complete (pc p) \<Longrightarrow> ffData f = data p"
      using ok by (auto simp: temp_ok_def)
    have "\<exists>f. lookupFile s' m = Some f \<and> ffMode f = 384 \<and> (complete c \<longrightarrow> ffData f = data p)"
      using mine [of f] c x f by simp
    then show "temp_ok path data s0 s' (pc(p := c)) p x"
      using ok x by (auto simp: temp_ok_def)
  next
    fix q x assume q: "q \<noteq> p" "tempOf (pc q) = Some x"
    then have "x \<noteq> m" using temp_ok_owner [OF ok, of q] by auto
    then show "tempOf c \<noteq> Some x \<and> lookupFile s' x = lookupFile s x" using pc same by auto
  qed
  ultimately show ?thesis by (simp add: cache_inv_def)
qed

lemma cache_inv_no_temp:
  assumes inv: "cache_inv path data s0 (s, pc)"
    and same: "\<And>q. lookupFile s' q = lookupFile s q" and c: "tempOf c = None"
  shows "cache_inv path data s0 (s', pc(p := c))"
proof -
  have "temps_ok path data s0 s pc" using inv by (simp add: cache_inv_def)
  then have "temps_ok path data s0 s' (pc(p := c))"
    by (rule temps_ok_update) (simp_all add: c same)
  with inv same show ?thesis by (simp add: cache_inv_def old_or_complete_def others_kept_def)
qed

lemma cache_inv_create:
  assumes inv: "cache_inv path data s0 (s, pc)"
    and fresh: "lookupFile s name = None" "name \<noteq> path" and f: "ffMode f = 384"
  shows "cache_inv path data s0 (putFile name f s, pc(p := AtWrite name 0))"
proof -
  have t: "temps_ok path data s0 s pc" and k: "others_kept path s0 s"
    using inv by (simp_all add: cache_inv_def)
  have s0: "lookupFile s0 name = None"
    using k fresh by (cases "lookupFile s0 name") (auto simp: others_kept_def)
  have nobody: "tempOf (pc q) \<noteq> Some name" for q
    using temp_ok_exists [OF temps_okD [OF t, of q name]] fresh(1) by blast
  have "temps_ok path data s0 (putFile name f s) (pc(p := AtWrite name 0))"
  proof (rule temps_ok_update [OF t])
    fix m assume "tempOf (AtWrite name 0) = Some m"
    then have m: "m = name" by simp
    have own: "q = p" if "tempOf ((pc(p := AtWrite name 0)) q) = Some name" for q
      using that nobody [of q] by (simp split: if_splits)
    have "lookupFile (putFile name f s) name = Some f" "\<not> complete ((pc(p := AtWrite name 0)) p)"
      by simp_all
    then show "temp_ok path data s0 (putFile name f s) (pc(p := AtWrite name 0)) p m"
      unfolding m by (intro temp_okI [OF fresh(2) s0 own _ f]) blast+
  next
    fix q m assume "tempOf (pc q) = Some m"
    with nobody [of q] show "tempOf (AtWrite name 0) \<noteq> Some m \<and> lookupFile (putFile name f s) m = lookupFile s m"
      by simp
  qed
  moreover have "old_or_complete path data s0 (putFile name f s)"
    using inv fresh(2) by (simp add: cache_inv_def old_or_complete_def)
  moreover have "others_kept path s0 (putFile name f s)"
    using k s0 by (auto simp: others_kept_def)
  ultimately show ?thesis by (simp add: cache_inv_def)
qed

lemma cache_inv_rename:
  assumes inv: "cache_inv path data s0 (s, pc)" and own: "pc p = AtRename name"
  shows "cache_inv path data s0 (renameFile name path s, pc(p := Finished True))"
proof -
  have t: "temps_ok path data s0 s pc" using inv by (simp add: cache_inv_def)
  have ok: "temp_ok path data s0 s pc p name" using temps_okD [OF t] own by simp
  then obtain f where n: "name \<noteq> path" "lookupFile s0 name = None"
    and f: "lookupFile s name = Some f" "ffMode f = 384" "ffData f = data p"
    using own by (auto simp: temp_ok_def)
  note look = lookup_renameFile [OF f(1) n(1)]
  have "temps_ok path data s0 (renameFile name path s) (pc(p := Finished True))"
  proof (rule temps_ok_update [OF t])
    fix q m assume q: "q \<noteq> p" "tempOf (pc q) = Some m"
    have "m \<noteq> path" by (rule temp_ok_path [OF temps_okD [OF t q(2)]])
    moreover have "m \<noteq> name" using temp_ok_owner [OF ok, of q] q by blast
    ultimately show "tempOf (Finished True) \<noteq> Some m
      \<and> lookupFile (renameFile name path s) m = lookupFile s m" using look by simp
  qed simp
  moreover have "old_or_complete path data s0 (renameFile name path s)"
    using look [of path] f by (auto simp: old_or_complete_def)
  moreover have "others_kept path s0 (renameFile name path s)"
    using inv n(2) look by (auto simp: cache_inv_def others_kept_def)
  ultimately show ?thesis by (simp add: cache_inv_def)
qed

lemma cache_inv_step:
  assumes "cache_step path data w w'" and "cache_inv path data s0 w"
  shows "cache_inv path data s0 w'"
  using assms
proof cases
  case (create pc p s name t)
  then show ?thesis using assms(2) by (auto intro!: cache_inv_create)
next
  case (rename pc p name s)
  then show ?thesis using assms(2) by (auto intro!: cache_inv_rename)
qed (use assms(2) in \<open>auto intro: cache_inv_no_temp cache_inv_temp\<close>)

lemma cache_inv_reaches: "reaches path data s0 s pc \<Longrightarrow> cache_inv path data s0 (s, pc)"
  unfolding reaches_def
  by (induction rule: rtranclp_induct) (auto intro: cache_inv_init cache_inv_step)

section \<open>A writer that succeeds has published\<close>

definition published :: "bytes \<Rightarrow> (nat \<Rightarrow> bytes) \<Rightarrow> fs \<Rightarrow> bool" where
  "published path data s \<longleftrightarrow>
     (\<exists>p f. lookupFile s path = Some f \<and> ffData f = data p \<and> ffMode f = 384)"

lemma renames_publish:
  assumes "cache_inv path data s0 (s, pc)" and "pc p = AtRename name"
  shows "published path data (renameFile name path s)"
proof -
  have "temp_ok path data s0 s pc p name"
    using assms temps_okD [of path data s0 s pc p name] by (simp add: cache_inv_def)
  then obtain f where "name \<noteq> path" "lookupFile s name = Some f" "ffMode f = 384" "ffData f = data p"
    using assms(2) by (auto simp: temp_ok_def)
  then show ?thesis using lookup_renameFile by (auto simp: published_def)
qed

lemma temp_not_path:
  "cache_inv path data s0 (s, pc) \<Longrightarrow> tempOf (pc p) = Some name \<Longrightarrow> path \<noteq> name"
  using temp_ok_path [OF temps_okD, of path data s0 s pc p name] by (auto simp: cache_inv_def)

lemma published_step:
  assumes "cache_step path data w w'" and "cache_inv path data s0 w"
    and "\<exists>p. snd w p = Finished True \<Longrightarrow> published path data (fst w)"
    and "snd w' p = Finished True"
  shows "published path data (fst w')"
  using assms(1)
proof cases
  case (rename pc q name s)
  then show ?thesis using assms(2) renames_publish by auto
next
  case (create pc q s name t)
  then have "published path data s" using assms(3,4) by (auto split: if_splits)
  with create show ?thesis by (auto simp: published_def)
next
  case (writes pc q name k s n t)
  then have "published path data s" using assms(3,4) by (auto split: if_splits)
  with writes temp_not_path [of path data s0 s pc q name] assms(2) show ?thesis
    by (auto simp: published_def)
next
  case (written pc q name k s t)
  then have "published path data s" using assms(3,4) by (auto split: if_splits)
  with written temp_not_path [of path data s0 s pc q name] assms(2) show ?thesis
    by (auto simp: published_def)
next
  case (chmod pc q name s)
  then have "published path data s" using assms(3,4) by (auto split: if_splits)
  with chmod temp_not_path [of path data s0 s pc q name] assms(2) show ?thesis
    by (auto simp: published_def)
next
  case (remove pc q name s)
  then have "published path data s" using assms(3,4) by (auto split: if_splits)
  with remove temp_not_path [of path data s0 s pc q name] assms(2) show ?thesis
    by (auto simp: published_def)
qed (use assms(3,4) in \<open>auto simp: published_def split: if_splits\<close>)

lemma published_reaches:
  "reaches path data s0 s pc \<Longrightarrow> pc p = Finished True \<Longrightarrow> published path data s"
proof -
  assume r: "reaches path data s0 s pc" and f: "pc p = Finished True"
  have "cache_inv path data s0 w \<and> ((\<exists>p. snd w p = Finished True) \<longrightarrow> published path data (fst w))"
    if "(cache_step path data)\<^sup>*\<^sup>* (s0, initially) w" for w
    using that
  proof (induction rule: rtranclp_induct)
    case base
    then show ?case by (simp add: cache_inv_init initially_def)
  next
    case (step w w')
    then show ?case using cache_inv_step published_step by metis
  qed
  from this [of "(s, pc)"] r f show ?thesis by (auto simp: reaches_def)
qed

text \<open>
  C8: whatever number of processes write the cache at the same time, in whatever order
  their system calls interleave, and wherever each of them fails or is killed: the cache
  file is always either the file that was there before or the complete data of one of the
  writers with mode 0600, never a part or a mixture; it is one of the writers' as soon as
  one of them has reported success; and no other existing file is changed.
\<close>

theorem concurrent_cache_writes_atomic:
  assumes "reaches path data s0 s pc"
  shows "(lookupFile s path = lookupFile s0 path \<and> (\<forall>p. pc p \<noteq> Finished True)
      \<or> (\<exists>p f. lookupFile s path = Some f \<and> ffData f = data p \<and> ffMode f = 384))
    \<and> (\<forall>q f. q \<noteq> path \<longrightarrow> lookupFile s0 q = Some f \<longrightarrow> lookupFile s q = Some f)"
  using cache_inv_reaches [OF assms] published_reaches [OF assms]
  by (auto simp: cache_inv_def old_or_complete_def others_kept_def published_def)

section \<open>One process: the write of the program is a run of the system\<close>

inductive traced :: "bytes \<Rightarrow> (nat \<Rightarrow> bytes) \<Rightarrow> writers \<Rightarrow> fs list \<Rightarrow> writers \<Rightarrow> bool"
  for path data where
  nothing: "traced path data w [] w"
| more: "(cache_step path data)\<^sup>*\<^sup>* w (s, pc) \<Longrightarrow> traced path data (s, pc) ss w'
    \<Longrightarrow> traced path data w (s # ss) w'"

definition solo :: "writer_pc \<Rightarrow> nat \<Rightarrow> writer_pc" where
  "solo c = initially(0 := c)"

lemma solo_simps [simp]: "solo c 0 = c" "(solo c)(0 := c') = solo c'" "solo AtMkdir = initially"
  by (simp_all add: solo_def initially_def fun_upd_idem_iff)

lemma traced_append: "traced path data w ss w' \<Longrightarrow> traced path data w' ss' w'' \<Longrightarrow> traced path data w (ss @ ss') w''"
  by (induction rule: traced.induct) (auto intro: traced.intros)

lemma traced_one: "cache_step path data w (s, pc) \<Longrightarrow> traced path data w [s] (s, pc)"
  by (blast intro: traced.intros)

lemma traced_cong: "traced path data w ss w' \<Longrightarrow> w' = w'' \<Longrightarrow> traced path data w ss w''"
  by simp

lemmas solo_step = cache_step.intros [of "solo c" 0 for c, simplified solo_simps, OF refl]

abbreviation solo_steps :: "bytes \<Rightarrow> bytes \<Rightarrow> fs \<Rightarrow> writer_pc \<Rightarrow> fs \<Rightarrow> writer_pc \<Rightarrow> bool" where
  "solo_steps path d s c s' c' \<equiv> (cache_step path (\<lambda>_. d))\<^sup>*\<^sup>* (s, solo c) (s', solo c')"

lemma solo_steps_start:
  "cache_step path (\<lambda>_. d) (s, solo c) (s', solo c') \<Longrightarrow> solo_steps path d s' c' s'' c''
     \<Longrightarrow> solo_steps path d s c s'' c''"
  by (rule converse_rtranclp_into_rtranclp)

lemma step_once: "cache_step path data w w' \<Longrightarrow> (cache_step path data)\<^sup>*\<^sup>* w w'"
  by (rule r_into_rtranclp)

lemma cleanup_steps: "solo_steps path d s (AtCleanup m) (cleanup env m s) (Finished False)"
proof (cases "weRemove env")
  case None
  then show ?thesis by (simp add: cleanup_def) (rule r_into_rtranclp, rule solo_step)
next
  case Some
  then show ?thesis by (simp add: cleanup_def) (rule r_into_rtranclp, rule solo_step)
qed

lemma commit_steps:
  "solo_steps path d s (AtSync m) s (AtCleanup m)"
  "solo_steps path d s (AtClose m) s (AtCleanup m)"
  "solo_steps path d s (AtChmod m) s (AtCleanup m)"
  "solo_steps path d s (AtSync m) s (AtClose m)"
  "solo_steps path d s (AtClose m) s (AtChmod m)"
  "solo_steps path d s (AtChmod m) (chmodFile m 384 s) (AtRename m)"
  "solo_steps path d s (AtRename m) (renameFile m path s) (Finished True)"
  "solo_steps path d s (AtRename m) s (AtCleanup m)"
  by (rule r_into_rtranclp, rule solo_step)+

lemma cacheCommit_traced:
  assumes "cacheCommit env path m s = (err, states)"
  shows "traced path (\<lambda>_. d) (s, solo (AtSync m)) states
    (finalState s states, solo (Finished (err = None)))"
proof -
  note closing = commit_steps(4) [of path d s m]
  note chmodding = rtranclp_trans [OF closing commit_steps(5) [of path d s m]]
  note renaming = rtranclp_trans [OF chmodding commit_steps(6) [of path d s m]]
  note failed = cleanup_steps [of path d _ m env]
  have stop: "traced path (\<lambda>_. d) w [t] (t, pc)" if "(cache_step path (\<lambda>_. d))\<^sup>*\<^sup>* w (t, pc)" for w t pc
    using that by (blast intro: traced.intros)
  consider (sync) e where "weSync env = Some e"
    | (close) e where "weSync env = None" "weClose env = Some e"
    | (chmod) e where "weSync env = None" "weClose env = None" "weChmod env = Some e"
    | (rename) e where "weSync env = None" "weClose env = None" "weChmod env = None" "weRename env = Some e"
    | (ok) "weSync env = None" "weClose env = None" "weChmod env = None" "weRename env = None"
    by (metis option.exhaust)
  then show ?thesis
  proof cases
    case sync
    with assms show ?thesis
      using stop [OF rtranclp_trans [OF commit_steps(1) failed]]
      by (auto simp: cacheCommit_def finalState_def Let_def)
  next
    case close
    with assms show ?thesis
      using stop [OF rtranclp_trans [OF rtranclp_trans [OF closing commit_steps(2)] failed]]
      by (auto simp: cacheCommit_def finalState_def Let_def)
  next
    case chmod
    with assms show ?thesis
      using stop [OF rtranclp_trans [OF rtranclp_trans [OF chmodding commit_steps(3)] failed]]
      by (auto simp: cacheCommit_def finalState_def Let_def)
  next
    case rename
    with assms show ?thesis
      using traced.more [OF renaming stop [OF rtranclp_trans [OF commit_steps(8) failed]]]
      by (auto simp: cacheCommit_def finalState_def Let_def)
  next
    case ok
    with assms show ?thesis
      using traced.more [OF renaming stop [OF commit_steps(7)]]
      by (auto simp: cacheCommit_def finalState_def Let_def)
  qed
qed

lemma setContent_twice: "setContent m d' t (setContent m d t s) = setContent m d' t s"
  by (auto simp: setContent_def putFile_def split: option.split)

lemma writes_traced:
  "\<exists>k. traced path (\<lambda>_. d) (setContent m x t s, solo (AtWrite m j))
      (map (\<lambda>k. setContent m (take k d) t s) ks)
      (finalState (setContent m x t s) (map (\<lambda>k. setContent m (take k d) t s) ks), solo (AtWrite m k))"
proof (induction ks arbitrary: x j)
  case Nil
  then show ?case by (auto simp: finalState_def intro: traced.nothing)
next
  case (Cons n ks)
  have step: "cache_step path (\<lambda>_. d) (setContent m x t s, solo (AtWrite m j))
      (setContent m (take n d) t s, solo (AtWrite m n))"
    using solo_step(5) [where s = "setContent m x t s" and name = m and n = n and t = t and data = "\<lambda>_. d"]
    by (simp add: setContent_twice)
  obtain k where "traced path (\<lambda>_. d) (setContent m (take n d) t s, solo (AtWrite m n))
      (map (\<lambda>k. setContent m (take k d) t s) ks)
      (finalState (setContent m (take n d) t s) (map (\<lambda>k. setContent m (take k d) t s) ks), solo (AtWrite m k))"
    using Cons.IH by blast
  with step show ?case
    by (auto simp: finalState_def intro!: exI [of _ k] traced.more [OF step_once [OF step]])
qed

lemma finalState_Cons [simp]: "finalState s (x # xs) = finalState x xs"
  by (simp add: finalState_def)

lemma finalState_append [simp]: "finalState s (xs @ ys) = finalState (finalState s xs) ys"
  by (cases ys) (simp_all add: finalState_def)

lemma finalState_Nil [simp]: "finalState s [] = s"
  by (simp add: finalState_def)

lemma setContent_put_new:
  "setContent m [] t (putFile m \<lparr>ffData = [], ffMode = n, ffTime = t\<rparr> s)
     = putFile m \<lparr>ffData = [], ffMode = n, ffTime = t\<rparr> s"
  by (simp add: setContent_def putFile_def)

lemma traced_step:
  "cache_step path data (s, c) (s', c') \<Longrightarrow> traced path data (s', c') ss w' \<Longrightarrow> traced path data (s, c) (s' # ss) w'"
  using traced.more [OF step_once] by blast

lemma writeTemp_traced:
  assumes w: "writeTemp env path data m s1 = (err, states)"
    and f: "lookupFile s1 m = None" "m \<noteq> path"
  shows "traced path (\<lambda>_. data) (s1, solo AtCreate) states
    (finalState s1 states, solo (Finished (err = None)))"
proof -
  define s2 where "s2 = putFile m \<lparr>ffData = [], ffMode = 384, ffTime = weNow env\<rparr> s1"
  define mid where "mid = map (\<lambda>k. setContent m (take k data) (weNow env) s2) (weProgress env)"
  have create: "cache_step path (\<lambda>_. data) (s1, solo AtCreate) (s2, solo (AtWrite m 0))"
    unfolding s2_def by (rule solo_step(3) [OF f])
  have s2: "setContent m [] (weNow env) s2 = s2" by (simp add: s2_def setContent_put_new)
  obtain k where mid: "traced path (\<lambda>_. data) (s2, solo (AtWrite m 0)) mid
      (finalState s2 mid, solo (AtWrite m k))"
    using writes_traced [of path data m "[]" "weNow env" s2 0 "weProgress env"]
    by (auto simp: s2 mid_def)
  note start = traced_step [OF create mid]
  show ?thesis
  proof (cases "weWrite env")
    case (Some e)
    let ?l = "finalState s2 mid"
    have "cache_step path (\<lambda>_. data) (?l, solo (AtWrite m k)) (?l, solo (AtCleanup m))"
      by (rule solo_step)
    then have "traced path (\<lambda>_. data) (?l, solo (AtWrite m k)) [cleanup env m ?l]
        (cleanup env m ?l, solo (Finished False))"
      using traced.more [OF rtranclp_trans [OF step_once cleanup_steps] traced.nothing] by blast
    from traced_append [OF start this] show ?thesis
      using w Some by (auto simp: writeTemp_def Let_def s2_def mid_def finalState_def)
  next
    case None
    let ?s3 = "setContent m data (weNow env) s2"
    obtain e' tail where commit: "cacheCommit env path m ?s3 = (e', tail)" by fastforce
    have "setContent m data (weNow env) (finalState s2 mid) = ?s3"
      by (cases "weProgress env" rule: rev_cases) (simp_all add: mid_def setContent_twice finalState_def)
    then have "cache_step path (\<lambda>_. data) (finalState s2 mid, solo (AtWrite m k)) (?s3, solo (AtSync m))"
      using solo_step(6) [where s = "finalState s2 mid" and name = m and data = "\<lambda>_. data"] by metis
    from traced_append [OF start traced_step [OF this cacheCommit_traced [OF commit]]] show ?thesis
      using w None commit by (auto simp: writeTemp_def Let_def s2_def mid_def)
  qed
qed

text \<open>
  C9: the write of the program refines the transition system. Every run of
  \<open>writeServerListCache\<close> whose temporary name is new, with whatever errors its system calls
  return, goes through exactly the states of one run of a single writer, and reports success
  exactly when that writer ends as a successful one. What holds of all reachable states of
  the concurrent system therefore holds at every moment of the real write.
\<close>

theorem writeServerListCache_refines:
  assumes w: "writeServerListCache env path data s0 = (err, states)"
    and fresh: "\<And>m. weTemp env = Inr m \<Longrightarrow> lookupFile s0 m = None \<and> m \<noteq> path"
  shows "traced path (\<lambda>_. data) (s0, initially) states
    (finalState s0 states, initially(0 := Finished (err = None)))"
proof -
  let ?dirs = "ancestors (filepathDir path)"
  let ?s1 = "makeDirs ?dirs 448 s0"
  have mkdir: "cache_step path (\<lambda>_. data) (s0, solo AtMkdir) (?s1, solo AtCreate)"
    by (rule solo_step)
  consider (mkdir) e where "weMkdir env = Some e"
    | (temp) e where "weMkdir env = None" "weTemp env = Inl e"
    | (run) m where "weMkdir env = None" "weTemp env = Inr m"
    by (metis option.exhaust sum.exhaust)
  then have "traced path (\<lambda>_. data) (s0, solo AtMkdir) states
      (finalState s0 states, solo (Finished (err = None)))"
  proof cases
    case mkdir
    then show ?thesis
      using w traced_step [OF solo_step(2) traced.nothing, of path "\<lambda>_. data" s0 "take (weMadeDirs env) ?dirs"]
      by (auto simp: writeServerListCache_def Let_def)
  next
    case temp
    have "cache_step path (\<lambda>_. data) (?s1, solo AtCreate) (?s1, solo (Finished False))"
      by (rule solo_step)
    then have "traced path (\<lambda>_. data) (s0, solo AtMkdir) [?s1] (?s1, solo (Finished False))"
      using traced.more [OF rtranclp_trans [OF step_once [OF mkdir] step_once] traced.nothing] by blast
    with temp w show ?thesis by (auto simp: writeServerListCache_def Let_def)
  next
    case (run m)
    obtain e tail where t: "writeTemp env path data m ?s1 = (e, tail)" by fastforce
    with fresh [OF run(2)] w run traced_step [OF mkdir writeTemp_traced [OF t]] show ?thesis
      by (auto simp: writeServerListCache_def Let_def)
  qed
  then show ?thesis by (simp add: solo_def [of "Finished (err = None)"])
qed

definition exampleWrite :: write_env where
  "exampleWrite =
     \<lparr>weMkdir = None, weMadeDirs = 0, weTemp = Inr ''/c/.serverlist-1.tmp'', weProgress = [1, 2],
      weWrite = None, weSync = None, weClose = None, weChmod = None, weRename = None,
      weRemove = None, weNow = 7\<rparr>"

definition emptyFs :: fs where
  "emptyFs = \<lparr>fsFiles = Map.empty, fsDirs = Map.empty\<rparr>"

lemma exampleWrite_ok:
  "fst (writeServerListCache exampleWrite ''/c/list'' ''{}'' emptyFs) = None"
  by (simp add: writeServerListCache_def writeTemp_def exampleWrite_def cacheCommit_def Let_def)

lemma exampleWrite_fresh:
  "weTemp exampleWrite = Inr m \<Longrightarrow> lookupFile emptyFs m = None \<and> m \<noteq> ''/c/list''"
  by (auto simp: exampleWrite_def emptyFs_def lookupFile_def)

theorem writeServerListCache_refines_witness:
  "\<exists>states. writeServerListCache exampleWrite ''/c/list'' ''{}'' emptyFs = (None, states)
     \<and> traced ''/c/list'' (\<lambda>_. ''{}'') (emptyFs, initially) states
         (finalState emptyFs states, initially(0 := Finished True))"
proof -
  obtain states where w: "writeServerListCache exampleWrite ''/c/list'' ''{}'' emptyFs = (None, states)"
    using exampleWrite_ok by (metis prod.collapse)
  then show ?thesis using writeServerListCache_refines [OF w exampleWrite_fresh] by auto
qed

section \<open>What one write does\<close>

lemma cacheCommit_effect:
  assumes "cacheCommit env path m s = (err, states)"
    and f: "lookupFile s m = Some \<lparr>ffData = data, ffMode = 384, ffTime = t\<rparr>" and m: "m \<noteq> path"
  shows "(\<forall>x \<in> set states. lookupFile x path = lookupFile s path
            \<or> lookupFile x path = Some \<lparr>ffData = data, ffMode = 384, ffTime = t\<rparr>)
    \<and> lookupFile (finalState s states) =
        (if err = None then (lookupFile s)(path \<mapsto> \<lparr>ffData = data, ffMode = 384, ffTime = t\<rparr>, m := None)
         else if weRemove env = None then (lookupFile s)(m := None) else lookupFile s)"
proof -
  have ch: "lookupFile (chmodFile m 384 s) = lookupFile s" using f by (auto simp: fun_eq_iff)
  have rn: "lookupFile (renameFile m path (chmodFile m 384 s)) =
      (lookupFile s)(path \<mapsto> \<lparr>ffData = data, ffMode = 384, ffTime = t\<rparr>, m := None)"
    using lookup_renameFile [of "chmodFile m 384 s" m _ path] f m by (auto simp: fun_eq_iff)
  have cl: "lookupFile (cleanup env m x) =
      (if weRemove env = None then (lookupFile x)(m := None) else lookupFile x)" for x
    by (auto simp: cleanup_def fun_eq_iff split: option.split)
  show ?thesis
    using assms(1) m
    by (auto simp: cacheCommit_def Let_def ch rn cl split: option.splits)
qed

lemma finalState_in: "finalState s states = s \<or> finalState s states \<in> set states"
  by (cases states rule: rev_cases) (auto simp: finalState_def)

lemma writeTemp_effect:
  assumes w: "writeTemp env path data m s1 = (err, states)"
    and f: "lookupFile s1 m = None" "m \<noteq> path"
  shows "(\<forall>s \<in> set states. lookupFile s path = lookupFile s1 path
            \<or> lookupFile s path = Some \<lparr>ffData = data, ffMode = 384, ffTime = weNow env\<rparr>)
    \<and> (if err = None
       then lookupFile (finalState s1 states)
         = (lookupFile s1)(path \<mapsto> \<lparr>ffData = data, ffMode = 384, ffTime = weNow env\<rparr>)
       else lookupFile (finalState s1 states) path = lookupFile s1 path
         \<and> (weRemove env = None \<longrightarrow> lookupFile (finalState s1 states) = lookupFile s1))"
proof -
  define s2 where "s2 = putFile m \<lparr>ffData = [], ffMode = 384, ffTime = weNow env\<rparr> s1"
  define mid where "mid = map (\<lambda>k. setContent m (take k data) (weNow env) s2) (weProgress env)"
  have keep: "x = s2 \<or> x \<in> set mid \<Longrightarrow> q \<noteq> m \<Longrightarrow> lookupFile x q = lookupFile s1 q" for x q
    by (auto simp: mid_def s2_def)
  have last: "last (s2 # mid) = s2 \<or> last (s2 # mid) \<in> set mid"
    using finalState_in [of s2 mid] by (simp add: finalState_def)
  show ?thesis
  proof (cases "weWrite env")
    case (Some e)
    let ?c = "cleanup env m (last (s2 # mid))"
    have other: "lookupFile ?c q = lookupFile s1 q" if "q \<noteq> m" for q
      using keep [OF last that] that by (cases "weRemove env") (simp_all add: cleanup_def del: last.simps)
    have "lookupFile ?c q = lookupFile s1 q" if "weRemove env = None" for q
      using other [of q] that f(1) by (cases "q = m") (simp_all add: cleanup_def del: last.simps)
    then have "weRemove env = None \<longrightarrow> lookupFile ?c = lookupFile s1" by blast
    moreover have "err = Some (WritingTemp e)" and "states = s2 # mid @ [?c]"
      using w Some by (auto simp: writeTemp_def Let_def s2_def mid_def)
    ultimately show ?thesis
      using f keep other [of path] by (auto simp: finalState_def)
  next
    case None
    let ?s3 = "setContent m data (weNow env) s2"
    obtain e' tail where commit: "cacheCommit env path m ?s3 = (e', tail)" by fastforce
    have st: "err = e'" "states = s2 # mid @ ?s3 # tail"
      using w None commit by (auto simp: writeTemp_def Let_def s2_def mid_def)
    have s3: "lookupFile ?s3 m = Some \<lparr>ffData = data, ffMode = 384, ffTime = weNow env\<rparr>"
      "\<And>q. q \<noteq> m \<Longrightarrow> lookupFile ?s3 q = lookupFile s1 q"
      by (simp_all add: s2_def)
    have "lookupFile (finalState s1 states) = lookupFile (finalState ?s3 tail)" by (simp add: st)
    with cacheCommit_effect [OF commit s3(1) f(2)] s3 f keep show ?thesis
      by (auto simp: st fun_eq_iff split: if_splits)
  qed
qed

lemma writeServerListCache_effect:
  assumes w: "writeServerListCache env path data s0 = (err, states)"
    and fresh: "\<And>m. weTemp env = Inr m \<Longrightarrow> lookupFile s0 m = None \<and> m \<noteq> path"
  shows "(\<forall>s \<in> set states. lookupFile s path = lookupFile s0 path
            \<or> lookupFile s path = Some \<lparr>ffData = data, ffMode = 384, ffTime = weNow env\<rparr>)
    \<and> (if err = None
       then lookupFile (finalState s0 states)
         = (lookupFile s0)(path \<mapsto> \<lparr>ffData = data, ffMode = 384, ffTime = weNow env\<rparr>)
       else lookupFile (finalState s0 states) path = lookupFile s0 path
         \<and> (weRemove env = None \<longrightarrow> lookupFile (finalState s0 states) = lookupFile s0))"
proof -
  let ?s1 = "makeDirs (ancestors (filepathDir path)) 448 s0"
  consider (early) "(\<exists>e. weMkdir env = Some e) \<or> (\<exists>e. weTemp env = Inl e)"
    | (run) m where "weMkdir env = None" "weTemp env = Inr m"
    by (metis option.exhaust sum.exhaust)
  then show ?thesis
  proof cases
    case early
    then show ?thesis
      using w by (cases "weMkdir env") (auto simp: writeServerListCache_def Let_def fun_eq_iff)
  next
    case (run m)
    have f: "lookupFile ?s1 m = None" "m \<noteq> path" using fresh [OF run(2)] by simp_all
    have same: "lookupFile ?s1 = lookupFile s0" by (rule ext) simp
    obtain e tail where t: "writeTemp env path data m ?s1 = (e, tail)" by fastforce
    then have "err = e" "states = ?s1 # tail"
      using w run by (auto simp: writeServerListCache_def Let_def)
    then show ?thesis using writeTemp_effect [OF t f] by (simp add: same)
  qed
qed

text \<open>
  One cache write is all or nothing, at every moment. In every state the file system
  goes through the cache file is the old one or the complete new one with mode 0600; a
  reported success leaves exactly the old files with the new cache file, and a reported
  error leaves the cache file, and when the clean-up can remove the temporary file every
  file, as it was.
\<close>

theorem writeServerListCache_atomic:
  assumes w: "writeServerListCache env path data s0 = (err, states)"
    and fresh: "\<And>m. weTemp env = Inr m \<Longrightarrow> lookupFile s0 m = None \<and> m \<noteq> path"
  shows "(\<forall>s \<in> set states. lookupFile s path = lookupFile s0 path
            \<or> lookupFile s path = Some \<lparr>ffData = data, ffMode = 384, ffTime = weNow env\<rparr>)
    \<and> (if err = None
       then lookupFile (finalState s0 states)
         = (lookupFile s0)(path \<mapsto> \<lparr>ffData = data, ffMode = 384, ffTime = weNow env\<rparr>)
       else lookupFile (finalState s0 states) path = lookupFile s0 path
         \<and> (weRemove env = None \<longrightarrow> lookupFile (finalState s0 states) = lookupFile s0))"
  by (rule writeServerListCache_effect [OF assms])

theorem writeServerListCache_atomic_witness:
  "lookupFile (finalState emptyFs (snd (writeServerListCache exampleWrite ''/c/list'' ''{}'' emptyFs)))
     = [''/c/list'' \<mapsto> \<lparr>ffData = ''{}'', ffMode = 384, ffTime = 7\<rparr>]"
proof -
  obtain states where w: "writeServerListCache exampleWrite ''/c/list'' ''{}'' emptyFs = (None, states)"
    using exampleWrite_ok by (metis prod.collapse)
  have "lookupFile emptyFs = Map.empty" by (simp add: fun_eq_iff lookupFile_def emptyFs_def)
  moreover have "weNow exampleWrite = 7" by (simp add: exampleWrite_def)
  ultimately show ?thesis
    using writeServerListCache_atomic [OF w exampleWrite_fresh] w by simp
qed

theorem concurrent_cache_writes_atomic_witness:
  "\<exists>s pc. reaches ''/c'' (\<lambda>_. ''{}'') emptyFs s pc \<and> pc 0 = AtCreate
     \<and> (lookupFile s ''/c'' = None \<and> (\<forall>p. pc p \<noteq> Finished True)
        \<or> (\<exists>f. lookupFile s ''/c'' = Some f \<and> ffData f = ''{}'' \<and> ffMode f = 384))"
proof -
  have "cache_step ''/c'' (\<lambda>_. ''{}'') (emptyFs, initially)
      (makeDirs [] 448 emptyFs, initially(0 := AtCreate))"
    by (rule cache_step.mkdir) (simp add: initially_def)
  then have r: "reaches ''/c'' (\<lambda>_. ''{}'') emptyFs (makeDirs [] 448 emptyFs) (initially(0 := AtCreate))"
    unfolding reaches_def by (rule step_once)
  have "lookupFile emptyFs ''/c'' = None" by (simp add: emptyFs_def lookupFile_def)
  with concurrent_cache_writes_atomic [OF r] r show ?thesis by fastforce
qed

end
