(* ===== verification/Server_Policy.thy ===== *)
theory Server_Policy
  imports Server_Cache_Steps
begin

text \<open>
  \<open>fetchServerListWithPolicy\<close>: when the cached server list is used, when it is refreshed,
  and what happens when the refresh or the write of the cache fails. The clock, the
  network and the file calls are an environment; a run is its result, the line that verbose
  mode logs first, the fetch events, the states of the file system it goes through, and the
  warnings, which are logged last. A line is a value with what the code formats into it.
\<close>

record serverListOptions =
  soCachePath :: bytes
  soCacheTTL :: int
  soCacheMaxAge :: int
  soForceRefresh :: bool
  soFetchRetries :: int

record policy_env =
  peGet :: "nat \<Rightarrow> bytes \<Rightarrow> http_get"  \<comment> \<open>what the attempt of this number gets from a URL\<close>
  peNow :: int
  peRead :: read_env
  peWrite :: write_env

definition peNet :: "policy_env \<Rightarrow> nat \<Rightarrow> http_get" where
  \<comment> \<open>\<open>http.Get(serverListURLOverride)\<close>\<close>
  "peNet env k = peGet env k serverListURLOverride"

datatype policy_error =
    FetchError retry_error | ForceRefreshError retry_error | CacheReadError read_error
  | NoCacheError retry_error
  | ExpiredError int int retry_error     \<comment> \<open>age and maximum age\<close>

datatype policy_warning = WarnCacheWrite cache_error | WarnStale retry_error int

datatype policy_log =
    LogForced | LogMissing
  | LogFresh int int | LogTooOld int int | LogStale int int   \<comment> \<open>age and its limit\<close>

record policy_run =
  prResult :: "policy_error + bytes"
  prVerbose :: "policy_log list"
  prFetch :: "fetch_event list"
  prStates :: "fs list"
  prWarnings :: "policy_warning list"

definition hour :: int where "hour = 3600 * second"

definition timeSub :: "int \<Rightarrow> int \<Rightarrow> int" where
  \<comment> \<open>\<open>now.Sub(modTime)\<close>, which saturates at the bounds of \<open>time.Duration\<close>\<close>
  "timeSub now modTime = max (- (2 ^ 63)) (min (2 ^ 63 - 1) (now - modTime))"

definition cacheTTL :: "serverListOptions \<Rightarrow> int" where
  "cacheTTL opts = (if soCacheTTL opts = 0 then 24 * hour else soCacheTTL opts)"

definition cacheMaxAge :: "serverListOptions \<Rightarrow> int" where
  "cacheMaxAge opts = (if soCacheMaxAge opts = 0 then 168 * hour else soCacheMaxAge opts)"

definition roundSecond :: "int \<Rightarrow> int" where
  \<comment> \<open>\<open>d.Round(time.Second)\<close>: halves go away from zero, and the bounds of \<open>time.Duration\<close> saturate\<close>
  "roundSecond d =
     (let r = \<bar>d\<bar> mod second;
          m = (if 2 * r < second then \<bar>d\<bar> - r else \<bar>d\<bar> - r + second)
      in if d < 0 then max (- (2 ^ 63)) (- m) else min (2 ^ 63 - 1) m)"

definition verboseLine :: "bool \<Rightarrow> policy_log \<Rightarrow> policy_log list" where
  "verboseLine verbose line = (if verbose then [line] else [])"

definition storeFetched ::
  "policy_env \<Rightarrow> serverListOptions \<Rightarrow> fs \<Rightarrow> policy_log list \<Rightarrow> fetch_event list \<Rightarrow> bytes \<Rightarrow> policy_run" where
  \<comment> \<open>the data of a fetch that succeeded: written to the cache, a failure only warns\<close>
  "storeFetched env opts s lines evs data =
     (let (writeErr, states) = writeServerListCache (peWrite env) (soCachePath opts) data s
      in \<lparr>prResult = Inr data, prVerbose = lines, prFetch = evs, prStates = states,
          prWarnings = (case writeErr of None \<Rightarrow> [] | Some e \<Rightarrow> [WarnCacheWrite e])\<rparr>)"

definition fetchAndStore ::
  "policy_env \<Rightarrow> serverListOptions \<Rightarrow> bool \<Rightarrow> fs \<Rightarrow> policy_log \<Rightarrow> (retry_error \<Rightarrow> policy_error)
     \<Rightarrow> policy_run" where
  "fetchAndStore env opts verbose s line wrap =
     (let lines = verboseLine verbose line;
          (r, evs) = fetchServerListWithRetry verbose (peNet env) (soFetchRetries opts)
      in
      case r of
        Inl e \<Rightarrow> \<lparr>prResult = Inl (wrap e), prVerbose = lines, prFetch = evs, prStates = [], prWarnings = []\<rparr>
      | Inr data \<Rightarrow> storeFetched env opts s lines evs data)"

definition cachedPolicy ::
  "policy_env \<Rightarrow> serverListOptions \<Rightarrow> bool \<Rightarrow> fs \<Rightarrow> bytes \<Rightarrow> int \<Rightarrow> policy_run" where
  \<comment> \<open>from \<open>age := now.Sub(modTime)\<close> on\<close>
  "cachedPolicy env opts verbose s cached modTime =
     (let age = timeSub (peNow env) modTime; shown = roundSecond age in
      if age \<le> cacheTTL opts
      then \<lparr>prResult = Inr cached, prVerbose = verboseLine verbose (LogFresh shown (cacheTTL opts)),
            prFetch = [], prStates = [], prWarnings = []\<rparr>
      else if age > cacheMaxAge opts
      then fetchAndStore env opts verbose s (LogTooOld shown (cacheMaxAge opts))
             (ExpiredError shown (cacheMaxAge opts))
      else
        (let lines = verboseLine verbose (LogStale shown (cacheTTL opts));
             (r, evs) = fetchServerListWithRetry verbose (peNet env) (soFetchRetries opts)
         in
         case r of
           Inl e \<Rightarrow> \<lparr>prResult = Inr cached, prVerbose = lines, prFetch = evs, prStates = [],
                     prWarnings = [WarnStale e shown]\<rparr>
         | Inr data \<Rightarrow> storeFetched env opts s lines evs data))"

definition fetchServerListWithPolicy ::
  "policy_env \<Rightarrow> serverListOptions \<Rightarrow> bool \<Rightarrow> fs \<Rightarrow> policy_run" where
  "fetchServerListWithPolicy env opts verbose s =
     (if soCachePath opts = [] then
        (let (r, evs) = fetchServerListWithRetry verbose (peNet env) (soFetchRetries opts)
         in \<lparr>prResult = (case r of Inl e \<Rightarrow> Inl (FetchError e) | Inr data \<Rightarrow> Inr data),
             prVerbose = [], prFetch = evs, prStates = [], prWarnings = []\<rparr>)
      else if soForceRefresh opts then fetchAndStore env opts verbose s LogForced ForceRefreshError
      else
        (case readServerListCache (peRead env) s (soCachePath opts) of
           Inl NotExist \<Rightarrow> fetchAndStore env opts verbose s LogMissing NoCacheError
         | Inl readErr \<Rightarrow>
             \<lparr>prResult = Inl (CacheReadError readErr), prVerbose = [], prFetch = [], prStates = [],
              prWarnings = []\<rparr>
         | Inr (cached, modTime) \<Rightarrow> cachedPolicy env opts verbose s cached modTime))"

section \<open>Fetches\<close>

lemma retry_nonempty: "snd (fetchServerListWithRetry verbose net m) \<noteq> []"
  using fetchServerListWithRetry_attempts [of verbose net m] by (auto simp: attempts_def)

lemma retry_success:
  assumes "fetchServerListWithRetry verbose net m = (Inr data, evs)"
  shows "\<exists>k. 1 \<le> k \<and> k \<le> effectiveAttempts m \<and> fetchServerListRaw (net k) = Inr data"
proof -
  obtain k where "1 \<le> k" "k \<le> effectiveAttempts m"
    and "settled (effectiveAttempts m) k (net k) (Inr data)"
    using retry_loop_exact [of 1 "effectiveAttempts m" verbose net "Inr data" evs] effectiveAttempts_pos [of m] assms
    by (auto simp: fetchServerListWithRetry_def Suc_le_eq)
  then show ?thesis by (auto simp: settled_def split: sum.splits if_splits)
qed

lemma storeFetched_simps [simp]:
  "prResult (storeFetched env opts s lines evs data) = Inr data"
  "prFetch (storeFetched env opts s lines evs data) = evs"
  by (simp_all add: storeFetched_def split: prod.split)

lemma fetchAndStore_fetch [simp]:
  "prFetch (fetchAndStore env opts verbose s line wrap) = snd (fetchServerListWithRetry verbose (peNet env) (soFetchRetries opts))"
  by (simp add: fetchAndStore_def Let_def split: prod.split sum.split)

lemma fetchAndStore_Inr:
  assumes "prResult (fetchAndStore env opts verbose s line wrap) = Inr data"
  obtains lines evs where "fetchServerListWithRetry verbose (peNet env) (soFetchRetries opts) = (Inr data, evs)"
    and "fetchAndStore env opts verbose s line wrap = storeFetched env opts s lines evs data"
  using assms by (auto simp: fetchAndStore_def Let_def split: prod.splits sum.splits)

text \<open>
  The network is left alone exactly when a cache is configured, no refresh is forced,
  and the cache file either was read and is not older than the TTL, or cannot be read for
  a reason other than being absent; in every other case at least one request is made.
\<close>

theorem policy_network_use:
  "prFetch (fetchServerListWithPolicy env opts verbose s) = [] \<longleftrightarrow>
     soCachePath opts \<noteq> [] \<and> \<not> soForceRefresh opts \<and>
     (case readServerListCache (peRead env) s (soCachePath opts) of
        Inl e \<Rightarrow> e \<noteq> NotExist
      | Inr (_, modTime) \<Rightarrow> timeSub (peNow env) modTime \<le> cacheTTL opts)"
proof -
  note no = retry_nonempty [of verbose "peNet env" "soFetchRetries opts"]
  have "prFetch (cachedPolicy env opts verbose s d t) = [] \<longleftrightarrow> timeSub (peNow env) t \<le> cacheTTL opts" for d t
    using no by (auto simp: cachedPolicy_def Let_def split: prod.splits sum.splits)
  then show ?thesis
    using no
    by (auto simp: fetchServerListWithPolicy_def Let_def split: prod.splits sum.splits read_error.splits)
qed

lemma policy_source:
  assumes "prResult (fetchServerListWithPolicy env opts verbose s) = Inr d"
  shows "(\<exists>k. 1 \<le> k \<and> k \<le> effectiveAttempts (soFetchRetries opts) \<and> fetchServerListRaw (peNet env k) = Inr d)
    \<or> (\<exists>t. soCachePath opts \<noteq> [] \<and> \<not> soForceRefresh opts
         \<and> readServerListCache (peRead env) s (soCachePath opts) = Inr (d, t)
         \<and> (timeSub (peNow env) t \<le> cacheTTL opts
            \<or> timeSub (peNow env) t \<le> cacheMaxAge opts
              \<and> (\<exists>e. fst (fetchServerListWithRetry verbose (peNet env) (soFetchRetries opts)) = Inl e
                   \<and> WarnStale e (roundSecond (timeSub (peNow env) t))
                        \<in> set (prWarnings (fetchServerListWithPolicy env opts verbose s)))))"
    (is "?fetched \<or> ?cached")
proof -
  have fetched: ?fetched if "fetchServerListWithRetry verbose (peNet env) (soFetchRetries opts) = (Inr d, evs)" for evs
    using retry_success [OF that] .
  have stored: ?fetched if "prResult (fetchAndStore env opts verbose s line wrap) = Inr d" for line wrap
    using fetchAndStore_Inr [OF that] fetched by metis
  consider (plain) "soCachePath opts = []" | (forced) "soCachePath opts \<noteq> []" "soForceRefresh opts"
    | (unread) e where "soCachePath opts \<noteq> []" "\<not> soForceRefresh opts"
        "readServerListCache (peRead env) s (soCachePath opts) = Inl e"
    | (cached) c t where "soCachePath opts \<noteq> []" "\<not> soForceRefresh opts"
        "readServerListCache (peRead env) s (soCachePath opts) = Inr (c, t)"
    by (metis sum.exhaust prod.exhaust)
  then show ?thesis
  proof cases
    case plain
    then have "fst (fetchServerListWithRetry verbose (peNet env) (soFetchRetries opts)) = Inr d"
      using assms by (auto simp: fetchServerListWithPolicy_def split: prod.splits sum.splits)
    then show ?thesis using fetched by (metis prod.collapse)
  next
    case forced
    then show ?thesis using assms stored by (simp add: fetchServerListWithPolicy_def)
  next
    case (unread e)
    then show ?thesis using assms stored by (cases e) (auto simp: fetchServerListWithPolicy_def)
  next
    case (cached c t)
    then have p: "fetchServerListWithPolicy env opts verbose s = cachedPolicy env opts verbose s c t"
      by (simp add: fetchServerListWithPolicy_def)
    obtain r evs where r: "fetchServerListWithRetry verbose (peNet env) (soFetchRetries opts) = (r, evs)" by fastforce
    consider "timeSub (peNow env) t \<le> cacheTTL opts" "c = d"
      | line wrap where "prResult (fetchAndStore env opts verbose s line wrap) = Inr d"
      | e where "timeSub (peNow env) t \<le> cacheMaxAge opts" "r = Inl e" "c = d"
          "prWarnings (cachedPolicy env opts verbose s c t) = [WarnStale e (roundSecond (timeSub (peNow env) t))]"
      | "r = Inr d"
      using assms r unfolding p by (auto simp: cachedPolicy_def Let_def split: if_splits sum.splits)
    then show ?thesis using cached stored fetched r p by cases auto
  qed
qed

text \<open>
  C15: what the policy returns is never out of date in silence: it is the answer of one of the
  requests of this run, or the content of the cache file, and that only when no refresh was
  forced and the file is within the TTL, or within the maximum age and the refresh that
  was attempted failed (which is warned about).
\<close>

theorem policy_result_source:
  assumes "prResult (fetchServerListWithPolicy env opts verbose s) = Inr d"
  shows "(\<exists>k. 1 \<le> k \<and> k \<le> effectiveAttempts (soFetchRetries opts) \<and> fetchServerListRaw (peNet env k) = Inr d)
    \<or> (\<exists>t. soCachePath opts \<noteq> [] \<and> \<not> soForceRefresh opts
         \<and> readServerListCache (peRead env) s (soCachePath opts) = Inr (d, t)
         \<and> (timeSub (peNow env) t \<le> cacheTTL opts
            \<or> timeSub (peNow env) t \<le> cacheMaxAge opts
              \<and> (\<exists>e. fst (fetchServerListWithRetry verbose (peNet env) (soFetchRetries opts)) = Inl e
                   \<and> WarnStale e (roundSecond (timeSub (peNow env) t))
                        \<in> set (prWarnings (fetchServerListWithPolicy env opts verbose s)))))"
  by (rule policy_source [OF assms])

text \<open>
  C16: processes that share a cache never hand each other a damaged list. In every state that
  any number of concurrent cache writes can reach, whatever has failed or been killed, the
  policy returns the answer of one of its own requests, the content of the cache file from
  before the writes, or the complete data of one of the writers.
\<close>

theorem policy_under_writers:
  assumes "reaches (soCachePath opts) data s0 s pc"
    and "prResult (fetchServerListWithPolicy env opts verbose s) = Inr d"
  shows "(\<exists>k. 1 \<le> k \<and> k \<le> effectiveAttempts (soFetchRetries opts) \<and> fetchServerListRaw (peNet env k) = Inr d)
    \<or> (\<exists>f. lookupFile s0 (soCachePath opts) = Some f \<and> ffData f = d) \<or> (\<exists>p. data p = d)"
proof -
  have "old_or_complete (soCachePath opts) data s0 s"
    using cache_inv_reaches [OF assms(1)] by (simp add: cache_inv_def)
  moreover have "\<exists>f. lookupFile s (soCachePath opts) = Some f \<and> ffData f = d"
    if "readServerListCache (peRead env) s (soCachePath opts) = Inr (d, t)" for t
    using that by (auto simp: readServerListCache_def split: option.splits)
  ultimately show ?thesis
    using policy_source [OF assms(2)] unfolding old_or_complete_def by fastforce
qed

text \<open>
  C32: the cache keeps the program working without a network: when the cache file can be read
  and is within the TTL or within the maximum age and no refresh is forced, the policy
  returns a server list whatever the network answers.
\<close>

theorem policy_available_offline:
  assumes "soCachePath opts \<noteq> []" and "\<not> soForceRefresh opts"
    and "readServerListCache (peRead env) s (soCachePath opts) = Inr (c, t)"
    and "timeSub (peNow env) t \<le> max (cacheTTL opts) (cacheMaxAge opts)"
  shows "\<exists>d. prResult (fetchServerListWithPolicy env opts verbose s) = Inr d"
  using assms
  by (auto simp: fetchServerListWithPolicy_def cachedPolicy_def Let_def max_def
      split: prod.split sum.split if_splits)

section \<open>Two runs\<close>

lemma policy_stored:
  assumes r: "prResult (fetchServerListWithPolicy env opts verbose s) = Inr d"
    and c: "soCachePath opts \<noteq> []" and f: "prFetch (fetchServerListWithPolicy env opts verbose s) \<noteq> []"
    and w: "prWarnings (fetchServerListWithPolicy env opts verbose s) = []"
  shows "writeServerListCache (peWrite env) (soCachePath opts) d s
    = (None, prStates (fetchServerListWithPolicy env opts verbose s))"
proof -
  have st: "writeServerListCache (peWrite env) (soCachePath opts) d s
      = (None, prStates (storeFetched env opts s lines evs d))"
    if "prWarnings (storeFetched env opts s lines evs d) = []" for lines evs
    using that by (auto simp: storeFetched_def split: prod.splits option.splits)
  have fs: "writeServerListCache (peWrite env) (soCachePath opts) d s
      = (None, prStates (fetchAndStore env opts verbose s line wrap))"
    if "prResult (fetchAndStore env opts verbose s line wrap) = Inr d" "prWarnings (fetchAndStore env opts verbose s line wrap) = []"
    for line wrap
    using that st by (auto simp: fetchAndStore_def Let_def split: prod.splits sum.splits)
  obtain x evs where x: "fetchServerListWithRetry verbose (peNet env) (soFetchRetries opts) = (x, evs)" by fastforce
  show ?thesis
    using r f w c st fs x
    by (auto simp: fetchServerListWithPolicy_def cachedPolicy_def Let_def
        split: if_splits sum.splits read_error.splits)
qed

text \<open>
  C17: what one run stores, the next one finds: after a run that fetched a list and wrote the
  cache without a warning, a run with the same cache path, no forced refresh and a clock
  within the TTL of the write returns exactly that list without using the network and
  without changing the file system.
\<close>

theorem policy_second_run:
  assumes r: "prResult (fetchServerListWithPolicy env opts verbose s) = Inr d"
    and c: "soCachePath opts \<noteq> []" and f: "prFetch (fetchServerListWithPolicy env opts verbose s) \<noteq> []"
    and w: "prWarnings (fetchServerListWithPolicy env opts verbose s) = []"
    and fresh: "\<And>m. weTemp (peWrite env) = Inr m \<Longrightarrow> lookupFile s m = None \<and> m \<noteq> soCachePath opts"
    and next_run: "soCachePath opts' = soCachePath opts" "\<not> soForceRefresh opts'"
      "crStat (peRead env') = None" "crRead (peRead env') = None"
      "timeSub (peNow env') (weNow (peWrite env)) \<le> cacheTTL opts'"
  shows "fetchServerListWithPolicy env' opts' verbose'
      (finalState s (prStates (fetchServerListWithPolicy env opts verbose s)))
    = \<lparr>prResult = Inr d,
       prVerbose = verboseLine verbose' (LogFresh
         (roundSecond (timeSub (peNow env') (weNow (peWrite env)))) (cacheTTL opts')),
       prFetch = [], prStates = [], prWarnings = []\<rparr>"
  using writeServerListCache_effect [OF policy_stored [OF r c f w] fresh] next_run c
  by (simp add: fetchServerListWithPolicy_def cachedPolicy_def Let_def readServerListCache_def)

section \<open>Witnesses\<close>

definition exampleOptions :: serverListOptions where
  "exampleOptions = \<lparr>soCachePath = ''/c/list'', soCacheTTL = 0, soCacheMaxAge = 0,
     soForceRefresh = False, soFetchRetries = 5\<rparr>"

definition exampleGet :: "nat \<Rightarrow> bytes \<Rightarrow> http_get" where
  \<comment> \<open>one server, and a name that nothing else resolves\<close>
  "exampleGet k url = (if url = serverListURL then exampleNet k else GetFails refused)"

definition examplePolicyEnv :: "int \<Rightarrow> policy_env" where
  "examplePolicyEnv now =
     \<lparr>peGet = exampleGet, peNow = now, peRead = \<lparr>crStat = None, crRead = None\<rparr>, peWrite = exampleWrite\<rparr>"

definition exampleEvents :: "fetch_event list" where
  "exampleEvents = [FetchGet, FetchLog 1 5 None 2000000000, FetchSleep 2000000000,
     FetchGet, FetchLog 2 5 None 5000000000, FetchSleep 5000000000, FetchGet]"

definition exampleRun :: policy_run where
  "exampleRun = fetchServerListWithPolicy (examplePolicyEnv 7) exampleOptions False emptyFs"

lemma peNet_example [simp]:
  "peGet env = exampleGet \<Longrightarrow> peNet env = exampleNet"
  "peGet (examplePolicyEnv now) = exampleGet"
  by (rule ext, simp_all add: peNet_def examplePolicyEnv_def exampleGet_def serverListURLOverride_def)

lemma example_missing:
  "readServerListCache (peRead (examplePolicyEnv now)) emptyFs (soCachePath exampleOptions) = Inl NotExist"
  by (simp add: readServerListCache_def examplePolicyEnv_def emptyFs_def lookupFile_def)

lemma example_policy_run:
  "prResult exampleRun = Inr ''{}''" "prFetch exampleRun \<noteq> []" "prWarnings exampleRun = []"
proof -
  have "exampleRun = fetchAndStore (examplePolicyEnv 7) exampleOptions False emptyFs LogMissing NoCacheError"
    unfolding exampleRun_def fetchServerListWithPolicy_def example_missing
    by (simp add: exampleOptions_def)
  also have "\<dots> = storeFetched (examplePolicyEnv 7) exampleOptions emptyFs [] exampleEvents ''{}''"
    unfolding fetchAndStore_def Let_def using example_retry
    by (simp add: examplePolicyEnv_def exampleOptions_def verboseLine_def exampleEvents_def)
  also obtain states where
    "writeServerListCache exampleWrite ''/c/list'' ''{}'' emptyFs = (None, states)"
    using exampleWrite_ok by (metis prod.collapse)
  then have "storeFetched (examplePolicyEnv 7) exampleOptions emptyFs [] exampleEvents ''{}''
    = \<lparr>prResult = Inr ''{}'', prVerbose = [], prFetch = exampleEvents,
       prStates = states, prWarnings = []\<rparr>"
    by (simp add: storeFetched_def examplePolicyEnv_def exampleOptions_def)
  finally have run: "exampleRun = \<lparr>prResult = Inr ''{}'', prVerbose = [], prFetch = exampleEvents,
       prStates = states, prWarnings = []\<rparr>" .
  show "prResult exampleRun = Inr ''{}''" "prFetch exampleRun \<noteq> []" "prWarnings exampleRun = []"
    unfolding run by (simp_all add: exampleEvents_def)
qed

theorem policy_result_source_witness:
  "\<exists>k. 1 \<le> k \<and> k \<le> 5 \<and> fetchServerListRaw (exampleNet k) = Inr ''{}''"
  using policy_result_source [OF example_policy_run(1) [unfolded exampleRun_def]]
  unfolding example_missing
  by (simp add: exampleOptions_def examplePolicyEnv_def effectiveAttempts_def)

definition exampleCache :: fs where
  "exampleCache = \<lparr>fsFiles = [''/c/list'' \<mapsto> \<lparr>ffData = ''{}'', ffMode = 384, ffTime = 0\<rparr>], fsDirs = Map.empty\<rparr>"

theorem policy_under_writers_witness:
  "\<exists>s pc. reaches ''/c/list'' (\<lambda>_. ''{1}'') exampleCache s pc \<and> pc 0 = AtCreate
     \<and> prResult (fetchServerListWithPolicy (examplePolicyEnv 7) exampleOptions False s) = Inr ''{}''
     \<and> ((\<exists>k. fetchServerListRaw (peNet (examplePolicyEnv 7) k) = Inr ''{}'')
        \<or> (\<exists>f. lookupFile exampleCache ''/c/list'' = Some f \<and> ffData f = ''{}''))"
proof -
  let ?s = "makeDirs [] 448 exampleCache"
  have path: "soCachePath exampleOptions = ''/c/list''" by (simp add: exampleOptions_def)
  have "cache_step ''/c/list'' (\<lambda>_. ''{1}'') (exampleCache, initially) (?s, initially(0 := AtCreate))"
    by (rule cache_step.mkdir) (simp add: initially_def)
  then have r: "reaches (soCachePath exampleOptions) (\<lambda>_. ''{1}'') exampleCache ?s (initially(0 := AtCreate))"
    unfolding reaches_def path by (rule step_once)
  have "readServerListCache (peRead (examplePolicyEnv 7)) ?s (soCachePath exampleOptions) = Inr (''{}'', 0)"
    by (simp add: readServerListCache_def examplePolicyEnv_def exampleCache_def lookupFile_def exampleOptions_def
        makeDirs_def)
  then have d: "prResult (fetchServerListWithPolicy (examplePolicyEnv 7) exampleOptions False ?s) = Inr ''{}''"
    by (simp add: fetchServerListWithPolicy_def cachedPolicy_def exampleOptions_def examplePolicyEnv_def
        timeSub_def cacheTTL_def hour_def second_def)
  show ?thesis
    using policy_under_writers [OF r d] r d unfolding path
    by (intro exI [of _ ?s] exI [of _ "initially(0 := AtCreate)"] conjI) auto
qed

theorem policy_available_offline_witness:
  "\<exists>d. prResult (fetchServerListWithPolicy ((examplePolicyEnv (100 * hour))\<lparr>peGet := \<lambda>_ _. GetFails refused\<rparr>)
      exampleOptions True exampleCache) = Inr d"
  by (rule policy_available_offline [of _ _ _ "''{}''" 0])
    (simp_all add: exampleOptions_def examplePolicyEnv_def readServerListCache_def exampleCache_def
      lookupFile_def timeSub_def cacheTTL_def cacheMaxAge_def hour_def second_def)

theorem policy_second_run_witness:
  "fetchServerListWithPolicy (examplePolicyEnv (24 * hour)) exampleOptions True
      (finalState emptyFs (prStates exampleRun))
    = \<lparr>prResult = Inr ''{}'',
       prVerbose = verboseLine True (LogFresh
         (roundSecond (timeSub (peNow (examplePolicyEnv (24 * hour))) (weNow (peWrite (examplePolicyEnv 7)))))
         (cacheTTL exampleOptions)),
       prFetch = [], prStates = [], prWarnings = []\<rparr>"
  unfolding exampleRun_def
proof (rule policy_second_run [OF example_policy_run(1) [unfolded exampleRun_def] _
      example_policy_run(2,3) [unfolded exampleRun_def]])
  fix m assume "weTemp (peWrite (examplePolicyEnv 7)) = Inr m"
  then show "lookupFile emptyFs m = None \<and> m \<noteq> soCachePath exampleOptions"
    using exampleWrite_fresh by (simp add: examplePolicyEnv_def exampleOptions_def)
qed (simp_all add: exampleOptions_def examplePolicyEnv_def timeSub_def exampleWrite_def cacheTTL_def
    hour_def second_def)

end
