(* ===== verification/Server_Regions.thy ===== *)
theory Server_Regions
  imports Json_Struct Server_Policy "HOL-Library.Char_ord" "HOL-Library.List_Lexorder"
    "HOL-Library.Multiset"
begin

text \<open>
  The server list as data: the struct \<open>piaServerList\<close> of \<open>pia/pia.go\<close>, its decoding in
  \<open>parseServerList\<close>, and \<open>ListRegions\<close>. Go compares strings byte by byte, which is the
  lexicographic order on lists of characters. \<open>sort.Slice\<close> is known by its contract only
  (it is not stable), stated as a locale; a list sorted by insertion satisfies it.
\<close>

section \<open>The structs\<close>

record server =
  svCn :: bytes
  svIP :: bytes

record region_servers =
  rsMeta :: "server slice"
  rsWg :: "server slice"

record region_entry =
  reID :: bytes
  reName :: bytes
  reCountry :: bytes
  reAutoRegion :: bool
  reDNS :: bytes
  rePortForward :: bool
  reGeo :: bool
  reOffline :: bool
  reServers :: region_servers

record piaServerList =
  slRegions :: "region_entry slice"

definition zeroServer :: server where
  "zeroServer = \<lparr>svCn = [], svIP = []\<rparr>"

definition zeroServers :: region_servers where
  "zeroServers = \<lparr>rsMeta = nilSlice, rsWg = nilSlice\<rparr>"

definition zeroEntry :: region_entry where
  "zeroEntry = \<lparr>reID = [], reName = [], reCountry = [], reAutoRegion = False, reDNS = [],
     rePortForward = False, reGeo = False, reOffline = False, reServers = zeroServers\<rparr>"

definition zeroList :: piaServerList where
  "zeroList = \<lparr>slRegions = nilSlice\<rparr>"

section \<open>Decoding\<close>

definition stringField :: "('s \<Rightarrow> bytes) \<Rightarrow> ((bytes \<Rightarrow> bytes) \<Rightarrow> 's \<Rightarrow> 's) \<Rightarrow> 's field_decoder" where
  "stringField get upd raw s = map_option (\<lambda>x. upd (\<lambda>_. x) s) (unmarshalString raw (get s))"

definition boolField :: "('s \<Rightarrow> bool) \<Rightarrow> ((bool \<Rightarrow> bool) \<Rightarrow> 's \<Rightarrow> 's) \<Rightarrow> 's field_decoder" where
  "boolField get upd raw s = map_option (\<lambda>x. upd (\<lambda>_. x) s) (unmarshalBool raw (get s))"

definition subField :: "'a field_decoder \<Rightarrow> ('s \<Rightarrow> 'a) \<Rightarrow> (('a \<Rightarrow> 'a) \<Rightarrow> 's \<Rightarrow> 's) \<Rightarrow> 's field_decoder" where
  "subField dec get upd raw s = map_option (\<lambda>x. upd (\<lambda>_. x) s) (dec raw (get s))"

definition serverFields :: "(bytes \<times> server field_decoder) list" where
  "serverFields = [(''Cn'', stringField svCn svCn_update), (''IP'', stringField svIP svIP_update)]"

definition decodeServer :: "server field_decoder" where
  "decodeServer = decodeStruct serverFields"

definition serversFields :: "(bytes \<times> region_servers field_decoder) list" where
  "serversFields =
     [(''meta'', subField (decodeSlice decodeServer zeroServer) rsMeta rsMeta_update),
      (''wg'', subField (decodeSlice decodeServer zeroServer) rsWg rsWg_update)]"

definition entryFields :: "(bytes \<times> region_entry field_decoder) list" where
  "entryFields =
     [(''id'', stringField reID reID_update),
      (''name'', stringField reName reName_update),
      (''country'', stringField reCountry reCountry_update),
      (''auto_region'', boolField reAutoRegion reAutoRegion_update),
      (''dns'', stringField reDNS reDNS_update),
      (''port_forward'', boolField rePortForward rePortForward_update),
      (''geo'', boolField reGeo reGeo_update),
      (''offline'', boolField reOffline reOffline_update),
      (''servers'', subField (decodeStruct serversFields) reServers reServers_update)]"

definition decodeEntry :: "region_entry field_decoder" where
  "decodeEntry = decodeStruct entryFields"

definition listFields :: "(bytes \<times> piaServerList field_decoder) list" where
  "listFields = [(''regions'', subField (decodeSlice decodeEntry zeroEntry) slRegions slRegions_update)]"

datatype parse_error = ParsingServerList | NoRegions

definition parseServerList :: "bytes \<Rightarrow> parse_error + piaServerList" where
  "parseServerList data =
     (case decodeStruct listFields data zeroList of
        None \<Rightarrow> Inl ParsingServerList
      | Some sl \<Rightarrow> if fst (slRegions sl) = 0 then Inl NoRegions else Inr sl)"

section \<open>ListRegions\<close>

record regionInfo =
  rgID :: bytes
  rgName :: bytes
  rgCountry :: bytes
  rgPortForward :: bool
  rgGeo :: bool
  rgOffline :: bool

definition infoOf :: "region_entry \<Rightarrow> regionInfo" where
  "infoOf r = \<lparr>rgID = reID r, rgName = reName r, rgCountry = reCountry r,
     rgPortForward = rePortForward r, rgGeo = reGeo r, rgOffline = reOffline r\<rparr>"

definition regionLess :: "regionInfo \<Rightarrow> regionInfo \<Rightarrow> bool" where
  "regionLess a b =
     (if rgCountry a \<noteq> rgCountry b then rgCountry a < rgCountry b else rgID a < rgID b)"

type_synonym 'a slice_sorter = "('a \<Rightarrow> 'a \<Rightarrow> bool) \<Rightarrow> 'a list \<Rightarrow> 'a list"

datatype list_error = ListFetch policy_error | ListParse parse_error

definition listRegionsOf :: "regionInfo slice_sorter \<Rightarrow> bytes \<Rightarrow> parse_error + regionInfo list" where
  \<comment> \<open>\<open>ListRegions\<close> from \<open>parseServerList(data)\<close> on\<close>
  "listRegionsOf sortSlice data =
     (case parseServerList data of
        Inl e \<Rightarrow> Inl e
      | Inr sl \<Rightarrow> Inr (sortSlice regionLess (map infoOf (elems (slRegions sl)))))"

definition listRegions ::
  "regionInfo slice_sorter \<Rightarrow> policy_env \<Rightarrow> serverListOptions \<Rightarrow> bool \<Rightarrow> fs
     \<Rightarrow> (list_error + regionInfo list) \<times> policy_run" where
  "listRegions sortSlice env opts verbose s =
     (let run = fetchServerListWithPolicy env opts verbose s in
      (case prResult run of
         Inl e \<Rightarrow> Inl (ListFetch e)
       | Inr data \<Rightarrow>
           (case listRegionsOf sortSlice data of
              Inl e \<Rightarrow> Inl (ListParse e)
            | Inr rs \<Rightarrow> Inr rs),
       run))"

section \<open>The contract of sort.Slice\<close>

definition strict_weak :: "('a \<Rightarrow> 'a \<Rightarrow> bool) \<Rightarrow> bool" where
  "strict_weak lt \<longleftrightarrow>
     (\<forall>x. \<not> lt x x) \<and> (\<forall>x y z. lt x y \<longrightarrow> lt y z \<longrightarrow> lt x z)
     \<and> (\<forall>x y z. \<not> lt x y \<longrightarrow> \<not> lt y z \<longrightarrow> \<not> lt x z)"

locale slice_sort =
  fixes sortSlice :: "'a slice_sorter"
  assumes permutes: "mset (sortSlice lt xs) = mset xs"
    and sorts: "strict_weak lt \<Longrightarrow> sorted_wrt (\<lambda>x y. \<not> lt y x) (sortSlice lt xs)"
begin

lemma same_length: "length (sortSlice lt xs) = length xs"
  by (metis permutes size_mset)

lemma same_set: "set (sortSlice lt xs) = set xs"
  by (metis permutes set_mset_mset)

text \<open>Elements with different keys have one sorted order.\<close>

lemma sorted_keys:
  fixes key :: "'a \<Rightarrow> 'k::linorder"
  assumes "strict_weak lt" and lt: "\<And>x y. lt x y \<longleftrightarrow> key x < key y"
  shows "map key (sortSlice lt xs) = sort (map key xs)"
proof -
  have "sorted_wrt (\<lambda>x y. key x \<le> key y) (sortSlice lt xs)"
    using sorts [OF assms(1), of xs] by (simp add: lt not_less)
  then have "sorted (map key (sortSlice lt xs))" by (simp add: sorted_wrt_map)
  then show ?thesis
    using permutes [of lt xs] by (metis mset_map properties_for_sort)
qed

end

fun insertBefore :: "('a \<Rightarrow> 'a \<Rightarrow> bool) \<Rightarrow> 'a \<Rightarrow> 'a list \<Rightarrow> 'a list" where
  "insertBefore lt x [] = [x]"
| "insertBefore lt x (y # ys) = (if lt y x then y # insertBefore lt x ys else x # y # ys)"

fun insertionSort :: "'a slice_sorter" where
  "insertionSort lt [] = []"
| "insertionSort lt (x # xs) = insertBefore lt x (insertionSort lt xs)"

lemma mset_insertBefore: "mset (insertBefore lt x ys) = add_mset x (mset ys)"
  by (induction ys) auto

lemma sorted_insertBefore:
  assumes w: "strict_weak lt" and "sorted_wrt (\<lambda>x y. \<not> lt y x) ys"
  shows "sorted_wrt (\<lambda>x y. \<not> lt y x) (insertBefore lt x ys)"
  using assms(2)
proof (induction ys)
  case (Cons y ys)
  have set: "set (insertBefore lt x ys) = insert x (set ys)"
    using mset_insertBefore [of lt x ys] by (metis set_mset_add_mset_insert set_mset_mset)
  have asym: "lt y x \<Longrightarrow> \<not> lt x y" using w unfolding strict_weak_def by blast
  have trans: "\<not> lt y x \<Longrightarrow> \<not> lt z y \<Longrightarrow> \<not> lt z x" for z using w unfolding strict_weak_def by blast
  show ?case using Cons asym trans by (auto simp: set)
qed simp

interpretation insertion: slice_sort insertionSort
proof
  show perm: "mset (insertionSort lt xs) = mset xs" for lt :: "'a \<Rightarrow> 'a \<Rightarrow> bool" and xs
    by (induction xs) (simp_all add: mset_insertBefore)
  show "strict_weak lt \<Longrightarrow> sorted_wrt (\<lambda>x y. \<not> lt y x) (insertionSort lt xs)"
    for lt :: "'a \<Rightarrow> 'a \<Rightarrow> bool" and xs
    by (induction xs) (simp_all add: sorted_insertBefore)
qed

lemma regionLess_weak: "strict_weak regionLess"
  unfolding strict_weak_def regionLess_def
  by (intro conjI allI impI) (auto split: if_splits)

text \<open>The order of the listing is the order of the keys: by country, then by ID.\<close>

datatype region_key = RegionKey (keyCountry: bytes) (keyID: bytes)

instantiation region_key :: linorder
begin

definition less_region_key :: "region_key \<Rightarrow> region_key \<Rightarrow> bool" where
  "less_region_key a b \<longleftrightarrow>
     keyCountry a < keyCountry b \<or> keyCountry a = keyCountry b \<and> keyID a < keyID b"

definition less_eq_region_key :: "region_key \<Rightarrow> region_key \<Rightarrow> bool" where
  "less_eq_region_key a b \<longleftrightarrow> a < b \<or> a = (b :: region_key)"

instance
  by intro_classes (auto simp: less_region_key_def less_eq_region_key_def intro: region_key.expand)

end

definition regionKey :: "regionInfo \<Rightarrow> region_key" where
  "regionKey r = RegionKey (rgCountry r) (rgID r)"

lemma regionLess_key: "regionLess x y \<longleftrightarrow> regionKey x < regionKey y"
  by (auto simp: regionLess_def regionKey_def less_region_key_def)

text \<open>
  \<open>ListRegions\<close> returns every region of the parsed list exactly once, with its fields
  unchanged, ordered by country and then by ID; the order of the (country, ID) pairs is the
  same for every sorting algorithm that keeps the contract of \<open>sort.Slice\<close>.
\<close>

theorem listRegionsOf_sorted:
  assumes "slice_sort sortSlice" and "parseServerList data = Inr sl"
  shows "\<exists>rs. listRegionsOf sortSlice data = Inr rs
    \<and> mset rs = mset (map infoOf (elems (slRegions sl)))
    \<and> map regionKey rs = sort (map regionKey (map infoOf (elems (slRegions sl))))"
proof -
  note sort = slice_sort.permutes [OF assms(1)]
    slice_sort.sorted_keys [OF assms(1) regionLess_weak, of regionKey]
  show ?thesis
    using assms(2) sort regionLess_key by (auto simp: listRegionsOf_def)
qed

section \<open>A written server list is read back\<close>

definition serverText :: "server \<Rightarrow> bytes" where
  "serverText v = objectText [(''cn'', marshalString (svCn v)), (''ip'', marshalString (svIP v))]"

definition serversText :: "region_servers \<Rightarrow> bytes" where
  "serversText s =
     objectText [(''meta'', arrayText (map serverText (elems (rsMeta s)))),
       (''wg'', arrayText (map serverText (elems (rsWg s))))]"

definition entryMembers :: "region_entry \<Rightarrow> raw_fields" where
  "entryMembers r =
     [(''id'', marshalString (reID r)), (''name'', marshalString (reName r)),
      (''country'', marshalString (reCountry r)), (''auto_region'', marshalBool (reAutoRegion r)),
      (''dns'', marshalString (reDNS r)), (''port_forward'', marshalBool (rePortForward r)),
      (''geo'', marshalBool (reGeo r)), (''offline'', marshalBool (reOffline r)),
      (''servers'', serversText (reServers r))]"

definition listText :: "region_entry list \<Rightarrow> bytes" where
  "listText rs = objectText [(''regions'', arrayText (map (\<lambda>r. objectText (entryMembers r)) rs))]"

definition wf_server :: "server \<Rightarrow> bool" where
  "wf_server v \<longleftrightarrow> ascii (svCn v) \<and> ascii (svIP v)"

definition full :: "'a slice \<Rightarrow> bool" where
  "full s \<longleftrightarrow> fst s = length (snd s)"

definition wf_servers :: "region_servers \<Rightarrow> bool" where
  "wf_servers s \<longleftrightarrow> full (rsMeta s) \<and> full (rsWg s)
     \<and> list_all wf_server (elems (rsMeta s)) \<and> list_all wf_server (elems (rsWg s))"

definition wf_entry :: "region_entry \<Rightarrow> bool" where
  "wf_entry r \<longleftrightarrow> ascii (reID r) \<and> ascii (reName r) \<and> ascii (reCountry r) \<and> ascii (reDNS r)
     \<and> wf_servers (reServers r)"

lemma full_elems: "full s \<Longrightarrow> (length (elems s), elems s) = s"
  by (cases s) (simp add: full_def elems_def)

lemma depth_less [simp]: "Suc 0 < maxNestingDepth" "0 < maxNestingDepth" "5 < maxNestingDepth"
  "2 < maxNestingDepth" "3 < maxNestingDepth" "4 < maxNestingDepth"
  by (simp_all add: maxNestingDepth_def)

lemma ascii_literal [simp]: "ascii ''cn''" "ascii ''ip''" "ascii ''meta''" "ascii ''wg''"
    "ascii ''id''" "ascii ''name''" "ascii ''country''" "ascii ''auto_region''" "ascii ''dns''"
    "ascii ''port_forward''" "ascii ''geo''" "ascii ''offline''" "ascii ''servers''" "ascii ''regions''"
  by simp_all

lemma fold_server_names:
  "foldName ''Cn'' = foldName ''cn''" "foldName ''Cn'' \<noteq> foldName ''ip''" "foldName ''IP'' = foldName ''ip''"
  "foldName ''cn'' \<noteq> foldName ''ip''"
  by code_simp+

lemma serverText_ok:
  assumes "wf_server v"
  shows "json_text 1 (serverText v)" and "decodeServer (serverText v) old = Some v"
proof -
  have ok: "members_ok 0 [(''cn'', marshalString (svCn v)), (''ip'', marshalString (svIP v))]"
    using assms by (simp add: members_ok_def wf_server_def json_text_marshalString)
  show "json_text 1 (serverText v)"
    unfolding serverText_def by (rule json_text_objectText [OF ok]) simp
  show "decodeServer (serverText v) old = Some v"
    using assms decodeStruct_objectText [OF ok, of serverFields old]
    by (simp add: serverText_def decodeServer_def structField_def serverFields_def fold_server_names
        stringField_def str.dec_enc wf_server_def)
qed

lemma serverArray_ok:
  assumes "full s" and "list_all wf_server (elems s)"
  shows "json_text 2 (arrayText (map serverText (elems s)))"
    and "decodeSlice decodeServer zeroServer (arrayText (map serverText (elems s))) nilSlice = Some s"
proof -
  have "list_all (json_text 1) (map serverText (elems s))"
    using assms(2) serverText_ok(1) by (simp add: list_all_iff)
  then show "json_text 2 (arrayText (map serverText (elems s)))"
    by (rule json_text_arrayText) simp
  show "decodeSlice decodeServer zeroServer (arrayText (map serverText (elems s))) nilSlice = Some s"
    using decodeSlice_fresh [of "elems s" 1 serverText decodeServer zeroServer] assms
    by (simp add: serverText_ok [unfolded One_nat_def] list_all_iff full_elems)
qed

lemma serversText_ok:
  assumes "wf_servers s"
  shows "json_text 3 (serversText s)" and "decodeStruct serversFields (serversText s) zeroServers = Some s"
proof -
  have ok: "members_ok 2 [(''meta'', arrayText (map serverText (elems (rsMeta s)))),
       (''wg'', arrayText (map serverText (elems (rsWg s))))]"
    using assms by (simp add: members_ok_def wf_servers_def serverArray_ok)
  show "json_text 3 (serversText s)"
    unfolding serversText_def by (rule json_text_objectText [OF ok]) simp
  show "decodeStruct serversFields (serversText s) zeroServers = Some s"
    using assms decodeStruct_objectText [OF ok, of serversFields zeroServers]
    by (simp add: serversText_def structField_def serversFields_def subField_def wf_servers_def
        serverArray_ok zeroServers_def)
qed

lemma entryText_ok:
  assumes "wf_entry r"
  shows "json_text 4 (objectText (entryMembers r))" and "decodeEntry (objectText (entryMembers r)) zeroEntry = Some r"
proof -
  have ok: "members_ok 3 (entryMembers r)"
    using assms
    by (simp add: members_ok_def entryMembers_def wf_entry_def serversText_ok
        json_text_mono [OF json_text_marshalString] json_text_mono [OF json_text_marshalBool])
  show "json_text 4 (objectText (entryMembers r))"
    by (rule json_text_objectText [OF ok]) simp
  have "decodeEntry (objectText (entryMembers r)) zeroEntry = applyFields entryFields (entryMembers r) zeroEntry"
    using decodeStruct_objectText [OF ok] by (simp add: decodeEntry_def)
  also have "\<dots> = Some r"
    using assms
    by (simp add: entryMembers_def structField_def entryFields_def stringField_def boolField_def
        subField_def str.dec_enc bool.dec_enc serversText_ok wf_entry_def zeroEntry_def)
  finally show "decodeEntry (objectText (entryMembers r)) zeroEntry = Some r" .
qed

lemma parseServerList_text:
  assumes "list_all wf_entry rs"
  shows "parseServerList (listText rs)
    = (if rs = [] then Inl NoRegions else Inr \<lparr>slRegions = (length rs, rs)\<rparr>)"
proof -
  let ?enc = "\<lambda>r. objectText (entryMembers r)"
  have "list_all (json_text 4) (map ?enc rs)" using assms entryText_ok(1) by (simp add: list_all_iff)
  then have "json_text 5 (arrayText (map ?enc rs))" by (rule json_text_arrayText) simp
  then have ok: "members_ok 5 [(''regions'', arrayText (map ?enc rs))]" by (simp add: members_ok_def)
  have "decodeSlice decodeEntry zeroEntry (arrayText (map ?enc rs)) nilSlice = Some (length rs, rs)"
    using assms entryText_ok by (intro decodeSlice_fresh [of _ 4]) (auto simp: list_all_iff)
  then have "decodeStruct listFields (listText rs) zeroList = Some \<lparr>slRegions = (length rs, rs)\<rparr>"
    using decodeStruct_objectText [OF ok, of listFields zeroList]
    by (simp add: listText_def structField_def listFields_def subField_def zeroList_def)
  then show ?thesis by (simp add: parseServerList_def)
qed

lemma parseServerList_listText:
  "list_all wf_entry rs \<Longrightarrow> rs \<noteq> [] \<Longrightarrow>
     parseServerList (listText rs) = Inr \<lparr>slRegions = (length rs, rs)\<rparr>"
  by (simp add: parseServerList_text)

text \<open>
  C33: a server list whose texts are ASCII (\<open>wf_entry\<close>: every string of every region and server,
  the server slices as long as their elements), written as compact JSON with the member names
  the service uses and followed by any text without a closing brace, as the base64 signature
  is, is fetched; it is parsed to exactly the regions written, with all their servers in order,
  and refused when there is no region.
\<close>

theorem server_list_roundtrip:
  assumes "list_all wf_entry rs" and "CHR ''}'' \<notin> set tail"
  shows "\<exists>data. fetchServerListRaw (GetResponse 200 (listText rs @ tail) None) = Inr data
    \<and> parseServerList data = (if rs = [] then Inl NoRegions else Inr \<lparr>slRegions = (length rs, rs)\<rparr>)"
proof -
  have "listText rs \<noteq> [] \<and> last (listText rs) = CHR ''}''" by (simp add: listText_def objectText_def)
  then show ?thesis
    using take_strip_tail [OF assms(2), of "listText rs"] parseServerList_text [OF assms(1)]
    by (simp add: fetchServerListRaw_def)
qed

definition exampleServer :: server where
  "exampleServer = \<lparr>svCn = ''srv1'', svIP = ''10.0.0.1''\<rparr>"

definition exampleEntry :: "bytes \<Rightarrow> bytes \<Rightarrow> region_entry" where
  "exampleEntry i c = \<lparr>reID = i, reName = ''x'', reCountry = c, reAutoRegion = True, reDNS = ''d'',
     rePortForward = True, reGeo = False, reOffline = False,
     reServers = \<lparr>rsMeta = nilSlice, rsWg = (1, [exampleServer])\<rparr>\<rparr>"

definition exampleList :: "region_entry list" where
  "exampleList = [exampleEntry ''b'' ''US'', exampleEntry ''a'' ''US'', exampleEntry ''z'' ''CA'']"

lemma wf_exampleList: "list_all wf_entry exampleList" "exampleList \<noteq> []"
  by (simp_all add: exampleList_def exampleEntry_def wf_entry_def wf_servers_def full_def
      nilSlice_def elems_def wf_server_def exampleServer_def)

lemma length_exampleList: "length exampleList = 3"
  by (simp add: exampleList_def)

theorem server_list_roundtrip_witness:
  "\<exists>data. fetchServerListRaw (GetResponse 200 (listText exampleList @ ''c2lnbmF0dXJl'') None) = Inr data
    \<and> parseServerList data = Inr \<lparr>slRegions = (3, exampleList)\<rparr>"
  using server_list_roundtrip [OF wf_exampleList(1), of "''c2lnbmF0dXJl''"] wf_exampleList(2)
  by (simp add: length_exampleList)

theorem listRegionsOf_sorted_witness:
  "\<exists>rs. listRegionsOf insertionSort (listText exampleList) = Inr rs
    \<and> map regionKey rs = [RegionKey ''CA'' ''z'', RegionKey ''US'' ''a'', RegionKey ''US'' ''b'']"
proof -
  have p: "parseServerList (listText exampleList) = Inr \<lparr>slRegions = (3, exampleList)\<rparr>"
    using parseServerList_listText [OF wf_exampleList] by (simp add: length_exampleList)
  have "sort (map regionKey (map infoOf (elems (3, exampleList))))
      = [RegionKey ''CA'' ''z'', RegionKey ''US'' ''a'', RegionKey ''US'' ''b'']"
    by (simp add: exampleList_def elems_def exampleEntry_def infoOf_def regionKey_def less_eq_region_key_def
        less_region_key_def less_char_def less_eq_char_def)
  then show ?thesis
    using listRegionsOf_sorted [OF insertion.slice_sort_axioms p] by auto
qed

end
