(* ===== verification/Http_Redirect.thy ===== *)
theory Http_Redirect
  imports Server_Fetch
begin

text \<open>
  \<open>Client.Do\<close> of \<open>net/http\<close> for a client without \<open>CheckRedirect\<close>, as \<open>http.PostForm\<close> and the
  registration of \<open>pia/pia.go\<close> use it: the loop that follows redirects. One exchange with a server,
  the parsing of a \<open>Location\<close>, and the choice of the headers that are copied to a next request are
  parameters; every request of the two callers has a body that can be sent again, or none.
\<close>

section \<open>The loop\<close>

record pia_request =
  prqMethod :: bytes
  prqURL :: bytes
  prqContentType :: bytes
  prqBody :: bytes
  prqBasicAuth :: "(bytes \<times> bytes) option"
  prqReferer :: bytes

datatype http_reply =
    ReplyFails go_error
  | Reply int bytes bytes "go_error option"   \<comment> \<open>status, \<open>Location\<close>, body, error after the body\<close>

record net_client =
  ncSend :: "pia_request \<Rightarrow> http_reply"
  ncParse :: "bytes \<Rightarrow> bytes \<Rightarrow> bytes option"  \<comment> \<open>a \<open>Location\<close> relative to a URL\<close>
  ncPlain :: "bytes \<Rightarrow> bytes"                  \<comment> \<open>a URL without its user information\<close>
  ncShown :: "bytes \<Rightarrow> bytes"                  \<comment> \<open>a URL with its password masked\<close>
  ncCopies :: "bytes \<Rightarrow> pia_request list \<Rightarrow> int \<Rightarrow> bytes \<Rightarrow> bool"
    \<comment> \<open>whether a header of the first request is copied to the one for a URL, after the requests so far
      and a redirect with this status\<close>

datatype http_result =
    DoFails bytes go_error                    \<comment> \<open>a \<open>url.Error\<close>: the URL it names, its cause\<close>
  | DoAnswers int bytes "go_error option"

definition shouldRedirect :: "int \<Rightarrow> bool" where
  "shouldRedirect status \<longleftrightarrow> status \<in> {301, 302, 303, 307, 308}"

definition includeBody :: "int \<Rightarrow> bool" where
  "includeBody status \<longleftrightarrow> status \<in> {307, 308}"

definition redirectMethod :: "bytes \<Rightarrow> int \<Rightarrow> bytes" where
  "redirectMethod method status =
     (if status \<in> {301, 302, 303} \<and> method \<noteq> ''GET'' \<and> method \<noteq> ''HEAD'' then ''GET'' else method)"

definition refererForURL :: "net_client \<Rightarrow> bytes \<Rightarrow> bytes \<Rightarrow> bytes" where
  "refererForURL nc lastURL newURL =
     (if hasPrefix lastURL ''https:'' \<and> hasPrefix newURL ''http:'' then [] else ncPlain nc lastURL)"

definition nextRequest :: "net_client \<Rightarrow> pia_request list \<Rightarrow> int \<Rightarrow> bytes \<Rightarrow> pia_request" where
  \<comment> \<open>the request for a URL after the requests \<open>via\<close>, the last of which was answered with a redirect; a
    body that a redirect has dropped is not sent again\<close>
  "nextRequest nc via status url =
     (let ireq = hd via in
      \<lparr>prqMethod = redirectMethod (prqMethod (last via)) status, prqURL = url,
       prqContentType = (if ncCopies nc ''Content-Type'' via status url then prqContentType ireq else []),
       prqBody = (if includeBody status then prqBody (last via) else []),
       prqBasicAuth = (if ncCopies nc ''Authorization'' via status url then prqBasicAuth ireq else None),
       prqReferer = refererForURL nc (prqURL (last via)) url\<rparr>)"

definition redirectError :: go_error where
  \<comment> \<open>a \<open>Location\<close> that does not parse, or too many redirects\<close>
  "redirectError = \<lparr>geNetError = True, geTimeout = False, geOsTimeout = False, geOpError = False\<rparr>"

function do_loop ::
  "net_client \<Rightarrow> pia_request list \<Rightarrow> pia_request \<Rightarrow> http_result \<times> (int \<times> pia_request) list" where
  \<comment> \<open>the requests \<open>via\<close> have been sent and \<open>req\<close> is the next; the redirects followed from it on, each
    with the status that caused it\<close>
  "do_loop nc via req =
     (case ncSend nc req of
        ReplyFails e \<Rightarrow> (DoFails (ncShown nc (prqURL req)) e, [])
      | Reply status location body readErr \<Rightarrow>
          if \<not> shouldRedirect status \<or> location = [] then (DoAnswers status body readErr, [])
          else
            (case ncParse nc (prqURL req) location of
               None \<Rightarrow> (DoFails (ncShown nc (prqURL req)) redirectError, [])
             | Some url \<Rightarrow>
                 if 10 \<le> length (via @ [req]) then (DoFails location redirectError, [])
                 else
                   (let q = nextRequest nc (via @ [req]) status url;
                        (r, hops) = do_loop nc (via @ [req]) q
                    in (r, (status, q) # hops))))"
  by pat_completeness auto
termination
  by (relation "measure (\<lambda>(_, via, _). 10 - length via)") auto

declare do_loop.simps [simp del]

definition httpDo :: "net_client \<Rightarrow> pia_request \<Rightarrow> http_result \<times> (int \<times> pia_request) list" where
  "httpDo nc req = do_loop nc [] req"

section \<open>What a redirect can carry\<close>

definition redirectStep :: "net_client \<Rightarrow> pia_request \<Rightarrow> pia_request \<Rightarrow> int \<Rightarrow> pia_request \<Rightarrow> bool" where
  \<comment> \<open>the answer to \<open>prev\<close> has this status and names the URL of \<open>q\<close>, which goes back to \<open>ireq\<close>\<close>
  "redirectStep nc ireq prev status q \<longleftrightarrow>
     (\<exists>location body readErr. ncSend nc prev = Reply status location body readErr
        \<and> ncParse nc (prqURL prev) location = Some (prqURL q))
     \<and> shouldRedirect status
     \<and> prqMethod q = redirectMethod (prqMethod prev) status
     \<and> prqBody q = (if includeBody status then prqBody prev else [])
     \<and> prqBasicAuth q \<in> {None, prqBasicAuth ireq}
     \<and> prqReferer q = refererForURL nc (prqURL prev) (prqURL q)"

inductive leadsTo :: "net_client \<Rightarrow> pia_request \<Rightarrow> pia_request \<Rightarrow> bool" for nc ireq where
  \<comment> \<open>the requests that the servers can lead the client to, from \<open>ireq\<close> on\<close>
  first: "leadsTo nc ireq ireq"
| redirect: "leadsTo nc ireq prev \<Longrightarrow> redirectStep nc ireq prev status q \<Longrightarrow> leadsTo nc ireq q"

lemma nextRequest_step:
  assumes "ncSend nc req = Reply status location body readErr" and "shouldRedirect status"
    and "ncParse nc (prqURL req) location = Some url"
  shows "redirectStep nc (hd (via @ [req])) req status (nextRequest nc (via @ [req]) status url)"
  using assms by (auto simp: redirectStep_def nextRequest_def Let_def)

lemma do_loop_hops:
  assumes "do_loop nc via req = (r, hops)" and "leadsTo nc (hd (via @ [req])) req" and "(status, q) \<in> set hops"
  shows "\<exists>prev. leadsTo nc (hd (via @ [req])) prev \<and> redirectStep nc (hd (via @ [req])) prev status q"
  using assms
proof (induction nc via req arbitrary: r hops rule: do_loop.induct)
  case (1 nc via req)
  obtain st location body readErr url where rep: "ncSend nc req = Reply st location body readErr"
    and go: "\<not> (\<not> shouldRedirect st \<or> location = [])" "ncParse nc (prqURL req) location = Some url"
      "\<not> 10 \<le> length (via @ [req])"
    using "1.prems"(1,3)
    by (auto simp: do_loop.simps [of nc via req] split: http_reply.splits if_splits option.splits)
  let ?q = "nextRequest nc (via @ [req]) st url"
  obtain r' hops' where rec: "do_loop nc (via @ [req]) ?q = (r', hops')" by fastforce
  then have hops: "hops = (st, ?q) # hops'"
    using "1.prems"(1) rep go by (simp add: do_loop.simps [of nc via req])
  have step: "redirectStep nc (hd (via @ [req])) req st ?q" using nextRequest_step rep go by blast
  have first: "hd ((via @ [req]) @ [?q]) = hd (via @ [req])"
    by (simp add: hd_append)
  show ?case
  proof (cases "(status, q) \<in> set hops'")
    case True
    have "leadsTo nc (hd (via @ [req])) ?q" using leadsTo.redirect "1.prems"(2) step by blast
    then show ?thesis
      using "1.IH" [OF rep go refl rec] True unfolding first by blast
  next
    case False
    then show ?thesis using hops "1.prems"(2,3) step by auto
  qed
qed

lemma httpDo_hops:
  assumes "httpDo nc req = (r, hops)" and "(status, q) \<in> set hops"
  shows "\<exists>prev. leadsTo nc req prev \<and> redirectStep nc req prev status q"
  using do_loop_hops [of nc "[]" req r hops] assms by (auto simp: httpDo_def intro: leadsTo.first)

lemma leadsTo_carries:
  "leadsTo nc ireq q \<Longrightarrow>
     prqBody q \<in> {[], prqBody ireq} \<and> prqBasicAuth q \<in> {None, prqBasicAuth ireq}"
  by (induction rule: leadsTo.induct) (auto simp: redirectStep_def)

lemma redirectStep_carries:
  assumes "leadsTo nc ireq prev" and "redirectStep nc ireq prev status q"
  shows "prqBasicAuth q \<in> {None, prqBasicAuth ireq}"
    and "prqBody q = [] \<or> status \<in> {307, 308} \<and> prqBody q = prqBody ireq"
  using assms leadsTo_carries [OF assms(1)] by (auto simp: redirectStep_def includeBody_def split: if_splits)

lemma do_loop_bound:
  "do_loop nc via req = (r, hops) \<Longrightarrow> length via \<le> 9 \<Longrightarrow> length via + length hops \<le> 9"
proof (induction nc via req arbitrary: r hops rule: do_loop.induct)
  case (1 nc via req)
  show ?case
  proof (cases hops)
    case (Cons h hops')
    then obtain st location body readErr url where rep: "ncSend nc req = Reply st location body readErr"
      and go: "\<not> (\<not> shouldRedirect st \<or> location = [])" "ncParse nc (prqURL req) location = Some url"
        "\<not> 10 \<le> length (via @ [req])"
      using "1.prems"(1)
      by (auto simp: do_loop.simps [of nc via req] split: http_reply.splits if_splits option.splits)
    obtain r2 hops2 where rec: "do_loop nc (via @ [req]) (nextRequest nc (via @ [req]) st url) = (r2, hops2)"
      by fastforce
    then have "length hops = Suc (length hops2)"
      using "1.prems"(1) rep go by (auto simp: do_loop.simps [of nc via req])
    then show ?thesis using "1.IH" [OF rep go refl rec] go(3) by simp
  qed (use "1.prems" in simp)
qed

text \<open>
  However the servers answer, at most ten requests are sent: the first and nine redirects.
\<close>

lemma httpDo_bound: "length (snd (httpDo nc req)) \<le> 9"
  using do_loop_bound [of nc "[]" req] by (cases "httpDo nc req") (simp add: httpDo_def)

text \<open>An answer that is no redirect is the result, and an exchange that fails names the URL.\<close>

lemma httpDo_direct:
  "ncSend nc req = Reply status location body readErr \<Longrightarrow> \<not> shouldRedirect status \<Longrightarrow>
     httpDo nc req = (DoAnswers status body readErr, [])"
  by (simp add: httpDo_def do_loop.simps [of nc "[]" req])

lemma httpDo_fails_first:
  assumes "httpDo nc req = (DoFails shown e, [])"
  shows "shown = ncShown nc (prqURL req)"
  using assms
  by (auto simp: httpDo_def do_loop.simps [of nc "[]" req] Let_def
      split: http_reply.splits if_splits option.splits prod.splits)

end
