(* ===== verification/Pia_Client.thy ===== *)
theory Pia_Client
  imports Server_Regions Constrained_Request Dns_Client Http_Redirect
begin

text \<open>
  \<open>PIAClient\<close> of \<open>pia/pia.go\<close>: its construction from the server list, the token request,
  the download of the certificate and the registration of a key. The token request and the
  registration go through \<open>httpDo\<close>, which follows redirects; the download, a public document, is
  one answer of \<open>http.Get\<close>; a run that indexes an empty slice, which panics in Go, is \<open>None\<close>. An
  operation returns its events in order: the requests it makes and the lines it logs.
\<close>

section \<open>The client\<close>

type_synonym serverList = "(bytes \<times> server list) list"

record piaClient =
  pcRegion :: bytes
  pcWireguardServers :: serverList
  pcMetadataServers :: serverList
  pcUsername :: bytes
  pcPassword :: bytes
  pcVerbose :: bool
  pcPortForwarding :: bool
  pcCaCert :: bytes
  pcServerListOpts :: serverListOptions

fun appendServer :: "bytes \<Rightarrow> server \<Rightarrow> serverList \<Rightarrow> serverList" where
  \<comment> \<open>\<open>servers[id] = append(servers[id], server)\<close>\<close>
  "appendServer i v [] = [(i, [v])]"
| "appendServer i v ((j, vs) # m) = (if i = j then (j, vs @ [v]) # m else (j, vs) # appendServer i v m)"

definition collectServers ::
  "(region_servers \<Rightarrow> server slice) \<Rightarrow> bool \<Rightarrow> region_entry list \<Rightarrow> serverList" where
  "collectServers sel portForwarding rs =
     foldl (\<lambda>m r. if portForwarding \<and> \<not> rePortForward r then m
                  else foldl (\<lambda>m v. appendServer (reID r) v m) m (elems (sel (reServers r)))) [] rs"

datatype client_error =
    ClientFetch policy_error | ClientParse parse_error
  | NoServersFound bytes bool          \<comment> \<open>no region has servers\<close>
  | NoServersForRegion bytes bool      \<comment> \<open>the requested region has none\<close>

definition generateWireguardServerList :: "piaClient \<Rightarrow> piaServerList \<Rightarrow> client_error + serverList" where
  "generateWireguardServerList p list =
     (let servers = collectServers rsWg (pcPortForwarding p) (elems (slRegions list)) in
      if servers = [] then Inl (NoServersFound (pcRegion p) (pcPortForwarding p)) else Inr servers)"

definition generateMetadataServerList :: "piaClient \<Rightarrow> piaServerList \<Rightarrow> client_error + serverList" where
  "generateMetadataServerList p list =
     (let servers = collectServers rsMeta (pcPortForwarding p) (elems (slRegions list)) in
      if servers = [] then Inl (NoServersFound (pcRegion p) (pcPortForwarding p)) else Inr servers)"

definition getServerList :: "policy_run \<Rightarrow> client_error + piaServerList" where
  "getServerList run =
     (case prResult run of
        Inl e \<Rightarrow> Inl (ClientFetch e)
      | Inr data \<Rightarrow> (case parseServerList data of Inl e \<Rightarrow> Inl (ClientParse e) | Inr sl \<Rightarrow> Inr sl))"

definition initialClient ::
  "bytes \<Rightarrow> bytes \<Rightarrow> bytes \<Rightarrow> bool \<Rightarrow> bool \<Rightarrow> serverListOptions \<Rightarrow> piaClient" where
  "initialClient user pass region verbose portForwarding opts =
     \<lparr>pcRegion = region, pcWireguardServers = [], pcMetadataServers = [], pcUsername = user,
      pcPassword = pass, pcVerbose = verbose, pcPortForwarding = portForwarding, pcCaCert = [], pcServerListOpts = opts\<rparr>"

definition withServers :: "piaClient \<Rightarrow> piaServerList \<Rightarrow> client_error + piaClient" where
  \<comment> \<open>\<open>NewPIAClient\<close> from the first generated list on\<close>
  "withServers p sl =
     (case generateMetadataServerList p sl of
        Inl e \<Rightarrow> Inl e
      | Inr meta \<Rightarrow>
          (case generateWireguardServerList p sl of
             Inl e \<Rightarrow> Inl e
           | Inr wg \<Rightarrow>
               if map_of wg (pcRegion p) = None
               then Inl (NoServersForRegion (pcRegion p) (pcPortForwarding p))
               else Inr (p\<lparr>pcMetadataServers := meta, pcWireguardServers := wg\<rparr>)))"

definition newPIAClient ::
  "policy_env \<Rightarrow> fs \<Rightarrow> bytes \<Rightarrow> bytes \<Rightarrow> bytes \<Rightarrow> bool \<Rightarrow> bool \<Rightarrow> serverListOptions
     \<Rightarrow> (client_error + piaClient) \<times> policy_run" where
  "newPIAClient env s user pass region verbose portForwarding opts =
     (let run = fetchServerListWithPolicy env opts verbose s in
      (case getServerList run of
         Inl e \<Rightarrow> Inl e
       | Inr sl \<Rightarrow> withServers (initialClient user pass region verbose portForwarding opts) sl,
       run))"

definition firstServer :: "serverList \<Rightarrow> bytes \<Rightarrow> server option" where
  \<comment> \<open>\<open>servers[region][0]\<close>; no element is a panic\<close>
  "firstServer m region = (case map_of m region of Some (v # _) \<Rightarrow> Some v | _ \<Rightarrow> None)"

definition getWireguardServerForRegion :: "piaClient \<Rightarrow> server option" where
  "getWireguardServerForRegion p = firstServer (pcWireguardServers p) (pcRegion p)"

definition getMetadataServerForRegion :: "piaClient \<Rightarrow> server option" where
  "getMetadataServerForRegion p = firstServer (pcMetadataServers p) (pcRegion p)"

section \<open>The server lists\<close>

definition regionServers ::
  "(region_servers \<Rightarrow> server slice) \<Rightarrow> bool \<Rightarrow> region_entry list \<Rightarrow> bytes \<Rightarrow> server list" where
  \<comment> \<open>the specification: the servers of the entries with the ID, in the order of the list\<close>
  "regionServers sel pf rs i =
     concat (map (\<lambda>r. elems (sel (reServers r)))
       (filter (\<lambda>r. reID r = i \<and> (pf \<longrightarrow> rePortForward r)) rs))"

lemma map_of_appendServer:
  "map_of (appendServer i v m) j =
     (if j = i then Some ((case map_of m i of None \<Rightarrow> [] | Some vs \<Rightarrow> vs) @ [v]) else map_of m j)"
  by (induction i v m rule: appendServer.induct) auto

definition listed :: "serverList \<Rightarrow> bytes \<Rightarrow> server list" where
  "listed m i = (case map_of m i of None \<Rightarrow> [] | Some vs \<Rightarrow> vs)"

definition no_empty :: "serverList \<Rightarrow> bool" where
  "no_empty m \<longleftrightarrow> (\<forall>i. map_of m i \<noteq> Some [])"

lemma foldl_appendServer:
  "listed (foldl (\<lambda>m v. appendServer i v m) m vs) j = listed m j @ (if j = i then vs else [])
   \<and> (no_empty m \<longrightarrow> no_empty (foldl (\<lambda>m v. appendServer i v m) m vs))"
  by (induction vs arbitrary: m)
    (auto simp: listed_def no_empty_def map_of_appendServer split: option.splits)

lemma collectServers_listed:
  "listed (collectServers sel pf rs) i = regionServers sel pf rs i \<and> no_empty (collectServers sel pf rs)"
proof -
  let ?f = "\<lambda>m r. if pf \<and> \<not> rePortForward r then m
                  else foldl (\<lambda>m v. appendServer (reID r) v m) m (elems (sel (reServers r)))"
  have "listed (foldl ?f m rs) i = listed m i @ regionServers sel pf rs i
      \<and> (no_empty m \<longrightarrow> no_empty (foldl ?f m rs))" for m
    by (induction rs arbitrary: m) (auto simp: regionServers_def foldl_appendServer)
  from this [of "[]"] show ?thesis by (simp add: collectServers_def listed_def no_empty_def)
qed

lemma firstServer_listed:
  "no_empty m \<Longrightarrow> firstServer m i = (case listed m i of [] \<Rightarrow> None | v # _ \<Rightarrow> Some v)"
  by (auto simp: firstServer_def listed_def no_empty_def split: option.splits list.splits)

lemma client_server:
  assumes "newPIAClient env s user pass region verbose pf opts = (Inr p, run)"
  obtains sl v vs where "getServerList run = Inr sl" "getWireguardServerForRegion p = Some v"
    "regionServers rsWg pf (elems (slRegions sl)) region = v # vs"
proof -
  obtain sl where sl: "getServerList run = Inr sl"
    and w: "withServers (initialClient user pass region verbose pf opts) sl = Inr p"
    using assms by (auto simp: newPIAClient_def Let_def split: sum.splits)
  let ?wg = "collectServers rsWg pf (elems (slRegions sl))"
  have p: "pcWireguardServers p = ?wg" "pcRegion p = region" "map_of ?wg region \<noteq> None"
    using w by (auto simp: withServers_def generateWireguardServerList_def Let_def initialClient_def
        split: sum.splits if_splits)
  note col = collectServers_listed [of rsWg pf "elems (slRegions sl)"]
  obtain ws where ws: "map_of ?wg region = Some ws" using p(3) by blast
  then have "ws \<noteq> []" using col by (auto simp: no_empty_def)
  then have "listed ?wg region \<noteq> []" using ws by (simp add: listed_def)
  then obtain v vs where v: "listed ?wg region = v # vs" by (cases "listed ?wg region") auto
  then have "getWireguardServerForRegion p = Some v"
    using firstServer_listed [of ?wg region] col p by (simp add: getWireguardServerForRegion_def)
  moreover have "regionServers rsWg pf (elems (slRegions sl)) region = v # vs" using col v by metis
  ultimately show thesis using that sl by blast
qed

text \<open>
  C36: a client exists only for a region that has a WireGuard server: for every client
  \<open>NewPIAClient\<close> returns, \<open>getWireguardServerForRegion\<close> does not panic and gives the first
  WireGuard server that the server list states for the region, and with port forwarding
  only an entry that supports it is used.
\<close>

theorem newPIAClient_has_server:
  assumes "newPIAClient env s user pass region verbose pf opts = (Inr p, run)"
  shows "\<exists>sl v. getServerList run = Inr sl \<and> getWireguardServerForRegion p = Some v
    \<and> (\<exists>vs. regionServers rsWg pf (elems (slRegions sl)) region = v # vs)
    \<and> (\<exists>r \<in> set (elems (slRegions sl)). reID r = region \<and> v \<in> set (elems (rsWg (reServers r)))
         \<and> (pf \<longrightarrow> rePortForward r))"
proof -
  obtain sl v vs where c: "getServerList run = Inr sl" "getWireguardServerForRegion p = Some v"
    "regionServers rsWg pf (elems (slRegions sl)) region = v # vs"
    using client_server [OF assms] .
  then have "v \<in> set (regionServers rsWg pf (elems (slRegions sl)) region)" by simp
  then have "\<exists>r \<in> set (elems (slRegions sl)). reID r = region \<and> v \<in> set (elems (rsWg (reServers r)))
      \<and> (pf \<longrightarrow> rePortForward r)"
    by (auto simp: regionServers_def)
  with c show ?thesis by blast
qed

section \<open>Events\<close>

datatype pia_event =
    PiaLog bytes                 \<comment> \<open>a line for the log\<close>
  | PostForm bytes bytes         \<comment> \<open>URL and encoded form\<close>
  | DownloadCertificate
  | SendToRegion "muxEntry list" pia_request
  | Redirected "muxEntry list option" int pia_request
      \<comment> \<open>a redirect with this status was followed: with the resolver of the registration, or by the
        default client\<close>

definition redirects :: "muxEntry list option \<Rightarrow> (int \<times> pia_request) list \<Rightarrow> pia_event list" where
  "redirects mux hops = map (\<lambda>(status, q). Redirected mux status q) hops"

definition logPrint :: "bool \<Rightarrow> bytes \<Rightarrow> pia_event list" where
  \<comment> \<open>\<open>log.Print\<close> in verbose mode: the line is ended unless the text ends one\<close>
  "logPrint verbose t =
     (if verbose then [PiaLog (if t \<noteq> [] \<and> last t = LF then t else t @ [LF])] else [])"

definition wireguardServerLog :: "piaClient \<Rightarrow> pia_event list" where
  "wireguardServerLog p = logPrint (pcVerbose p) (''Getting wireguard server for region: '' @ pcRegion p)"

definition metadataServerLog :: "piaClient \<Rightarrow> pia_event list" where
  "metadataServerLog p = logPrint (pcVerbose p) (''Getting metadata server for region: '' @ pcRegion p)"

section \<open>The token request\<close>

datatype token_error =
    TokenRequestError bytes go_error | TokenReadError go_error | TokenStatus int bytes
  | TokenDecodeError | TokenEmpty

record tokenResp =
  trToken :: bytes

definition tokenRespFields :: "(bytes \<times> tokenResp field_decoder) list" where
  "tokenRespFields = [(''token'', stringField trToken trToken_update)]"

definition formRequest :: "bytes \<Rightarrow> bytes \<Rightarrow> pia_request" where
  \<comment> \<open>the request of \<open>http.PostForm\<close>\<close>
  "formRequest url formData =
     \<lparr>prqMethod = ''POST'', prqURL = url, prqContentType = ''application/x-www-form-urlencoded'',
      prqBody = formData, prqBasicAuth = None, prqReferer = []\<rparr>"

definition clientForm :: "piaClient \<Rightarrow> bytes" where
  "clientForm p = tokenForm \<lparr>username = pcUsername p, password = pcPassword p\<rparr>"

definition getToken :: "net_client \<Rightarrow> piaClient \<Rightarrow> bytes \<Rightarrow> (token_error + bytes) \<times> pia_event list" where
  \<comment> \<open>the first argument is the default client\<close>
  "getToken web p url =
     (let formData = clientForm p;
          (res, hops) = httpDo web (formRequest url formData)
      in
      (case res of
         DoFails shown e \<Rightarrow> Inl (TokenRequestError shown e)
       | DoAnswers status body readErr \<Rightarrow>
           (case readErr of
              Some e \<Rightarrow> Inl (TokenReadError e)
            | None \<Rightarrow>
                if status \<noteq> 200 then Inl (TokenStatus status body)
                else
                  (case decodeStruct tokenRespFields body \<lparr>trToken = []\<rparr> of
                     None \<Rightarrow> Inl TokenDecodeError
                   | Some r \<Rightarrow> if trToken r = [] then Inl TokenEmpty else Inr (trToken r))),
       logPrint (pcVerbose p) ''Requesting token from central PIA API''
         @ PostForm url formData # redirects None hops))"

definition clientGetToken :: "net_client \<Rightarrow> piaClient \<Rightarrow> (token_error + bytes) \<times> pia_event list" where
  "clientGetToken web p = getToken web p tokenURL"

lemma getToken_nonempty: "fst (getToken web p url) = Inr t \<Longrightarrow> t \<noteq> []"
  by (auto simp: getToken_def Let_def split: prod.splits http_result.splits option.splits if_splits)

lemma clientGetToken_events:
  assumes "e \<in> set (snd (clientGetToken web p))"
  shows "e \<in> set (logPrint (pcVerbose p) ''Requesting token from central PIA API'')
    \<or> e = PostForm tokenURL (clientForm p)
    \<or> (\<exists>status q prev. e = Redirected None status q \<and> leadsTo web (formRequest tokenURL (clientForm p)) prev
         \<and> redirectStep web (formRequest tokenURL (clientForm p)) prev status q)"
proof -
  obtain res hops where d: "httpDo web (formRequest tokenURL (clientForm p)) = (res, hops)" by fastforce
  then have "e \<in> set (logPrint (pcVerbose p) ''Requesting token from central PIA API'')
      \<or> e = PostForm tokenURL (clientForm p) \<or> (\<exists>status q. e = Redirected None status q \<and> (status, q) \<in> set hops)"
    using assms by (auto simp: clientGetToken_def getToken_def Let_def redirects_def)
  then show ?thesis using httpDo_hops [OF d] by blast
qed

section \<open>Registration\<close>

record piaAddKeyResult =
  pkStatus :: bytes
  pkServerKey :: bytes
  pkServerPort :: int
  pkServerIP :: bytes
  pkServerVip :: bytes
  pkPeerIP :: bytes
  pkPeerPubkey :: bytes
  pkDNSServers :: "bytes slice"

definition zeroAddKey :: piaAddKeyResult where
  "zeroAddKey = \<lparr>pkStatus = [], pkServerKey = [], pkServerPort = 0, pkServerIP = [], pkServerVip = [],
     pkPeerIP = [], pkPeerPubkey = [], pkDNSServers = nilSlice\<rparr>"

definition addKeyFields :: "(bytes \<times> piaAddKeyResult field_decoder) list" where
  "addKeyFields =
     [(''status'', stringField pkStatus pkStatus_update),
      (''server_key'', stringField pkServerKey pkServerKey_update),
      (''server_port'', subField unmarshalInt pkServerPort pkServerPort_update),
      (''server_ip'', stringField pkServerIP pkServerIP_update),
      (''server_vip'', stringField pkServerVip pkServerVip_update),
      (''peer_ip'', stringField pkPeerIP pkPeerIP_update),
      (''peer_pubkey'', stringField pkPeerPubkey pkPeerPubkey_update),
      (''dns_servers'', subField (decodeSlice unmarshalString []) pkDNSServers pkDNSServers_update)]"

definition decodeAddKey :: "bytes \<Rightarrow> piaAddKeyResult option" where
  \<comment> \<open>\<open>json.NewDecoder(body).Decode\<close>: the first value of the body; what follows it is not read\<close>
  "decodeAddKey body =
     (case readValue body of
        None \<Rightarrow> None
      | Some (v, _) \<Rightarrow> decodeStruct addKeyFields v zeroAddKey)"

record pia_env =
  peUrlOk :: "bytes \<Rightarrow> bool"
  peCertificate :: http_get
  peAppendCerts :: "bytes \<Rightarrow> certPool"
  peDo :: "certPool \<Rightarrow> muxEntry list \<Rightarrow> net_client"

text \<open>
  \<open>peDo\<close> is the HTTP client of one registration, given its root certificates and the table of its
  resolver (whose one zone is the server, \<open>Dns_Client\<close>). \<open>peCertificate\<close> is what the download of
  the certificate returns, \<open>peAppendCerts\<close> the pool \<open>AppendCertsFromPEM\<close> makes of it.
\<close>

datatype request_error =
    BadURL | CertificateDownload go_error | RegionRequest bytes go_error | RegionBody go_error
  | RegionStatus int bytes

definition downloadPIACertificate ::
  "pia_env \<Rightarrow> piaClient \<Rightarrow> go_error option \<times> piaClient \<times> pia_event list" where
  \<comment> \<open>the status of the response is not looked at, and the bytes before a read error are kept\<close>
  "downloadPIACertificate env p =
     (if pcCaCert p \<noteq> [] then (None, p, [])
      else
        (case peCertificate env of
           GetFails e \<Rightarrow> (Some e, p, [DownloadCertificate])
         | GetResponse _ body readErr \<Rightarrow> (readErr, p\<lparr>pcCaCert := body\<rparr>, [DownloadCertificate])))"

definition regionRequest :: "piaClient \<Rightarrow> bytes \<Rightarrow> bytes \<Rightarrow> pia_request" where
  "regionRequest p url token =
     \<lparr>prqMethod = ''GET'', prqURL = url, prqContentType = ''application/json'', prqBody = [],
      prqBasicAuth = (if token = [] then Some (pcUsername p, pcPassword p) else None),
      prqReferer = []\<rparr>"

definition executePIARequest ::
  "pia_env \<Rightarrow> piaClient \<Rightarrow> server \<Rightarrow> bytes \<Rightarrow> bytes
     \<Rightarrow> (request_error + bytes) \<times> piaClient \<times> pia_event list" where
  "executePIARequest env p sv url token =
     (if \<not> peUrlOk env url then (Inl BadURL, p, [])
      else
        (let req = regionRequest p url token;
             (certErr, p1, evs) = downloadPIACertificate env p
         in
         case certErr of
           Some e \<Rightarrow> (Inl (CertificateDownload e), p1, evs)
         | None \<Rightarrow>
             (let mux = regionMux (svCn sv) (svIP sv);
                  (res, hops) = httpDo (peDo env (peAppendCerts env (pcCaCert p1)) mux) req;
                  evs1 = evs @ SendToRegion mux req # redirects (Some mux) hops
              in
              case res of
                DoFails shown e \<Rightarrow> (Inl (RegionRequest shown e), p1, evs1)
              | DoAnswers status body readErr \<Rightarrow>
                  (case readErr of
                     Some e \<Rightarrow> (Inl (RegionBody e), p1, evs1)
                   | None \<Rightarrow>
                       if status \<noteq> 200 then (Inl (RegionStatus status body), p1, evs1)
                       else (Inr body, p1, evs1)))))"

datatype add_key_error = AddKeyRequest request_error | AddKeyDecode

definition addKeyURL :: "server \<Rightarrow> bytes \<Rightarrow> bytes \<Rightarrow> bytes" where
  "addKeyURL sv token publickey =
     ''https://'' @ svCn sv @ '':1337/addKey?pt='' @ queryEscape token @ ''&pubkey='' @ queryEscape publickey"

definition clientAddKey ::
  "pia_env \<Rightarrow> piaClient \<Rightarrow> bytes \<Rightarrow> bytes
     \<Rightarrow> (add_key_error + piaAddKeyResult) option \<times> piaClient \<times> pia_event list" where
  "clientAddKey env p token publickey =
     (case getWireguardServerForRegion p of
        None \<Rightarrow> (None, p, wireguardServerLog p)
      | Some sv \<Rightarrow>
          (let (r, p1, evs) = executePIARequest env p sv (addKeyURL sv token publickey) token in
           (Some (case r of
                    Inl e \<Rightarrow> Inl (AddKeyRequest e)
                  | Inr body \<Rightarrow>
                      (case decodeAddKey body of None \<Rightarrow> Inl AddKeyDecode | Some k \<Rightarrow> Inr k)),
            p1, wireguardServerLog p @ evs)))"

section \<open>What the registration sends\<close>

lemma downloadPIACertificate_events:
  "downloadPIACertificate env p = (e, p1, evs) \<Longrightarrow> evs = [] \<or> evs = [DownloadCertificate]"
  by (auto simp: downloadPIACertificate_def split: if_splits http_get.splits)

definition sent_request :: "server \<Rightarrow> pia_request \<Rightarrow> pia_event" where
  "sent_request sv req = SendToRegion (regionMux (svCn sv) (svIP sv)) req"

definition regionRedirect :: "pia_env \<Rightarrow> server \<Rightarrow> pia_request \<Rightarrow> pia_event \<Rightarrow> bool" where
  \<comment> \<open>a redirect that the servers led the registration to\<close>
  "regionRedirect env sv req e \<longleftrightarrow>
     (\<exists>pool status q prev. e = Redirected (Some (regionMux (svCn sv) (svIP sv))) status q
        \<and> leadsTo (peDo env pool (regionMux (svCn sv) (svIP sv))) req prev
        \<and> redirectStep (peDo env pool (regionMux (svCn sv) (svIP sv))) req prev status q)"

lemma executePIARequest_events:
  assumes "executePIARequest env p sv url token = (r, p1, evs)"
  shows "\<exists>d hops. (d = [] \<or> d = [DownloadCertificate])
    \<and> (evs = d \<or> evs = d @ sent_request sv (regionRequest p url token) # hops)
    \<and> (\<forall>e \<in> set hops. regionRedirect env sv (regionRequest p url token) e)"
proof -
  let ?mux = "regionMux (svCn sv) (svIP sv)" and ?req = "regionRequest p url token"
  obtain e p2 d where d: "downloadPIACertificate env p = (e, p2, d)" by (metis prod.collapse)
  obtain res hops where h: "httpDo (peDo env (peAppendCerts env (pcCaCert p2)) ?mux) ?req = (res, hops)"
    by fastforce
  have "evs = [] \<or> evs = d \<or> evs = d @ sent_request sv ?req # redirects (Some ?mux) hops"
    using assms d h
    by (auto simp: executePIARequest_def sent_request_def Let_def
        split: if_splits option.splits http_result.splits)
  moreover have "\<forall>x \<in> set (redirects (Some ?mux) hops). regionRedirect env sv ?req x"
    using httpDo_hops [OF h] unfolding redirects_def regionRedirect_def by fastforce
  moreover note downloadPIACertificate_events [OF d]
  ultimately show ?thesis by (metis empty_iff list.set(1))
qed

lemma clientAddKey_events:
  assumes "clientAddKey env p token publickey = (r, p1, evs)" and "e \<in> set evs"
  shows "e \<in> set (wireguardServerLog p) \<or> e = DownloadCertificate
    \<or> (\<exists>sv. getWireguardServerForRegion p = Some sv
         \<and> (e = sent_request sv (regionRequest p (addKeyURL sv token publickey) token)
            \<or> regionRedirect env sv (regionRequest p (addKeyURL sv token publickey) token) e))"
proof (cases "getWireguardServerForRegion p")
  case (Some sv)
  then obtain x evs1 where x: "executePIARequest env p sv (addKeyURL sv token publickey) token = (x, p1, evs1)"
    and "evs = wireguardServerLog p @ evs1"
    using assms(1) by (auto simp: clientAddKey_def split: prod.splits)
  then show ?thesis using executePIARequest_events [OF x] assms(2) Some by auto
qed (use assms in \<open>auto simp: clientAddKey_def\<close>)

lemma clientAddKey_client:
  "clientAddKey env p token publickey = (r, p1, evs) \<Longrightarrow> pcRegion p1 = pcRegion p \<and> pcVerbose p1 = pcVerbose p"
  by (auto simp: clientAddKey_def executePIARequest_def downloadPIACertificate_def Let_def
      split: option.splits prod.splits if_splits http_get.splits http_result.splits)

text \<open>
  With a token that \<open>GetToken\<close> returned, the registration sends at most one request of its own, and
  it goes to the WireGuard server of the region under the name and address of the server
  list, on port 1337, with token and key in the query and without the user name and
  password; what follows it are the redirects that the servers ask for.
\<close>

theorem addKey_no_credentials:
  assumes "fst (clientGetToken web p) = Inr token"
    and "clientAddKey env p token publickey = (Some r, p1, evs)"
  shows "\<exists>sv d req hops. getWireguardServerForRegion p = Some sv \<and> (d = [] \<or> d = [DownloadCertificate])
    \<and> req = \<lparr>prqMethod = ''GET'', prqURL = ''https://'' @ svCn sv @ '':1337/addKey?pt='' @ queryEscape token
              @ ''&pubkey='' @ queryEscape publickey,
            prqContentType = ''application/json'', prqBody = [], prqBasicAuth = None, prqReferer = []\<rparr>
    \<and> (evs = wireguardServerLog p @ d
       \<or> evs = wireguardServerLog p @ d @ SendToRegion (regionMux (svCn sv) (svIP sv)) req # hops)
    \<and> (\<forall>e \<in> set hops. regionRedirect env sv req e)"
proof -
  have t: "token \<noteq> []" using assms(1) getToken_nonempty by (simp add: clientGetToken_def)
  obtain sv x es where sv: "getWireguardServerForRegion p = Some sv"
    and x: "executePIARequest env p sv (addKeyURL sv token publickey) token = (x, p1, es)"
    and evs: "evs = wireguardServerLog p @ es"
    using assms(2) by (auto simp: clientAddKey_def split: option.splits prod.splits)
  obtain d hops where e: "d = [] \<or> d = [DownloadCertificate]"
    "es = d \<or> es = d @ sent_request sv (regionRequest p (addKeyURL sv token publickey) token) # hops"
    "\<forall>e \<in> set hops. regionRedirect env sv (regionRequest p (addKeyURL sv token publickey) token) e"
    using executePIARequest_events [OF x] by blast
  show ?thesis
    using e sv t unfolding evs
    by (intro exI [of _ sv] exI [of _ d] exI [of _ "regionRequest p (addKeyURL sv token publickey) token"]
        exI [of _ hops]) (auto simp: sent_request_def regionRequest_def addKeyURL_def)
qed

definition exampleClientPia :: piaClient where
  "exampleClientPia =
     (initialClient ''u'' ''p'' ''ca'' True False exampleOptions)
       \<lparr>pcWireguardServers := [(''ca'', [exampleServer])]\<rparr>"

definition answering :: "(bytes \<Rightarrow> http_reply) \<Rightarrow> net_client" where
  \<comment> \<open>a client whose servers answer by URL, for absolute locations\<close>
  "answering f = \<lparr>ncSend = (\<lambda>req. f (prqURL req)), ncParse = (\<lambda>_ location. Some location),
     ncPlain = (\<lambda>u. u), ncShown = (\<lambda>u. u), ncCopies = (\<lambda>_ _ _ _. False)\<rparr>"

lemma answering_direct:
  "f (prqURL req) = Reply status location body readErr \<Longrightarrow> \<not> shouldRedirect status \<Longrightarrow>
     httpDo (answering f) req = (DoAnswers status body readErr, [])"
  by (rule httpDo_direct) (simp_all add: answering_def)

lemma answering_ok:
  "httpDo (answering (\<lambda>_. Reply 200 [] body None)) req = (DoAnswers 200 body None, [])"
  by (simp add: answering_direct shouldRedirect_def)

definition examplePiaEnv :: pia_env where
  "examplePiaEnv = \<lparr>peUrlOk = (\<lambda>_. True), peCertificate = GetResponse 200 ''pem'' None,
     peAppendCerts = (\<lambda>_. []), peDo = (\<lambda>_ _. answering (\<lambda>_. Reply 500 [] [] None))\<rparr>"

definition tokenBody :: bytes where
  "tokenBody = objectText [(''token'', marshalString ''t'')]"

definition examplePost :: net_client where
  "examplePost = answering (\<lambda>_. Reply 200 [] tokenBody None)"

lemma tokenBody_decode:
  "decodeStruct tokenRespFields tokenBody \<lparr>trToken = []\<rparr> = Some \<lparr>trToken = ''t''\<rparr>"
proof -
  have "members_ok 0 [(''token'', marshalString ''t'')]"
    by (simp add: members_ok_def json_text_marshalString)
  then show ?thesis
    by (simp add: tokenBody_def decodeStruct_objectText structField_def tokenRespFields_def stringField_def
        str.dec_enc)
qed

lemma examplePost_token: "fst (clientGetToken examplePost p) = Inr ''t''"
  using tokenBody_decode
  by (simp add: clientGetToken_def getToken_def examplePost_def answering_ok Let_def)

lemma example_region_answer:
  "httpDo (peDo examplePiaEnv pool mux) req = (DoAnswers 500 [] None, [])"
  by (simp add: examplePiaEnv_def answering_direct shouldRedirect_def)

lemma example_download:
  "peUrlOk examplePiaEnv url"
  "downloadPIACertificate examplePiaEnv exampleClientPia
     = (None, exampleClientPia\<lparr>pcCaCert := ''pem''\<rparr>, [DownloadCertificate])"
  by (simp_all add: downloadPIACertificate_def examplePiaEnv_def exampleClientPia_def initialClient_def)

theorem addKey_no_credentials_witness:
  "\<exists>r p1 req. clientAddKey examplePiaEnv exampleClientPia ''t'' ''k'' = (Some r, p1,
     wireguardServerLog exampleClientPia @
     [DownloadCertificate, SendToRegion (regionMux ''srv1'' ''10.0.0.1'') req])
   \<and> prqURL req = ''https://srv1:1337/addKey?pt='' @ queryEscape ''t'' @ ''&pubkey='' @ queryEscape ''k''
   \<and> prqBasicAuth req = None"
proof -
  have sv: "getWireguardServerForRegion exampleClientPia = Some exampleServer"
    by (simp add: getWireguardServerForRegion_def firstServer_def exampleClientPia_def initialClient_def)
  obtain x p1 es where "executePIARequest examplePiaEnv exampleClientPia exampleServer
      (addKeyURL exampleServer ''t'' ''k'') ''t'' = (x, p1, es)"
    by (metis surj_pair)
  then obtain r evs where run: "clientAddKey examplePiaEnv exampleClientPia ''t'' ''k'' = (Some r, p1, evs)"
    using sv by (simp add: clientAddKey_def)
  have "\<exists>req. evs = wireguardServerLog exampleClientPia
      @ [DownloadCertificate, SendToRegion (regionMux ''srv1'' ''10.0.0.1'') req]"
    using run sv by (auto simp: clientAddKey_def executePIARequest_def example_download
        example_region_answer redirects_def exampleServer_def Let_def)
  with addKey_no_credentials [OF examplePost_token run] run sv show ?thesis
    by (auto simp: exampleServer_def)
qed

lemma addKey_sends:
  assumes "clientAddKey env p token publickey = (r, p1, evs)" and "SendToRegion mux req \<in> set evs"
  shows "\<exists>sv. getWireguardServerForRegion p = Some sv \<and> mux = regionMux (svCn sv) (svIP sv)
    \<and> prqURL req = addKeyURL sv token publickey"
  using clientAddKey_events [OF assms]
  by (auto simp: sent_request_def regionRequest_def regionRedirect_def wireguardServerLog_def logPrint_def
      split: if_splits)

lemma addKey_error_named:
  assumes "clientAddKey env p token publickey = (Some (Inl (AddKeyRequest (RegionRequest shown x))), p1, evs)"
    and "\<forall>mux status q. Redirected (Some mux) status q \<notin> set evs"
  shows "\<exists>sv pool. getWireguardServerForRegion p = Some sv
    \<and> shown = ncShown (peDo env pool (regionMux (svCn sv) (svIP sv))) (addKeyURL sv token publickey)"
proof -
  obtain sv es where sv: "getWireguardServerForRegion p = Some sv"
    and x: "executePIARequest env p sv (addKeyURL sv token publickey) token = (Inl (RegionRequest shown x), p1, es)"
    and evs: "evs = wireguardServerLog p @ es"
    using assms(1) by (auto simp: clientAddKey_def split: option.splits prod.splits sum.splits)
  obtain hops where "httpDo (peDo env (peAppendCerts env (pcCaCert p1)) (regionMux (svCn sv) (svIP sv)))
      (regionRequest p (addKeyURL sv token publickey) token) = (DoFails shown x, hops)"
    and es: "\<exists>d. es = d @ redirects (Some (regionMux (svCn sv) (svIP sv))) hops"
    using x by (fastforce simp: executePIARequest_def Let_def
        split: if_splits prod.splits option.splits http_result.splits)
  moreover from es have h: "set (redirects (Some (regionMux (svCn sv) (svIP sv))) hops) \<subseteq> set evs"
    unfolding evs by auto
  moreover have "hops = []" using h assms(2) by (cases hops) (auto simp: redirects_def)
  ultimately show ?thesis using sv httpDo_fails_first by (fastforce simp: regionRequest_def)
qed

lemma addKey_redirects:
  assumes "clientAddKey env p token publickey = (r, p1, evs)" and "Redirected (Some mux) status q \<in> set evs"
  shows "\<exists>sv. getWireguardServerForRegion p = Some sv \<and> mux = regionMux (svCn sv) (svIP sv)"
  using clientAddKey_events [OF assms]
  by (auto simp: sent_request_def regionRedirect_def wireguardServerLog_def logPrint_def split: if_splits)

lemma certificate_downloaded_once:
  assumes "downloadPIACertificate env p = (None, p1, evs)" and "pcCaCert p1 \<noteq> []"
  shows "downloadPIACertificate env' p1 = (None, p1, [])"
  using assms by (simp add: downloadPIACertificate_def)

section \<open>The metadata server\<close>

text \<open>
  C37: a client \<open>NewPIAClient\<close> accepted gives the first metadata server of its region, and
  \<open>getMetadataServerForRegion\<close> panics exactly when the server list states no metadata server
  for the region (with port forwarding, in an entry that supports it): the check of the
  constructor covers the WireGuard servers only.
\<close>

theorem metadata_server_exact:
  assumes "newPIAClient env s user pass region verbose pf opts = (Inr p, run)" and "getServerList run = Inr sl"
  shows "getMetadataServerForRegion p =
    (case regionServers rsMeta pf (elems (slRegions sl)) region of [] \<Rightarrow> None | v # _ \<Rightarrow> Some v)"
proof -
  let ?m = "collectServers rsMeta pf (elems (slRegions sl))"
  have w: "withServers (initialClient user pass region verbose pf opts) sl = Inr p"
    using assms by (auto simp: newPIAClient_def Let_def split: sum.splits)
  have "pcMetadataServers p = ?m" "pcRegion p = region"
    using w by (auto simp: withServers_def generateMetadataServerList_def Let_def initialClient_def
        split: sum.splits if_splits)
  then show ?thesis
    using firstServer_listed [of ?m region] collectServers_listed [of rsMeta pf "elems (slRegions sl)"]
    by (simp add: getMetadataServerForRegion_def)
qed

definition metaEntry :: "bytes \<Rightarrow> region_entry" where
  "metaEntry i = (exampleEntry i ''CA'')
     \<lparr>reServers := \<lparr>rsMeta = (1, [exampleServer]), rsWg = nilSlice\<rparr>\<rparr>"

definition splitList :: "region_entry list" where
  \<comment> \<open>one region with a WireGuard server only, another with a metadata server only\<close>
  "splitList = [exampleEntry ''ca'' ''CA'', metaEntry ''us'']"

definition splitEnv :: policy_env where
  "splitEnv = (examplePolicyEnv 0)\<lparr>peGet := \<lambda>_ _. GetResponse 200 (listText splitList) None\<rparr>"

lemma splitList_fetched:
  "getServerList (fetchServerListWithPolicy splitEnv (exampleOptions\<lparr>soCachePath := []\<rparr>) verbose emptyFs)
     = Inr \<lparr>slRegions = (2, splitList)\<rparr>"
proof -
  have wf: "list_all wf_entry splitList" "splitList \<noteq> []"
    by (simp_all add: splitList_def metaEntry_def exampleEntry_def wf_entry_def wf_servers_def full_def
        nilSlice_def elems_def wf_server_def exampleServer_def)
  have "listText splitList \<noteq> [] \<and> last (listText splitList) = CHR ''}''"
    by (simp add: listText_def objectText_def)
  then have "fetchServerListRaw (GetResponse 200 (listText splitList) None) = Inr (listText splitList)"
    using take_strip_tail [of _ "[]" "listText splitList"] by (simp add: fetchServerListRaw_def)
  then have "fst (fetchServerListWithRetry verbose (peNet splitEnv) 5) = Inr (listText splitList)"
    by (simp add: fetchServerListWithRetry_def retry_loop.simps [of _ _ _ "Suc 0"] splitEnv_def peNet_def)
  moreover have "length splitList = 2" by (simp add: splitList_def)
  ultimately show ?thesis
    using parseServerList_listText [OF wf]
    by (auto simp: getServerList_def fetchServerListWithPolicy_def exampleOptions_def split: prod.splits)
qed

lemma elems_splitList: "elems (2, splitList) = splitList"
  by (simp add: elems_def splitList_def)

lemma splitList_client:
  "\<exists>p run. newPIAClient splitEnv emptyFs ''u'' ''p'' ''ca'' True False (exampleOptions\<lparr>soCachePath := []\<rparr>)
       = (Inr p, run) \<and> getServerList run = Inr \<lparr>slRegions = (2, splitList)\<rparr>"
proof -
  have "\<exists>p. withServers (initialClient ''u'' ''p'' ''ca'' True False (exampleOptions\<lparr>soCachePath := []\<rparr>))
      \<lparr>slRegions = (2, splitList)\<rparr> = Inr p"
    by (simp add: withServers_def generateMetadataServerList_def generateWireguardServerList_def Let_def
        elems_splitList collectServers_def splitList_def metaEntry_def exampleEntry_def elems_def
        nilSlice_def initialClient_def)
  then show ?thesis using splitList_fetched by (auto simp: newPIAClient_def Let_def)
qed

theorem metadata_server_exact_witness:
  "\<exists>p run. newPIAClient splitEnv emptyFs ''u'' ''p'' ''ca'' True False (exampleOptions\<lparr>soCachePath := []\<rparr>)
       = (Inr p, run) \<and> getMetadataServerForRegion p = None"
proof -
  obtain p run where run: "newPIAClient splitEnv emptyFs ''u'' ''p'' ''ca'' True False
      (exampleOptions\<lparr>soCachePath := []\<rparr>) = (Inr p, run)"
    and sl: "getServerList run = Inr \<lparr>slRegions = (2, splitList)\<rparr>"
    using splitList_client by blast
  have "regionServers rsMeta False (elems (2, splitList)) ''ca'' = []"
    by (simp add: elems_splitList regionServers_def splitList_def metaEntry_def exampleEntry_def
        elems_def nilSlice_def)
  with metadata_server_exact [OF run sl] run show ?thesis by auto
qed

theorem newPIAClient_has_server_witness:
  "\<exists>p run. newPIAClient splitEnv emptyFs ''u'' ''p'' ''ca'' True False (exampleOptions\<lparr>soCachePath := []\<rparr>)
       = (Inr p, run) \<and> (\<exists>v. getWireguardServerForRegion p = Some v)"
  using splitList_client newPIAClient_has_server by blast

section \<open>Where a registration goes\<close>

text \<open>
  C21: the registration request is for the server that the server list names. For a client
  that was built from a server list, every request to the region carries a resolver
  which, asked any queries in one message, answers with the address the list states for the
  first WireGuard server of the region, once for every question that asks for the name in the
  URL, says of all other names that they do not exist, and sends nothing to a name server.
  The redirects that are followed from this request go through the same resolver.
\<close>

theorem registration_resolved_from_list:
  assumes "newPIAClient penv s user pass region verbose pf opts = (Inr p, run)" and "getServerList run = Inr sl"
    and "clientAddKey env p token publickey = (r, p1, evs)" and "SendToRegion mux req \<in> set evs"
    and "plainQuery q"
  shows "\<exists>v vs m. regionServers rsWg pf (elems (slRegions sl)) region = v # vs
    \<and> prqURL req = addKeyURL v token publickey
    \<and> dnsDo rt mux q = Some (Inr m, [])
    \<and> mAnswers m = map (serverRR (svIP v)) (filter (asksServer (svCn v)) (mQuestions q))
    \<and> mRCode m = (if list_all (asksServer (svCn v)) (mQuestions q) then NoError else NXDomain)
    \<and> (\<forall>mux' status q'. Redirected (Some mux') status q' \<in> set evs \<longrightarrow> mux' = mux)"
proof -
  obtain v vs where v: "getWireguardServerForRegion p = Some v"
    "regionServers rsWg pf (elems (slRegions sl)) region = v # vs"
    using client_server [OF assms(1)] assms(2) by (metis Inr_inject)
  have "mux = regionMux (svCn v) (svIP v)" "prqURL req = addKeyURL v token publickey"
    using addKey_sends [OF assms(3,4)] v(1) by auto
  moreover have "mux' = regionMux (svCn v) (svIP v)" if "Redirected (Some mux') status q' \<in> set evs" for mux' status q'
    using addKey_redirects [OF assms(3) that] v(1) by simp
  ultimately show ?thesis
    using region_never_upstream [OF assms(5), of rt "svCn v" "svIP v"] v(2) by auto
qed

theorem registration_resolved_from_list_witness:
  "\<exists>p run r p1 evs mux req m. newPIAClient splitEnv emptyFs ''u'' ''p'' ''ca'' True False (exampleOptions\<lparr>soCachePath := []\<rparr>)
       = (Inr p, run)
    \<and> clientAddKey examplePiaEnv p ''t'' ''k'' = (r, p1, evs) \<and> SendToRegion mux req \<in> set evs
    \<and> dnsDo (\<lambda>_. Inl UpstreamError) mux exampleDnsQuery = Some (Inr m, [])
    \<and> mAnswers m = [serverRR ''10.0.0.1'' exampleQuestion]"
proof -
  obtain p run where run: "newPIAClient splitEnv emptyFs ''u'' ''p'' ''ca'' True False
      (exampleOptions\<lparr>soCachePath := []\<rparr>) = (Inr p, run)"
    and sl: "getServerList run = Inr \<lparr>slRegions = (2, splitList)\<rparr>"
    using splitList_client by blast
  obtain v where v: "getWireguardServerForRegion p = Some v" using client_server [OF run] .
  have "httpDo (answering (\<lambda>_. Reply 500 [] [] None)) req = (DoAnswers 500 [] None, [])" for req
    by (simp add: answering_direct shouldRedirect_def)
  then obtain r p1 evs mux req where key: "clientAddKey examplePiaEnv p ''t'' ''k'' = (r, p1, evs)"
    and sent: "SendToRegion mux req \<in> set evs"
    using v by (cases "clientAddKey examplePiaEnv p ''t'' ''k''")
      (auto simp: clientAddKey_def executePIARequest_def downloadPIACertificate_def examplePiaEnv_def Let_def
        split: prod.splits if_splits)
  have list: "regionServers rsWg False (elems (2, splitList)) ''ca'' = [exampleServer]"
    by (simp add: elems_splitList regionServers_def splitList_def metaEntry_def exampleEntry_def
        elems_def nilSlice_def)
  have "plainQuery exampleDnsQuery" by code_simp
  moreover have "filter (asksServer ''srv1'') (mQuestions exampleDnsQuery) = [exampleQuestion]" by code_simp
  moreover have "svCn exampleServer = ''srv1''" "svIP exampleServer = ''10.0.0.1''"
    by (simp_all add: exampleServer_def)
  ultimately show ?thesis
    using registration_resolved_from_list [OF run sl key sent, of exampleDnsQuery "\<lambda>_. Inl UpstreamError"]
      run key sent list by auto
qed

end
