(* ===== verification/Wg_Generator.thy ===== *)
theory Wg_Generator
  imports Pia_Client
begin

text \<open>
  \<open>PIAWgGenerator\<close> of \<open>pia/wg.go\<close> and the metadata of \<open>pia/metadata.go\<close>. The generator uses
  its client through the interface \<open>PIAWgClient\<close>: the record \<open>wg_api\<close> holds the three methods,
  the locale \<open>wg_client\<close> what the generator relies on, and \<open>PIAClient\<close> is an interpretation.
  A call that panics in Go is \<open>None\<close>; its events, which have happened, are kept.
\<close>

section \<open>Metadata\<close>

record metadata =
  mdRegion :: bytes
  mdPortForwardEnabled :: bool
  mdWireguardConfig :: bytes
  mdEndpointHost :: bytes
  mdEndpointPort :: int
  mdPortForwardGateway :: bytes

definition buildMetadata :: "bytes \<Rightarrow> bool \<Rightarrow> piaAddKeyResult \<Rightarrow> metadata option" where
  \<comment> \<open>None is the error for a missing \<open>server_vip\<close>\<close>
  "buildMetadata region portForwarding key =
     (let m = \<lparr>mdRegion = region, mdPortForwardEnabled = portForwarding, mdWireguardConfig = [],
               mdEndpointHost = pkServerIP key, mdEndpointPort = pkServerPort key,
               mdPortForwardGateway = []\<rparr>
      in
      if pkServerVip key \<noteq> [] then
        Some (m\<lparr>mdPortForwardGateway := ''https://'' @ pkServerVip key @ '':19999''\<rparr>)
      else if portForwarding then None
      else Some m)"

section \<open>The generator\<close>

record 'c wg_api =
  apiGetToken :: "'c \<Rightarrow> (token_error + bytes) \<times> pia_event list"
  apiAddKey :: "'c \<Rightarrow> bytes \<Rightarrow> bytes
    \<Rightarrow> (add_key_error + piaAddKeyResult) option \<times> 'c \<times> pia_event list"
  apiMetadataServer :: "'c \<Rightarrow> server option \<times> pia_event list"

record wgGenerator =
  wgVerbose :: bool
  wgServerName :: bool
  wgPrivateKey :: bytes
  wgPublicKey :: bytes
  wgRegion :: bytes
  wgPortForwarding :: bool

record wgGeneratorConfig =
  gcVerbose :: bool
  gcServerName :: bool
  gcPrivateKey :: bytes
  gcPublicKey :: bytes
  gcRegion :: bytes
  gcPortForwarding :: bool

definition newPIAWgGenerator :: "wgGeneratorConfig \<Rightarrow> wgGenerator" where
  \<comment> \<open>the client is an argument of the operations\<close>
  "newPIAWgGenerator config =
     \<lparr>wgVerbose = gcVerbose config, wgServerName = gcServerName config, wgPrivateKey = gcPrivateKey config,
      wgPublicKey = gcPublicKey config, wgRegion = gcRegion config,
      wgPortForwarding = gcPortForwarding config\<rparr>"

record templateConfig =
  tcAddress :: bytes
  tcAllowedIPs :: bytes
  tcDNS :: bytes
  tcEndpoint :: bytes
  tcPrivateKey :: bytes
  tcPublicKey :: bytes
  tcPersistentKeepalive :: bytes
  tcServerCommonName :: bytes

record wg_keys =
  wkRandom :: "bytes option"
  wkScalarMult :: "key \<Rightarrow> key"

definition generateKeys :: "wg_keys \<Rightarrow> wgGenerator \<Rightarrow> (key_error + bytes \<times> bytes) \<times> pia_event list" where
  \<comment> \<open>\<open>log.Println\<close> puts a space between its arguments, after the one of the first\<close>
  "generateKeys ke g =
     (if wgPrivateKey g \<noteq> [] \<and> wgPublicKey g \<noteq> [] then (Inr (wgPrivateKey g, wgPublicKey g), [])
      else
        (case GeneratePrivateKey (wkRandom ke) of
           Inl e \<Rightarrow> (Inl e, [])
         | Inr privateKey \<Rightarrow>
             (let publicKey = PublicKey (wkScalarMult ke) privateKey in
              (Inr (keyString privateKey, keyString publicKey),
               logPrint (wgVerbose g) (''Public key:  '' @ keyString publicKey)))))"

definition wireguardConfig :: "templateConfig \<Rightarrow> bytes" where
  \<comment> \<open>\<open>wireguardConfigTemplate\<close>: the trim markers remove the line ends around the condition\<close>
  "wireguardConfig tc =
     ''[Interface]'' @ [LF]
     @ ''PrivateKey = '' @ tcPrivateKey tc @ [LF]
     @ ''Address = '' @ tcAddress tc @ [LF]
     @ ''DNS = '' @ tcDNS tc @ [LF]
     @ ''[Peer]'' @ [LF]
     @ ''PublicKey = '' @ tcPublicKey tc @ [LF]
     @ ''AllowedIPs = '' @ tcAllowedIPs tc @ [LF]
     @ ''Endpoint = '' @ tcEndpoint tc @ '':1337'' @ [LF]
     @ ''PersistentKeepalive = '' @ tcPersistentKeepalive tc
     @ (if tcServerCommonName tc \<noteq> [] then [LF] @ ''ServerCommonName = '' @ tcServerCommonName tc else [])"

definition generateConfig ::
  "'c wg_api \<Rightarrow> 'c \<Rightarrow> wgGenerator \<Rightarrow> piaAddKeyResult \<Rightarrow> bytes \<Rightarrow> bytes option \<times> pia_event list" where
  \<comment> \<open>\<open>None\<close> is the panic of \<open>getMetadataServerForRegion\<close> or of \<open>key.DNSServers[0]\<close>\<close>
  "generateConfig api c g key privatekey =
     (let (server, evs) = (if wgServerName g then apiMetadataServer api c else (None, [])) in
      (if wgServerName g \<and> server = None then None
       else
         (case elems (pkDNSServers key) of
            [] \<Rightarrow> None
          | dns # _ \<Rightarrow>
              Some (wireguardConfig
                \<lparr>tcAddress = pkPeerIP key, tcAllowedIPs = ''0.0.0.0/0'', tcDNS = dns,
                 tcEndpoint = pkServerIP key, tcPrivateKey = privatekey,
                 tcPublicKey = pkServerKey key, tcPersistentKeepalive = ''25'',
                 tcServerCommonName = (case server of None \<Rightarrow> [] | Some v \<Rightarrow> svCn v)\<rparr>)),
       evs))"

datatype generate_error =
    GetTokenFailed token_error | GenerateKeysFailed key_error | AddKeyFailed add_key_error
  | MetadataFailed

type_synonym 'c generation = "(generate_error + bytes \<times> metadata) option \<times> 'c \<times> pia_event list"

definition prefixEvents :: "pia_event list \<Rightarrow> 'c generation \<Rightarrow> 'c generation" where
  "prefixEvents evs x = (fst x, fst (snd x), evs @ snd (snd x))"

definition generateOutput ::
  "'c wg_api \<Rightarrow> 'c \<Rightarrow> wgGenerator \<Rightarrow> piaAddKeyResult \<Rightarrow> bytes \<Rightarrow> 'c generation" where
  \<comment> \<open>\<open>Generate\<close> when the key has been added\<close>
  "generateOutput api c g key privatekey =
     prefixEvents (logPrint (wgVerbose g) ''Generating Wireguard config'')
       (let (r, evs) = generateConfig api c g key privatekey in
        case r of
          None \<Rightarrow> (None, c, evs)
        | Some config \<Rightarrow>
            (case buildMetadata (wgRegion g) (wgPortForwarding g) key of
               None \<Rightarrow> (Some (Inl MetadataFailed), c, evs)
             | Some m \<Rightarrow> (Some (Inr (config, m)), c, evs)))"

definition generateRegistered ::
  "'c wg_api \<Rightarrow> 'c \<Rightarrow> wgGenerator \<Rightarrow> bytes \<Rightarrow> bytes \<Rightarrow> bytes \<Rightarrow> 'c generation" where
  \<comment> \<open>\<open>Generate\<close> when the keys are there\<close>
  "generateRegistered api c g token privatekey publickey =
     prefixEvents (logPrint (wgVerbose g) ''Adding Wireguard publickey to PIA account'')
       (let (r, c1, evs) = apiAddKey api c token publickey in
        case r of
          None \<Rightarrow> (None, c1, evs)
        | Some (Inl e) \<Rightarrow> (Some (Inl (AddKeyFailed e)), c1, evs)
        | Some (Inr key) \<Rightarrow> prefixEvents evs (generateOutput api c1 g key privatekey))"

definition generate :: "wg_keys \<Rightarrow> 'c wg_api \<Rightarrow> 'c \<Rightarrow> wgGenerator \<Rightarrow> 'c generation" where
  "generate ke api c g =
     prefixEvents (logPrint (wgVerbose g) ''Getting PIA token'')
       (let (r, evs) = apiGetToken api c in
        case r of
          Inl e \<Rightarrow> (Some (Inl (GetTokenFailed e)), c, evs)
        | Inr token \<Rightarrow>
            prefixEvents (evs @ logPrint (wgVerbose g) ''Generating Wireguard keys'')
              (let (r, evs) = generateKeys ke g in
               case r of
                 Inl e \<Rightarrow> (Some (Inl (GenerateKeysFailed e)), c, evs)
               | Inr (privatekey, publickey) \<Rightarrow>
                   prefixEvents evs (generateRegistered api c g token privatekey publickey)))"

lemma prefixEvents_iff:
  "prefixEvents es x = (r, c, evs) \<longleftrightarrow> (\<exists>evs1. x = (r, c, evs1) \<and> evs = es @ evs1)"
  by (cases x) (auto simp: prefixEvents_def)

lemma prefixEvents_simps [simp]:
  "fst (prefixEvents es x) = fst x" "fst (snd (prefixEvents es x)) = fst (snd x)"
  "snd (snd (prefixEvents es x)) = es @ snd (snd x)"
  by (simp_all add: prefixEvents_def)

section \<open>What the generator relies on\<close>

definition generatorLines :: "bytes list" where
  "generatorLines = map (\<lambda>t. t @ [LF])
     [''Getting PIA token'', ''Generating Wireguard keys'', ''Adding Wireguard publickey to PIA account'',
      ''Generating Wireguard config'']"

lemma logPrint_elim:
  assumes "e \<in> set (logPrint b l)"
  obtains t where "e = PiaLog t" and b and "[PiaLog t] = logPrint True l"
  using assms by (auto simp: logPrint_def split: if_splits)

lemma logPrint_only: "e \<in> set (logPrint b t) \<Longrightarrow> \<exists>l. e = PiaLog l"
  by (auto simp: logPrint_def split: if_splits)

definition accountedFor ::
  "'c wg_api \<Rightarrow> ('c \<Rightarrow> pia_event \<Rightarrow> bool) \<Rightarrow> ('c \<Rightarrow> bytes \<Rightarrow> bytes \<Rightarrow> pia_event \<Rightarrow> bool)
     \<Rightarrow> ('c \<Rightarrow> pia_event \<Rightarrow> bool) \<Rightarrow> wg_keys \<Rightarrow> 'c \<Rightarrow> wgGenerator \<Rightarrow> pia_event \<Rightarrow> bool" where
  \<comment> \<open>an event of a generation: a line of the generator, or of the token request, of the metadata
    server, of the keys, or of the registration of the public key with the token\<close>
  "accountedFor api asks registers tells ke c g e \<longleftrightarrow>
     wgVerbose g \<and> e \<in> PiaLog ` set generatorLines \<or> asks c e \<or> tells c e \<or> e \<in> set (snd (generateKeys ke g))
     \<or> (\<exists>token priv pub. fst (apiGetToken api c) = Inr token \<and> token \<noteq> []
          \<and> fst (generateKeys ke g) = Inr (priv, pub) \<and> registers c token pub e)"

locale wg_client =
  fixes api :: "'c wg_api"
    and asks :: "'c \<Rightarrow> pia_event \<Rightarrow> bool"
    and registers :: "'c \<Rightarrow> bytes \<Rightarrow> bytes \<Rightarrow> pia_event \<Rightarrow> bool"
    and tells :: "'c \<Rightarrow> pia_event \<Rightarrow> bool"
  assumes token_nonempty: "fst (apiGetToken api c) = Inr t \<Longrightarrow> t \<noteq> []"
    and token_events: "e \<in> set (snd (apiGetToken api c)) \<Longrightarrow> asks c e"
    and key_events: "t \<noteq> [] \<Longrightarrow> apiAddKey api c t k = (r, c', evs) \<Longrightarrow> e \<in> set evs \<Longrightarrow> registers c t k e"
    and server_events: "apiAddKey api c t k = (r, c', evs) \<Longrightarrow> e \<in> set (snd (apiMetadataServer api c')) \<Longrightarrow> tells c e"
begin

lemma logPrint_accounted:
  "e \<in> set (logPrint (wgVerbose g) ''Getting PIA token'') \<Longrightarrow> accountedFor api asks registers tells ke c g e"
  "e \<in> set (logPrint (wgVerbose g) ''Generating Wireguard keys'') \<Longrightarrow> accountedFor api asks registers tells ke c g e"
  "e \<in> set (logPrint (wgVerbose g) ''Adding Wireguard publickey to PIA account'') \<Longrightarrow> accountedFor api asks registers tells ke c g e"
  "e \<in> set (logPrint (wgVerbose g) ''Generating Wireguard config'') \<Longrightarrow> accountedFor api asks registers tells ke c g e"
  by (auto simp: accountedFor_def logPrint_def generatorLines_def split: if_splits)

lemma output_accounted:
  assumes "apiAddKey api c t k = (x, c', es)" and "generateOutput api c' g key priv = (r, c'', evs)"
    and "e \<in> set evs"
  shows "accountedFor api asks registers tells ke c g e"
proof -
  have "e \<in> set (logPrint (wgVerbose g) ''Generating Wireguard config'') \<or> e \<in> set (snd (apiMetadataServer api c'))"
    using assms(2,3)
    by (auto simp: generateOutput_def generateConfig_def Let_def prefixEvents_iff
        split: prod.splits option.splits if_splits)
  then show ?thesis using logPrint_accounted(4) server_events [OF assms(1)] unfolding accountedFor_def by blast
qed

lemma registered_accounted:
  assumes "fst (apiGetToken api c) = Inr token" and "fst (generateKeys ke g) = Inr (priv, pub)"
    and "generateRegistered api c g token priv pub = (r, c', evs)" and "e \<in> set evs"
  shows "accountedFor api asks registers tells ke c g e"
proof -
  obtain x c1 es where k: "apiAddKey api c token pub = (x, c1, es)" by (metis surj_pair)
  have "e \<in> set (logPrint (wgVerbose g) ''Adding Wireguard publickey to PIA account'') \<or> e \<in> set es
      \<or> (\<exists>key. e \<in> set (snd (snd (generateOutput api c1 g key priv))))"
    using assms(3,4) k
    by (auto simp: generateRegistered_def Let_def prefixEvents_def split: option.splits sum.splits)
  moreover have "accountedFor api asks registers tells ke c g e" if "e \<in> set es"
    using key_events [OF token_nonempty [OF assms(1)] k that] assms(1,2) token_nonempty
    unfolding accountedFor_def by blast
  ultimately show ?thesis
    using logPrint_accounted(3) output_accounted [OF k] by (metis surjective_pairing)
qed

lemma generate_accounted:
  assumes "generate ke api c g = (r, c', evs)" and "e \<in> set evs"
  shows "accountedFor api asks registers tells ke c g e"
proof -
  obtain t es where t: "apiGetToken api c = (t, es)" by fastforce
  obtain k ks where k: "generateKeys ke g = (k, ks)" by fastforce
  consider "e \<in> set (logPrint (wgVerbose g) ''Getting PIA token'')" | "e \<in> set es"
    | "e \<in> set (logPrint (wgVerbose g) ''Generating Wireguard keys'')" | "e \<in> set ks"
    | token priv pub where "t = Inr token" "k = Inr (priv, pub)"
        "e \<in> set (snd (snd (generateRegistered api c g token priv pub)))"
    using assms t k
    by (auto simp: generate_def Let_def prefixEvents_def split: sum.splits)
  then show ?thesis
  proof cases
    case 2
    then show ?thesis using token_events [of e c] t by (simp add: accountedFor_def)
  next
    case 4
    then show ?thesis using k by (simp add: accountedFor_def)
  next
    case 5
    then show ?thesis using registered_accounted [of c] t k by (metis fst_conv surjective_pairing)
  qed (use logPrint_accounted in blast)+
qed

lemma generate_ok:
  assumes "generate ke api c g = (Some (Inr (config, m)), c', evs)"
  obtains token priv pub key es where "fst (apiGetToken api c) = Inr token" "token \<noteq> []"
    and "fst (generateKeys ke g) = Inr (priv, pub)"
    and "apiAddKey api c token pub = (Some (Inr key), c', es)"
    and "fst (generateConfig api c' g key priv) = Some config"
    and "buildMetadata (wgRegion g) (wgPortForwarding g) key = Some m"
proof -
  obtain token priv pub where t: "fst (apiGetToken api c) = Inr token" "fst (generateKeys ke g) = Inr (priv, pub)"
    and r: "fst (generateRegistered api c g token priv pub) = Some (Inr (config, m))"
      "fst (snd (generateRegistered api c g token priv pub)) = c'"
    using assms by (auto simp: generate_def Let_def prefixEvents_def split: sum.splits prod.splits)
  obtain x c1 es where k: "apiAddKey api c token pub = (x, c1, es)" by (metis surj_pair)
  obtain key where key: "x = Some (Inr key)"
    and out: "fst (generateOutput api c1 g key priv) = Some (Inr (config, m))"
      "fst (snd (generateOutput api c1 g key priv)) = c'"
    using r k by (auto simp: generateRegistered_def Let_def split: option.splits sum.splits)
  have "c1 = c'" "fst (generateConfig api c1 g key priv) = Some config"
    "buildMetadata (wgRegion g) (wgPortForwarding g) key = Some m"
    using out by (auto simp: generateOutput_def Let_def split: prod.splits option.splits)
  then show thesis using that t token_nonempty k key by blast
qed

lemma generate_add_key_error:
  assumes "generate ke api c g = (Some (Inl (AddKeyFailed x)), c', evs)"
  obtains token priv pub es where "fst (apiGetToken api c) = Inr token"
    and "fst (generateKeys ke g) = Inr (priv, pub)"
    and "apiAddKey api c token pub = (Some (Inl x), c', es)" and "set es \<subseteq> set evs"
proof -
  obtain token priv pub where t: "fst (apiGetToken api c) = Inr token" "fst (generateKeys ke g) = Inr (priv, pub)"
    using assms by (auto simp: generate_def Let_def prefixEvents_def split: sum.splits prod.splits)
  have reg: "fst (generateRegistered api c g token priv pub) = Some (Inl (AddKeyFailed x))"
      "fst (snd (generateRegistered api c g token priv pub)) = c'"
      "set (snd (snd (generateRegistered api c g token priv pub))) \<subseteq> set evs"
    using assms t by (auto simp: generate_def Let_def prefixEvents_def split: sum.splits prod.splits)
  obtain y c1 es where k: "apiAddKey api c token pub = (y, c1, es)" by (metis surj_pair)
  have out: "fst (generateOutput api c1 g key priv) \<noteq> Some (Inl (AddKeyFailed x))" for key
    by (auto simp: generateOutput_def Let_def split: prod.splits option.splits)
  have "y = Some (Inl x)" "c1 = c'" "set es \<subseteq> set evs"
    using reg k out by (auto simp: generateRegistered_def Let_def split: option.splits sum.splits)
  then show thesis using that t k by blast
qed

end

definition piaApi :: "net_client \<Rightarrow> pia_env \<Rightarrow> piaClient wg_api" where
  "piaApi web env =
     \<lparr>apiGetToken = clientGetToken web, apiAddKey = clientAddKey env,
      apiMetadataServer = (\<lambda>p. (getMetadataServerForRegion p, metadataServerLog p))\<rparr>"

lemma piaApi_simps [simp]:
  "apiGetToken (piaApi web env) = clientGetToken web"
  "apiAddKey (piaApi web env) = clientAddKey env"
  "apiMetadataServer (piaApi web env) p = (getMetadataServerForRegion p, metadataServerLog p)"
  by (simp_all add: piaApi_def)

definition tokenEvent :: "net_client \<Rightarrow> piaClient \<Rightarrow> pia_event \<Rightarrow> bool" where
  "tokenEvent web p e \<longleftrightarrow>
     e \<in> set (logPrint (pcVerbose p) ''Requesting token from central PIA API'')
     \<or> e = PostForm tokenURL (clientForm p)
     \<or> (\<exists>status q prev. e = Redirected None status q
          \<and> leadsTo web (formRequest tokenURL (clientForm p)) prev
          \<and> redirectStep web (formRequest tokenURL (clientForm p)) prev status q)"

definition keyRequest :: "server \<Rightarrow> bytes \<Rightarrow> bytes \<Rightarrow> pia_request" where
  \<comment> \<open>a registration with a token\<close>
  "keyRequest sv t k =
     \<lparr>prqMethod = ''GET'', prqURL = addKeyURL sv t k, prqContentType = ''application/json'',
      prqBody = [], prqBasicAuth = None, prqReferer = []\<rparr>"

lemma keyRequest_region: "t \<noteq> [] \<Longrightarrow> regionRequest p (addKeyURL sv t k) t = keyRequest sv t k"
  by (simp add: regionRequest_def keyRequest_def)

definition keyEvent :: "pia_env \<Rightarrow> piaClient \<Rightarrow> bytes \<Rightarrow> bytes \<Rightarrow> pia_event \<Rightarrow> bool" where
  "keyEvent env p t k e \<longleftrightarrow> e \<in> set (wireguardServerLog p) \<or> e = DownloadCertificate
     \<or> (\<exists>sv. getWireguardServerForRegion p = Some sv
          \<and> (e = sent_request sv (keyRequest sv t k) \<or> regionRedirect env sv (keyRequest sv t k) e))"

definition serverEvent :: "piaClient \<Rightarrow> pia_event \<Rightarrow> bool" where
  "serverEvent p e \<longleftrightarrow> e \<in> set (metadataServerLog p)"

interpretation pia: wg_client "piaApi web env" "tokenEvent web" "keyEvent env" serverEvent for web env
proof
  fix c t assume "fst (apiGetToken (piaApi web env) c) = Inr t"
  then show "t \<noteq> []" using getToken_nonempty by (simp add: clientGetToken_def)
next
  fix c e assume "e \<in> set (snd (apiGetToken (piaApi web env) c))"
  then show "tokenEvent web c e" using clientGetToken_events by (simp add: tokenEvent_def)
next
  fix c t k r c' evs e
  assume t: "t \<noteq> []" and run: "apiAddKey (piaApi web env) c t k = (r, c', evs)" and e: "e \<in> set evs"
  have "clientAddKey env c t k = (r, c', evs)" using run by simp
  from clientAddKey_events [OF this e] show "keyEvent env c t k e"
    unfolding keyEvent_def keyRequest_region [OF t] .
next
  fix c t k r c' evs e
  assume "apiAddKey (piaApi web env) c t k = (r, c', evs)"
    and "e \<in> set (snd (apiMetadataServer (piaApi web env) c'))"
  then show "serverEvent c e"
    using clientAddKey_client [of env c t k r c' evs] by (simp add: serverEvent_def metadataServerLog_def)
qed

section \<open>Properties of a generation\<close>

lemma generateKeys_ok:
  assumes "fst (generateKeys ke g) = Inr (priv, pub)"
  shows "if wgPrivateKey g \<noteq> [] \<and> wgPublicKey g \<noteq> [] then priv = wgPrivateKey g \<and> pub = wgPublicKey g
    else \<exists>k. GeneratePrivateKey (wkRandom ke) = Inr k \<and> priv = keyString k
           \<and> pub = keyString (wkScalarMult ke k)"
  using assms by (auto simp: generateKeys_def Let_def PublicKey_def split: if_splits sum.splits)

text \<open>
  C14: a generation that succeeds used a non-empty token and a key pair: the two keys it was
  configured with, as they were given, when there are both, or else a fresh private key and
  the public key that \<open>ScalarBaseMult\<close> computes from it. It registered this public key with this
  token, and returns the text of the configuration, line by line: the private key, the address
  and the first DNS server of the registration, the key of the server, the address of the server
  with the port 1337, which is fixed and not the registered one, and the common name of the
  metadata server when it is asked for. The metadata are of the same registration: region and
  port forwarding as configured, endpoint host and port as registered, and the gateway of
  the address the server assigned, which port forwarding requires.
\<close>

theorem generate_success:
  assumes "generate ke (piaApi web env) c g = (Some (Inr (config, m)), c', evs)"
  shows "\<exists>token priv pub key es dns more name.
    fst (clientGetToken web c) = Inr token \<and> token \<noteq> []
    \<and> (if wgPrivateKey g \<noteq> [] \<and> wgPublicKey g \<noteq> [] then priv = wgPrivateKey g \<and> pub = wgPublicKey g
       else \<exists>k. GeneratePrivateKey (wkRandom ke) = Inr k \<and> priv = keyString k
              \<and> pub = keyString (wkScalarMult ke k))
    \<and> clientAddKey env c token pub = (Some (Inr key), c', es)
    \<and> elems (pkDNSServers key) = dns # more
    \<and> (if wgServerName g then \<exists>v. getMetadataServerForRegion c' = Some v \<and> name = svCn v else name = [])
    \<and> config =
        ''[Interface]'' @ [LF] @ ''PrivateKey = '' @ priv @ [LF] @ ''Address = '' @ pkPeerIP key @ [LF]
        @ ''DNS = '' @ dns @ [LF] @ ''[Peer]'' @ [LF] @ ''PublicKey = '' @ pkServerKey key @ [LF]
        @ ''AllowedIPs = 0.0.0.0/0'' @ [LF] @ ''Endpoint = '' @ pkServerIP key @ '':1337'' @ [LF]
        @ ''PersistentKeepalive = 25'' @ (if name = [] then [] else LF # ''ServerCommonName = '' @ name)
    \<and> m = \<lparr>mdRegion = wgRegion g, mdPortForwardEnabled = wgPortForwarding g, mdWireguardConfig = [],
        mdEndpointHost = pkServerIP key, mdEndpointPort = pkServerPort key,
        mdPortForwardGateway = (if pkServerVip key = [] then [] else ''https://'' @ pkServerVip key @ '':19999'')\<rparr>
    \<and> (wgPortForwarding g \<longrightarrow> pkServerVip key \<noteq> [])"
proof -
  from assms obtain token priv pub key es where t: "fst (clientGetToken web c) = Inr token" "token \<noteq> []"
    and k: "fst (generateKeys ke g) = Inr (priv, pub)" "clientAddKey env c token pub = (Some (Inr key), c', es)"
    and config: "fst (generateConfig (piaApi web env) c' g key priv) = Some config"
    and m: "buildMetadata (wgRegion g) (wgPortForwarding g) key = Some m"
    by (rule pia.generate_ok) simp_all
  obtain name dns more where name: "if wgServerName g
      then \<exists>v. getMetadataServerForRegion c' = Some v \<and> name = svCn v else name = []"
    and dns: "elems (pkDNSServers key) = dns # more"
    and c: "config = wireguardConfig \<lparr>tcAddress = pkPeerIP key, tcAllowedIPs = ''0.0.0.0/0'', tcDNS = dns,
        tcEndpoint = pkServerIP key, tcPrivateKey = priv, tcPublicKey = pkServerKey key,
        tcPersistentKeepalive = ''25'', tcServerCommonName = name\<rparr>"
    using config by (cases "wgServerName g") (auto simp: generateConfig_def split: option.splits list.splits if_splits)
  have "m = \<lparr>mdRegion = wgRegion g, mdPortForwardEnabled = wgPortForwarding g,
      mdWireguardConfig = [], mdEndpointHost = pkServerIP key, mdEndpointPort = pkServerPort key,
      mdPortForwardGateway = (if pkServerVip key = [] then [] else ''https://'' @ pkServerVip key @ '':19999'')\<rparr>"
    "wgPortForwarding g \<longrightarrow> pkServerVip key \<noteq> []"
    using m by (auto simp: buildMetadata_def Let_def split: if_splits)
  moreover have "config =
      ''[Interface]'' @ [LF] @ ''PrivateKey = '' @ priv @ [LF] @ ''Address = '' @ pkPeerIP key @ [LF]
      @ ''DNS = '' @ dns @ [LF] @ ''[Peer]'' @ [LF] @ ''PublicKey = '' @ pkServerKey key @ [LF]
      @ ''AllowedIPs = 0.0.0.0/0'' @ [LF] @ ''Endpoint = '' @ pkServerIP key @ '':1337'' @ [LF]
      @ ''PersistentKeepalive = 25'' @ (if name = [] then [] else LF # ''ServerCommonName = '' @ name)"
    by (simp add: c wireguardConfig_def)
  ultimately show ?thesis using t generateKeys_ok [OF k(1)] k(2) dns name by blast
qed

text \<open>
  C38: a generation panics exactly when the token and the keys were obtained and then either
  the client has no WireGuard server for its region, or the registration was answered and
  the answer has no DNS server, or the server name was asked for and the region has no
  metadata server. Nothing checks the length of \<open>dns_servers\<close> before its first element is used.
\<close>

theorem generate_panics_exactly:
  "fst (generate ke (piaApi web env) c g) = None \<longleftrightarrow>
     (\<exists>token priv pub. fst (clientGetToken web c) = Inr token \<and> fst (generateKeys ke g) = Inr (priv, pub)
       \<and> (getWireguardServerForRegion c = None
          \<or> (\<exists>key c' evs. clientAddKey env c token pub = (Some (Inr key), c', evs)
               \<and> (elems (pkDNSServers key) = []
                  \<or> wgServerName g \<and> getMetadataServerForRegion c' = None))))"
proof -
  have out: "fst (generateOutput (piaApi web env) c' g key priv) = None \<longleftrightarrow>
      elems (pkDNSServers key) = [] \<or> wgServerName g \<and> getMetadataServerForRegion c' = None"
    for c' key priv
    by (auto simp: generateOutput_def generateConfig_def split: option.splits list.splits prod.splits)
  have add: "fst (clientAddKey env c t k) = None \<longleftrightarrow> getWireguardServerForRegion c = None" for t k
    by (auto simp: clientAddKey_def split: option.splits prod.splits)
  have reg: "fst (generateRegistered (piaApi web env) c g token priv pub) = None \<longleftrightarrow>
      getWireguardServerForRegion c = None
      \<or> (\<exists>key c' evs. clientAddKey env c token pub = (Some (Inr key), c', evs)
           \<and> (elems (pkDNSServers key) = [] \<or> wgServerName g \<and> getMetadataServerForRegion c' = None))"
    for token priv pub
    using add [of token pub]
    by (cases "clientAddKey env c token pub")
      (auto simp: generateRegistered_def Let_def out split: option.splits sum.splits)
  show ?thesis
    by (cases "clientGetToken web c"; cases "generateKeys ke g")
      (auto simp: generate_def Let_def reg split: sum.splits)
qed

definition clientLines :: "bytes \<Rightarrow> bytes list" where
  "clientLines region =
     [''Requesting token from central PIA API'', ''Getting wireguard server for region: '' @ region,
      ''Getting metadata server for region: '' @ region]"

definition eventKept ::
  "net_client \<Rightarrow> pia_env \<Rightarrow> wg_keys \<Rightarrow> piaClient \<Rightarrow> wgGenerator \<Rightarrow> pia_event \<Rightarrow> bool" where
  \<comment> \<open>what an event may show, to whom\<close>
  "eventKept web env ke c g e \<longleftrightarrow>
   (case e of
      PiaLog t \<Rightarrow> (wgVerbose g \<or> pcVerbose c)
        \<and> (t \<in> set generatorLines \<or> (\<exists>l \<in> set (clientLines (pcRegion c)). [PiaLog t] = logPrint True l)
           \<or> (\<exists>priv pub. fst (generateKeys ke g) = Inr (priv, pub)
                \<and> [PiaLog t] = logPrint True (''Public key:  '' @ pub)))
    | PostForm url form \<Rightarrow>
        url = tokenURL \<and> form = tokenForm \<lparr>username = pcUsername c, password = pcPassword c\<rparr>
    | DownloadCertificate \<Rightarrow> True
    | SendToRegion mux req \<Rightarrow>
        (\<exists>sv token priv pub. getWireguardServerForRegion c = Some sv
           \<and> fst (clientGetToken web c) = Inr token \<and> fst (generateKeys ke g) = Inr (priv, pub)
           \<and> mux = regionMux (svCn sv) (svIP sv)
           \<and> req = \<lparr>prqMethod = ''GET'', prqURL = addKeyURL sv token pub,
               prqContentType = ''application/json'', prqBody = [], prqBasicAuth = None, prqReferer = []\<rparr>)
    | Redirected None status q \<Rightarrow> prqBasicAuth q = None
        \<and> (prqBody q = [] \<or> status \<in> {307, 308}
             \<and> prqBody q = tokenForm \<lparr>username = pcUsername c, password = pcPassword c\<rparr>)
        \<and> (\<exists>prev. leadsTo web (formRequest tokenURL (clientForm c)) prev
             \<and> redirectStep web (formRequest tokenURL (clientForm c)) prev status q)
    | Redirected (Some mux) status q \<Rightarrow> prqBasicAuth q = None \<and> prqBody q = []
        \<and> (\<exists>sv token priv pub pool prev. getWireguardServerForRegion c = Some sv
             \<and> fst (clientGetToken web c) = Inr token \<and> fst (generateKeys ke g) = Inr (priv, pub)
             \<and> mux = regionMux (svCn sv) (svIP sv)
             \<and> leadsTo (peDo env pool mux) (keyRequest sv token pub) prev
             \<and> redirectStep (peDo env pool mux) (keyRequest sv token pub) prev status q))"

lemma keyEvent_kept:
  assumes "fst (clientGetToken web c) = Inr token" and "fst (generateKeys ke g) = Inr (priv, pub)"
    and "keyEvent env c token pub e"
  shows "eventKept web env ke c g e"
proof -
  consider "e \<in> set (wireguardServerLog c)" | "e = DownloadCertificate"
    | sv where "getWireguardServerForRegion c = Some sv" "e = sent_request sv (keyRequest sv token pub)"
    | sv where "getWireguardServerForRegion c = Some sv" "regionRedirect env sv (keyRequest sv token pub) e"
    using assms(3) unfolding keyEvent_def by blast
  then show ?thesis
  proof cases
    case 1
    then show ?thesis
      by (auto simp: eventKept_def wireguardServerLog_def clientLines_def elim!: logPrint_elim)
  next
    case 3
    then show ?thesis using assms by (auto simp: eventKept_def sent_request_def keyRequest_def)
  next
    case 4
    then obtain pool status q prev where e: "e = Redirected (Some (regionMux (svCn sv) (svIP sv))) status q"
      and p: "leadsTo (peDo env pool (regionMux (svCn sv) (svIP sv))) (keyRequest sv token pub) prev"
        "redirectStep (peDo env pool (regionMux (svCn sv) (svIP sv))) (keyRequest sv token pub) prev status q"
      unfolding regionRedirect_def by blast
    have "prqBasicAuth q = None" "prqBody q = []"
      using redirectStep_carries [OF p] by (auto simp: keyRequest_def)
    then show ?thesis using e p assms(1,2) 4(1) by (simp add: eventKept_def) blast
  qed (simp add: eventKept_def)
qed

lemma generate_event_kept:
  assumes "generate ke (piaApi web env) c g = (r, c', evs)" and "e \<in> set evs"
  shows "eventKept web env ke c g e"
proof -
  from pia.generate_accounted [OF assms]
  consider "wgVerbose g" "e \<in> PiaLog ` set generatorLines" | "tokenEvent web c e" | "serverEvent c e"
    | "e \<in> set (snd (generateKeys ke g))"
    | token priv pub where "fst (clientGetToken web c) = Inr token"
        "fst (generateKeys ke g) = Inr (priv, pub)" "keyEvent env c token pub e"
    unfolding accountedFor_def by auto
  then show ?thesis
  proof cases
    case 1
    then show ?thesis by (auto simp: eventKept_def)
  next
    case 2
    then consider "e \<in> set (logPrint (pcVerbose c) ''Requesting token from central PIA API'')"
      | "e = PostForm tokenURL (clientForm c)"
      | status q prev where "e = Redirected None status q"
          "leadsTo web (formRequest tokenURL (clientForm c)) prev"
          "redirectStep web (formRequest tokenURL (clientForm c)) prev status q"
      unfolding tokenEvent_def by blast
    then show ?thesis
    proof cases
      case 3
      then show ?thesis
        using redirectStep_carries [OF 3(2,3)] by (auto simp: eventKept_def formRequest_def clientForm_def)
    qed (auto simp: eventKept_def clientForm_def clientLines_def elim!: logPrint_elim)
  next
    case 3
    then show ?thesis
      by (auto simp: eventKept_def serverEvent_def metadataServerLog_def clientLines_def elim!: logPrint_elim)
  next
    case 4
    then show ?thesis
      by (auto simp: eventKept_def generateKeys_def Let_def elim!: logPrint_elim split: if_splits sum.splits)
  next
    case 5
    then show ?thesis using keyEvent_kept by blast
  qed
qed

lemma generate_error_named:
  assumes "generate ke (piaApi web env) c g
      = (Some (Inl (AddKeyFailed (AddKeyRequest (RegionRequest shown x)))), c', evs)"
    and "\<forall>mux status q. Redirected (Some mux) status q \<notin> set evs"
  shows "\<exists>sv token priv pub pool. getWireguardServerForRegion c = Some sv
    \<and> fst (clientGetToken web c) = Inr token \<and> fst (generateKeys ke g) = Inr (priv, pub)
    \<and> shown = ncShown (peDo env pool (regionMux (svCn sv) (svIP sv))) (addKeyURL sv token pub)"
proof -
  obtain token priv pub es where k: "fst (clientGetToken web c) = Inr token"
      "fst (generateKeys ke g) = Inr (priv, pub)"
    and add: "clientAddKey env c token pub = (Some (Inl (AddKeyRequest (RegionRequest shown x))), c', es)"
    and es: "set es \<subseteq> set evs"
    using assms(1) by (rule pia.generate_add_key_error) simp_all
  have "\<forall>mux status q. Redirected (Some mux) status q \<notin> set es" using assms(2) es by blast
  then show ?thesis using addKey_error_named [OF add] k by blast
qed

text \<open>
  C19: where the secrets of a generation go. The user name and the password are in the form
  posted to the token endpoint; they leave it only if that endpoint, or a server it redirects
  to, answers with 307 or 308: then the client posts the form again to whatever URL is named.
  The token and the public key are in the query of the registration, which goes to the
  WireGuard server of the region under the name and address of the server list; no request
  of the registration, redirects included, has a body or the credentials, and a redirect that is
  followed is one that this server, or one it leads to, asked for, with the URL it came from,
  and so possibly the token, in its \<open>Referer\<close>. The log, which is written in verbose mode only,
  shows fixed texts, the region and the public key: neither the token nor the private key. But
  the error of a registration that fails before any redirect names the URL, token included
  (\<open>ncShown\<close> masks the password of a URL, and this one has none).
\<close>

theorem generation_secrets:
  assumes "generate ke (piaApi web env) c g = (r, c', evs)"
  shows "(\<forall>e \<in> set evs. case e of
      PiaLog t \<Rightarrow> (wgVerbose g \<or> pcVerbose c)
        \<and> (t \<in> set generatorLines \<or> (\<exists>l \<in> set (clientLines (pcRegion c)). [PiaLog t] = logPrint True l)
           \<or> (\<exists>priv pub. fst (generateKeys ke g) = Inr (priv, pub)
                \<and> [PiaLog t] = logPrint True (''Public key:  '' @ pub)))
    | PostForm url form \<Rightarrow>
        url = tokenURL \<and> form = tokenForm \<lparr>username = pcUsername c, password = pcPassword c\<rparr>
    | DownloadCertificate \<Rightarrow> True
    | SendToRegion mux req \<Rightarrow>
        (\<exists>sv token priv pub. getWireguardServerForRegion c = Some sv
           \<and> fst (clientGetToken web c) = Inr token \<and> fst (generateKeys ke g) = Inr (priv, pub)
           \<and> mux = regionMux (svCn sv) (svIP sv)
           \<and> req = \<lparr>prqMethod = ''GET'', prqURL = addKeyURL sv token pub,
               prqContentType = ''application/json'', prqBody = [], prqBasicAuth = None, prqReferer = []\<rparr>)
    | Redirected None status q \<Rightarrow> prqBasicAuth q = None
        \<and> (prqBody q = [] \<or> status \<in> {307, 308}
             \<and> prqBody q = tokenForm \<lparr>username = pcUsername c, password = pcPassword c\<rparr>)
        \<and> (\<exists>prev. leadsTo web (formRequest tokenURL (clientForm c)) prev
             \<and> redirectStep web (formRequest tokenURL (clientForm c)) prev status q)
    | Redirected (Some mux) status q \<Rightarrow> prqBasicAuth q = None \<and> prqBody q = []
        \<and> (\<exists>sv token priv pub pool prev. getWireguardServerForRegion c = Some sv
             \<and> fst (clientGetToken web c) = Inr token \<and> fst (generateKeys ke g) = Inr (priv, pub)
             \<and> mux = regionMux (svCn sv) (svIP sv)
             \<and> leadsTo (peDo env pool mux) (keyRequest sv token pub) prev
             \<and> redirectStep (peDo env pool mux) (keyRequest sv token pub) prev status q))
   \<and> (\<forall>shown x. r = Some (Inl (AddKeyFailed (AddKeyRequest (RegionRequest shown x))))
         \<and> (\<forall>mux status q. Redirected (Some mux) status q \<notin> set evs)
       \<longrightarrow> (\<exists>sv token priv pub pool. getWireguardServerForRegion c = Some sv
             \<and> fst (clientGetToken web c) = Inr token \<and> fst (generateKeys ke g) = Inr (priv, pub)
             \<and> shown = ncShown (peDo env pool (regionMux (svCn sv) (svIP sv))) (addKeyURL sv token pub)))"
proof (intro conjI ballI allI impI, goal_cases)
  case (1 e)
  then show ?case by (rule generate_event_kept [OF assms, unfolded eventKept_def])
next
  case (2 shown x)
  then have "generate ke (piaApi web env) c g
      = (Some (Inl (AddKeyFailed (AddKeyRequest (RegionRequest shown x)))), c', evs)"
    using assms by simp
  from generate_error_named [OF this] 2 show ?case by blast
qed

text \<open>
  No request of a generation carries the user name and password to a regional server,
  whatever the token endpoint, the certificate download and the server answer.
\<close>

theorem generate_keeps_credentials:
  assumes "generate ke (piaApi web env) c g = (r, c', evs)"
    and "SendToRegion z req \<in> set evs"
  shows "prqBasicAuth req = None"
proof -
  have no: "SendToRegion z req \<notin> set (logPrint b l)" for b l using logPrint_only by blast
  have "SendToRegion z req \<notin> set (snd (generateKeys ke g))"
    using no by (auto simp: generateKeys_def Let_def split: sum.splits)
  then show ?thesis
    using pia.generate_accounted [OF assms] no
    by (auto simp: accountedFor_def tokenEvent_def serverEvent_def metadataServerLog_def keyEvent_def
        wireguardServerLog_def sent_request_def keyRequest_def regionRedirect_def)
qed

section \<open>An example\<close>

definition exampleMembers :: raw_fields where
  "exampleMembers =
     [(''status'', marshalString ''OK''), (''server_key'', marshalString ''SK''),
      (''server_port'', marshalInt 1338), (''server_ip'', marshalString ''10.0.0.1''),
      (''server_vip'', marshalString ''10.0.0.2''), (''peer_ip'', marshalString ''10.9.9.9''),
      (''peer_pubkey'', marshalString ''PK''), (''dns_servers'', arrayText [marshalString ''10.0.0.243''])]"

definition exampleKeyResult :: piaAddKeyResult where
  "exampleKeyResult = \<lparr>pkStatus = ''OK'', pkServerKey = ''SK'', pkServerPort = 1338,
     pkServerIP = ''10.0.0.1'', pkServerVip = ''10.0.0.2'', pkPeerIP = ''10.9.9.9'',
     pkPeerPubkey = ''PK'', pkDNSServers = (1, [''10.0.0.243''])\<rparr>"

lemma exampleMembers_decode: "decodeAddKey (objectText exampleMembers) = Some exampleKeyResult"
proof -
  have arr: "json_text 1 (arrayText [marshalString ''10.0.0.243''])"
    by (rule json_text_arrayText [of 0]) (simp_all add: json_text_marshalString)
  have ok: "members_ok 1 exampleMembers"
    using arr by (simp add: exampleMembers_def members_ok_def json_text_mono [OF json_text_marshalString]
        json_text_mono [OF json_text_marshalInt])
  have read: "readValue (objectText exampleMembers @ []) = Some (objectText exampleMembers, [])"
    by (rule json_text_readValue [OF json_text_objectText [OF ok order_refl]]) (simp_all add: maxNestingDepth_def)
  have dns: "decodeSlice unmarshalString [] (arrayText [marshalString ''10.0.0.243'']) nilSlice
      = Some (1, [''10.0.0.243''])"
    using decodeSlice_fresh [of "[''10.0.0.243'']" 0 marshalString unmarshalString "[]"]
    by (simp add: json_text_marshalString str.dec_enc)
  have "decodeStruct addKeyFields (objectText exampleMembers) zeroAddKey
      = applyFields addKeyFields exampleMembers zeroAddKey"
    by (rule decodeStruct_objectText [OF ok]) simp
  also have "\<dots> = Some exampleKeyResult"
    by (simp add: exampleMembers_def structField_def addKeyFields_def stringField_def subField_def
        str.dec_enc int.dec_enc dns zeroAddKey_def exampleKeyResult_def)
  finally show ?thesis using read by (simp add: decodeAddKey_def)
qed

definition exampleRegionEnv :: pia_env where
  "exampleRegionEnv = examplePiaEnv\<lparr>peDo := \<lambda>_ _. answering (\<lambda>_. Reply 200 [] (objectText exampleMembers) None)\<rparr>"

definition exampleGenerator :: wgGenerator where
  "exampleGenerator = \<lparr>wgVerbose = True, wgServerName = False, wgPrivateKey = ''priv'', wgPublicKey = ''pub'',
     wgRegion = ''ca'', wgPortForwarding = True\<rparr>"

definition exampleKeys :: wg_keys where
  "exampleKeys = \<lparr>wkRandom = None, wkScalarMult = id\<rparr>"

lemma example_generation:
  assumes "fst (clientGetToken web exampleClientPia) = Inr ''t''"
  shows "\<exists>config m c' evs. generate exampleKeys (piaApi web exampleRegionEnv) exampleClientPia exampleGenerator
     = (Some (Inr (config, m)), c', evs)
   \<and> set (snd (clientGetToken web exampleClientPia)) \<subseteq> set evs
   \<and> SendToRegion (regionMux ''srv1'' ''10.0.0.1'')
       (regionRequest exampleClientPia (addKeyURL exampleServer ''t'' ''pub'') ''t'') \<in> set evs"
proof -
  have sv: "getWireguardServerForRegion exampleClientPia = Some exampleServer"
    by (simp add: getWireguardServerForRegion_def firstServer_def exampleClientPia_def initialClient_def)
  have "\<exists>c' evs. clientAddKey exampleRegionEnv exampleClientPia ''t'' ''pub'' = (Some (Inr exampleKeyResult), c', evs)
      \<and> SendToRegion (regionMux ''srv1'' ''10.0.0.1'')
          (regionRequest exampleClientPia (addKeyURL exampleServer ''t'' ''pub'') ''t'') \<in> set evs"
    using sv exampleMembers_decode
    by (simp add: clientAddKey_def executePIARequest_def downloadPIACertificate_def exampleRegionEnv_def
        examplePiaEnv_def exampleClientPia_def initialClient_def answering_ok Let_def exampleServer_def)
  then obtain c' evs where k: "clientAddKey exampleRegionEnv exampleClientPia ''t'' ''pub''
      = (Some (Inr exampleKeyResult), c', evs)"
    and sent: "SendToRegion (regionMux ''srv1'' ''10.0.0.1'')
        (regionRequest exampleClientPia (addKeyURL exampleServer ''t'' ''pub'') ''t'') \<in> set evs" by blast
  have "\<exists>config m. fst (generateOutput (piaApi web exampleRegionEnv) c' exampleGenerator exampleKeyResult
      ''priv'') = Some (Inr (config, m))"
    by (simp add: generateOutput_def generateConfig_def exampleGenerator_def exampleKeyResult_def elems_def
        buildMetadata_def)
  then obtain config m c2 evs2 where "generateOutput (piaApi web exampleRegionEnv) c' exampleGenerator
      exampleKeyResult ''priv'' = (Some (Inr (config, m)), c2, evs2)"
    by (metis prod.collapse)
  moreover have "generateKeys exampleKeys exampleGenerator = (Inr (''priv'', ''pub''), [])"
    by (simp add: generateKeys_def exampleGenerator_def)
  moreover obtain es where "clientGetToken web exampleClientPia = (Inr ''t'', es)"
    using assms by (metis prod.collapse)
  ultimately show ?thesis using k sent
    by (auto simp: generate_def generateRegistered_def Let_def prefixEvents_def)
qed

lemmas example_generate = example_generation [OF examplePost_token]

definition movedWeb :: net_client where
  \<comment> \<open>the token endpoint redirects to another host, which answers\<close>
  "movedWeb = answering (\<lambda>u. if u = tokenURL then Reply 307 ''https://b/token'' [] None
     else Reply 200 [] tokenBody None)"

lemma movedWeb_simps:
  "ncSend movedWeb req = (if prqURL req = tokenURL then Reply 307 ''https://b/token'' [] None
     else Reply 200 [] tokenBody None)"
  "ncParse movedWeb u location = Some location" "ncPlain movedWeb u = u"
  "ncCopies movedWeb h via status u = False"
  by (simp_all add: movedWeb_def answering_def)

lemma movedWeb_token:
  "clientGetToken movedWeb p =
     (Inr ''t'', logPrint (pcVerbose p) ''Requesting token from central PIA API'' @
        [PostForm tokenURL (clientForm p),
         Redirected None 307 ((formRequest ''https://b/token'' (clientForm p))
           \<lparr>prqContentType := [], prqReferer := tokenURL\<rparr>)])"
proof -
  have "tokenURL \<noteq> ''https://b/token''" "hasPrefix tokenURL ''https:''"
    by (simp_all add: tokenURL_def)
  then have "httpDo movedWeb (formRequest tokenURL (clientForm p)) = (DoAnswers 200 tokenBody None,
      [(307, (formRequest ''https://b/token'' (clientForm p))\<lparr>prqContentType := [], prqReferer := tokenURL\<rparr>)])"
    by (simp add: httpDo_def do_loop.simps [of movedWeb] movedWeb_simps formRequest_def shouldRedirect_def nextRequest_def redirectMethod_def includeBody_def
        refererForURL_def Let_def)
  then show ?thesis
    using tokenBody_decode by (simp add: clientGetToken_def getToken_def redirects_def Let_def)
qed

theorem generate_success_witness:
  "\<exists>config m c' evs key es. generate exampleKeys (piaApi examplePost exampleRegionEnv) exampleClientPia
       exampleGenerator = (Some (Inr (config, m)), c', evs)
     \<and> clientAddKey exampleRegionEnv exampleClientPia ''t'' ''pub'' = (Some (Inr key), c', es)
     \<and> mdEndpointPort m = pkServerPort key"
proof -
  obtain config m c' evs where run: "generate exampleKeys (piaApi examplePost exampleRegionEnv)
      exampleClientPia exampleGenerator = (Some (Inr (config, m)), c', evs)"
    using example_generate by blast
  have "wgPrivateKey exampleGenerator = ''priv''" "wgPublicKey exampleGenerator = ''pub''"
    by (simp_all add: exampleGenerator_def)
  with generate_success [OF run] run examplePost_token show ?thesis by auto
qed

theorem generation_secrets_witness:
  "\<exists>r c' evs req sv q. generate exampleKeys (piaApi movedWeb exampleRegionEnv) exampleClientPia
      exampleGenerator = (r, c', evs)
      \<and> SendToRegion (regionMux ''srv1'' ''10.0.0.1'') req \<in> set evs \<and> prqURL req = addKeyURL sv ''t'' ''pub''
      \<and> Redirected None 307 q \<in> set evs \<and> prqURL q = ''https://b/token''
      \<and> prqBody q = tokenForm \<lparr>username = ''u'', password = ''p''\<rparr>"
proof -
  have token: "fst (clientGetToken movedWeb exampleClientPia) = Inr ''t''" by (simp add: movedWeb_token)
  from example_generation [OF token] obtain r c' evs req where run: "generate exampleKeys
      (piaApi movedWeb exampleRegionEnv) exampleClientPia exampleGenerator = (r, c', evs)"
    and sent: "SendToRegion (regionMux ''srv1'' ''10.0.0.1'') req \<in> set evs"
    and moved: "set (snd (clientGetToken movedWeb exampleClientPia)) \<subseteq> set evs"
    by blast
  have "fst (generateKeys exampleKeys exampleGenerator) = Inr (''priv'', ''pub'')"
    by (simp add: generateKeys_def exampleGenerator_def)
  then obtain sv where "prqURL req = addKeyURL sv ''t'' ''pub''"
    using bspec [OF conjunct1 [OF generation_secrets [OF run]] sent] token by auto
  moreover obtain q where q: "Redirected None 307 q \<in> set evs" "prqURL q = ''https://b/token''"
      "prqBody q = clientForm exampleClientPia"
    using moved by (auto simp: movedWeb_token formRequest_def)
  ultimately show ?thesis
    using run sent by (auto simp: clientForm_def exampleClientPia_def initialClient_def)
qed

theorem generate_keeps_credentials_witness:
  "\<exists>r c' evs req. generate exampleKeys (piaApi examplePost exampleRegionEnv) exampleClientPia
      exampleGenerator = (r, c', evs) \<and> SendToRegion (regionMux ''srv1'' ''10.0.0.1'') req \<in> set evs
      \<and> prqBasicAuth req = None"
proof -
  obtain r c' evs req where run: "generate exampleKeys (piaApi examplePost exampleRegionEnv)
      exampleClientPia exampleGenerator = (r, c', evs)"
    and sent: "SendToRegion (regionMux ''srv1'' ''10.0.0.1'') req \<in> set evs"
    using example_generate by blast
  with generate_keeps_credentials [OF run sent] show ?thesis by blast
qed

end
