(* ===== verification/Json_Indent.thy ===== *)
theory Json_Indent
  imports Json_Struct
begin

text \<open>
  \<open>json.MarshalIndent\<close> with an empty prefix and two spaces, for objects and arrays given by
  the texts of their parts, and the proof that an indented object is read like a compact one.
\<close>

section \<open>The layout\<close>

definition newline :: "nat \<Rightarrow> bytes" where
  "newline depth = CHR 0x0A # replicate (2 * depth) (CHR '' '')"

fun separated :: "bytes \<Rightarrow> bytes list \<Rightarrow> bytes" where
  "separated sep [] = []"
| "separated sep [x] = x"
| "separated sep (x # y # xs) = x @ sep @ separated sep (y # xs)"

definition indentBlock :: "char \<Rightarrow> char \<Rightarrow> nat \<Rightarrow> bytes list \<Rightarrow> bytes" where
  "indentBlock l r depth xs =
     (if xs = [] then [l, r]
      else l # newline (Suc depth) @ separated (CHR '','' # newline (Suc depth)) xs @ newline depth @ [r])"

definition memberText :: "bytes \<times> bytes \<Rightarrow> bytes" where
  "memberText = (\<lambda>(k, v). marshalString k @ '': '' @ v)"

definition indentObject :: "nat \<Rightarrow> raw_fields \<Rightarrow> bytes" where
  "indentObject depth ms = indentBlock (CHR ''{'') (CHR ''}'') depth (map memberText ms)"

definition indentArray :: "nat \<Rightarrow> bytes list \<Rightarrow> bytes" where
  "indentArray depth es = indentBlock (CHR ''['') (CHR '']'') depth es"

section \<open>White space between tokens\<close>

abbreviation spaces :: "bytes \<Rightarrow> bool" where
  "spaces w \<equiv> list_all isSpace w"

lemma spaces_newline [simp]: "spaces (newline d)"
  by (auto simp: newline_def isSpace_def list_all_iff)

lemma scan_skip:
  assumes "\<And>c. isSpace c \<Longrightarrow> scan1 s c = (s, ScanSkipSpace)" and "spaces w"
  shows "scan_value s (w @ r) = prefixed w (scan_value s r)"
  using assms(2)
proof (induction w)
  case (Cons c w)
  then have "scan1 s c = (s, ScanSkipSpace)" using assms(1) by simp
  with Cons show ?case by (cases "scan_value s r") (auto simp del: scan1.simps)
qed simp

lemma scan_skip_states:
  assumes "spaces w"
  shows "scan_value (BeginValue, ps) (w @ r) = prefixed w (scan_value (BeginValue, ps) r)"
    and "scan_value (BeginString, ps) (w @ r) = prefixed w (scan_value (BeginString, ps) r)"
    and "scan_value (BeginStringOrEmpty, ps) (w @ r) = prefixed w (scan_value (BeginStringOrEmpty, ps) r)"
    and "scan_value (EndValue, p # ps) (w @ r) = prefixed w (scan_value (EndValue, p # ps) r)"
  by (rule scan_skip [OF _ assms];
      simp add: stateBeginValue_def stateBeginString_def stateEndValue_def)+

lemma check_skip: "spaces w \<Longrightarrow> check_loop (BeginValue, []) (w @ r) = check_loop (BeginValue, []) r"
  by (induction w) (simp_all add: stateBeginValue_def)

lemma checkValid_spaces: "spaces w \<Longrightarrow> checkValid (w @ v) = checkValid v"
  by (simp add: checkValid_def check_skip)

lemma dropWhile_spaces: "spaces w \<Longrightarrow> dropWhile isSpace (w @ v) = dropWhile isSpace v"
  by (induction w) simp_all

lemma valueText_spaces: "spaces w \<Longrightarrow> valueText (w @ v) = valueText v"
  by (simp add: valueText_def dropWhile_spaces)

lemma readValue_spaces: "spaces w \<Longrightarrow> readValue (w @ r) = prefixed w (readValue r)"
  by (simp add: readValue_def scan_skip_states)

lemma ends_value_spaces: "spaces w \<Longrightarrow> ends_value r \<Longrightarrow> ends_value (w @ r)"
  by (cases w) simp_all

section \<open>An indented object is one value\<close>

lemma scan_indented:
  assumes "members_ok n ms" and "ms \<noteq> []" and "length ps + Suc n \<le> maxNestingDepth"
    and "spaces nl" and "spaces w"
  shows "scan_value (BeginString, ParseObjectKey # ps)
      (separated (CHR '','' # nl) (map memberText ms) @ w @ CHR ''}'' # r)
    = prefixed (separated (CHR '','' # nl) (map memberText ms) @ w @ ''}'') (scan_value (EndValue, ps) r)"
  using assms(1,2)
proof (induction ms rule: membersText.induct)
  case (2 k v)
  then have k: "ascii k" and v: "json_text n v" by (simp_all add: members_ok_def)
  have "ends_value (w @ CHR ''}'' # r)" using assms(5) by (simp add: ends_value_spaces)
  then have "scan_value (BeginValue, ParseObjectValue # ps) (v @ w @ CHR ''}'' # r)
      = prefixed (v @ w @ ''}'') (scan_value (EndValue, ps) r)"
    using json_text_scan [OF v, of "ParseObjectValue # ps"] assms(3)
    by (simp add: scan_skip_states [OF assms(5)] scan_close_object del: scan_value.simps)
  moreover have "scan_value (BeginValue, ParseObjectValue # ps) (CHR '' '' # t)
      = prefixed '' '' (scan_value (BeginValue, ParseObjectValue # ps) t)" for t
    using scan_skip_states(1) [of "'' ''" _ t] by (simp add: isSpace_def del: scan_value.simps)
  ultimately show ?case
    by (simp add: memberText_def scan_key [OF k] del: scan_value.simps)
next
  case (3 k v m ms)
  then have k: "ascii k" and v: "json_text n v" and ms: "members_ok n (m # ms)"
    by (simp_all add: members_ok_def)
  let ?rest = "separated (CHR '','' # nl) (map memberText (m # ms))"
  have sp: "scan_value (BeginValue, ParseObjectValue # ps) (CHR '' '' # t)
      = prefixed '' '' (scan_value (BeginValue, ParseObjectValue # ps) t)" for t
    using scan_skip_states(1) [of "'' ''" _ t] by (simp add: isSpace_def del: scan_value.simps)
  have "scan_value (EndValue, ParseObjectValue # ps) (CHR '','' # t)
      = prefixed '','' (scan_value (BeginString, ParseObjectKey # ps) t)" for t
    by (simp add: stateEndValue_def isSpace_def)
  then have "scan_value (BeginValue, ParseObjectValue # ps) (v @ CHR '','' # nl @ ?rest @ w @ CHR ''}'' # r)
      = prefixed (v @ '','' @ nl @ ?rest @ w @ ''}'') (scan_value (EndValue, ps) r)"
    using json_text_scan [OF v, of "ParseObjectValue # ps"] assms(3) 3(1) [OF ms]
    by (simp add: scan_skip_states [OF assms(4)] del: scan_value.simps)
  then show ?case
    by (simp add: memberText_def scan_key [OF k] sp del: scan_value.simps)
qed simp

lemma indentObject_Cons:
  "ms \<noteq> [] \<Longrightarrow> indentObject d ms =
     CHR ''{'' # newline (Suc d) @ separated (CHR '','' # newline (Suc d)) (map memberText ms)
       @ newline d @ ''}''"
  by (simp add: indentObject_def indentBlock_def)

lemma separated_key:
  "ms \<noteq> [] \<Longrightarrow> \<exists>k t. separated sep (map memberText ms) = marshalString k @ t"
  by (cases ms rule: membersText.cases) (auto simp: memberText_def)

lemma json_text_indentObject:
  assumes "members_ok n ms"
  shows "json_text (Suc n) (indentObject d ms)"
proof (cases "ms = []")
  case True
  then have "indentObject d ms = objectText []" by (simp add: indentObject_def indentBlock_def objectText_def)
  then show ?thesis using json_text_objectText [of n "[]"] by (simp add: members_ok_def)
next
  case False
  let ?body = "separated (CHR '','' # newline (Suc d)) (map memberText ms)"
  obtain k t where k: "?body = marshalString k @ t" using separated_key [OF False] by blast
  show ?thesis
  proof (rule json_textI)
    fix ps :: "parse_state list" and r assume d: "length ps + Suc n \<le> maxNestingDepth"
    have "scan_value (BeginValue, ps) (CHR ''{'' # u)
        = prefixed ''{'' (scan_value (BeginStringOrEmpty, ParseObjectKey # ps) u)" for u
      using d by (simp add: stateBeginValue_def isSpace_def pushParseState_def)
    moreover have "scan_value (BeginStringOrEmpty, ParseObjectKey # ps) (?body @ u)
        = scan_value (BeginString, ParseObjectKey # ps) (?body @ u)" for u
      using scan_BeginStringOrEmpty_key by (simp add: k del: scan_value.simps)
    ultimately show "scan_value (BeginValue, ps) (indentObject d ms @ r)
        = prefixed (indentObject d ms) (scan_value (EndValue, ps) r)"
      using scan_indented [OF assms False d spaces_newline spaces_newline, of "Suc d" d r]
      by (simp add: indentObject_Cons [OF False] scan_skip_states del: scan_value.simps)
  qed (simp_all add: indentObject_Cons [OF False] isSpace_def)
qed

section \<open>Reading it\<close>

lemma readValue_key_spaces:
  "spaces w \<Longrightarrow> ascii k \<Longrightarrow> readValue (w @ marshalString k @ r) = Some (w @ marshalString k, r)"
  by (simp add: readValue_spaces readValue_string)

lemma splitMembers_indented:
  assumes "members_ok n ms" and "ms \<noteq> []" and "n \<le> maxNestingDepth" and "spaces nl" and "spaces w"
  shows "splitMembers (nl @ separated (CHR '','' # nl) (map memberText ms) @ w @ CHR ''}'' # r)
    = Some (map (\<lambda>(k, v). (nl @ marshalString k, CHR '' '' # v)) ms)"
  using assms(1,2)
proof (induction ms rule: membersText.induct)
  case (2 k v)
  then have k: "ascii k" and v: "json_text n v" by (simp_all add: members_ok_def)
  have "readValue (v @ w @ CHR ''}'' # r) = Some (v, w @ CHR ''}'' # r)"
    using json_text_readValue [OF v assms(3)] ends_value_spaces [OF assms(5)] by simp
  then have "readValue (CHR '' '' # v @ w @ CHR ''}'' # r) = Some (CHR '' '' # v, w @ CHR ''}'' # r)"
    using readValue_spaces [of "'' ''"] by (simp add: isSpace_def)
  then show ?case
    using readValue_key_spaces [OF assms(4) k]
    by (subst splitMembers.simps) (simp add: memberText_def dropWhile_spaces [OF assms(5)])
next
  case (3 k v m ms)
  then have k: "ascii k" and v: "json_text n v" and ms: "members_ok n (m # ms)"
    by (simp_all add: members_ok_def)
  let ?t = "nl @ separated (CHR '','' # nl) (map memberText (m # ms)) @ w @ CHR ''}'' # r"
  have "readValue (v @ CHR '','' # ?t) = Some (v, CHR '','' # ?t)"
    using json_text_readValue [OF v assms(3)] by simp
  then have "readValue (CHR '' '' # v @ CHR '','' # ?t) = Some (CHR '' '' # v, CHR '','' # ?t)"
    using readValue_spaces [of "'' ''"] by (simp add: isSpace_def)
  then show ?case
    using 3(1) [OF ms] readValue_key_spaces [OF assms(4) k]
    by (subst splitMembers.simps) (simp add: memberText_def)
qed simp

text \<open>A decoder of one field that does not mind white space before its value.\<close>

definition skips_space :: "'s field_decoder \<Rightarrow> bool" where
  "skips_space f \<longleftrightarrow> (\<forall>v s. f (CHR '' '' # v) s = f v s)"

lemma valueText_space: "valueText (CHR '' '' # v) = valueText v" "checkValid (CHR '' '' # v) = checkValid v"
  using valueText_spaces [of "'' ''" v] checkValid_spaces [of "'' ''" v] by (simp_all add: isSpace_def)

lemma skips_space_unmarshal:
  "skips_space unmarshalString" "skips_space unmarshalBool" "skips_space unmarshalInt"
  by (simp_all add: skips_space_def unmarshalString_def unmarshalBool_def unmarshalInt_def valueText_space)

lemma structField_space:
  assumes "list_all (\<lambda>(n, f). skips_space f) fs"
  shows "structField fs k (CHR '' '' # v) s = structField fs k v s"
proof -
  have "skips_space f" if "(n, f) \<in> set fs" for n f using that assms by (auto simp: list_all_iff)
  moreover have "x \<in> set fs" if "find P fs = Some x" for P x
    using that unfolding find_Some_iff by (metis nth_mem)
  ultimately show ?thesis
    by (fastforce simp: structField_def skips_space_def dest: map_of_SomeD split: option.split)
qed

lemma applyMembers_indented:
  assumes "list_all (\<lambda>(n, f). skips_space f) fs" and "members_ok n ms" and "spaces nl"
  shows "applyMembers fs (map (\<lambda>(k, v). (nl @ marshalString k, CHR '' '' # v)) ms) s = applyFields fs ms s"
  using assms(2)
proof (induction ms arbitrary: s)
  case (Cons p ms)
  obtain k v where p: "p = (k, v)" by (cases p)
  then have k: "ascii k" and ms: "members_ok n ms" using Cons.prems by (simp_all add: members_ok_def)
  have "applyMembers fs (map (\<lambda>(k, v). (nl @ marshalString k, CHR '' '' # v)) ms) = applyFields fs ms"
    using Cons.IH [OF ms] by blast
  with p k show ?case
    by (simp add: unquote_marshalString valueText_spaces [OF assms(3)] structField_space [OF assms(1)])
qed simp

theorem decodeStruct_indentObject:
  assumes "list_all (\<lambda>(n, f). skips_space f) fs" and "members_ok n ms" and "n < maxNestingDepth"
  shows "decodeStruct fs (indentObject d ms) s = applyFields fs ms s"
proof -
  have v: "checkValid (indentObject d ms)" "valueText (indentObject d ms) = indentObject d ms"
    using json_text_valid [OF json_text_indentObject [OF assms(2)]] assms(3) by auto
  show ?thesis
  proof (cases "ms = []")
    case True
    then show ?thesis using v by (simp add: decodeStruct_def indentObject_def indentBlock_def)
  next
    case False
    let ?body = "separated (CHR '','' # newline (Suc d)) (map memberText ms) @ newline d @ ''}''"
    obtain k t where "?body = marshalString k @ t" using separated_key [OF False] by (metis append.assoc)
    then have "\<not> hasPrefix (dropWhile isSpace (newline (Suc d) @ ?body)) ''}''"
      by (simp add: dropWhile_spaces marshalString_def)
    moreover have "splitMembers (newline (Suc d) @ ?body)
        = Some (map (\<lambda>(k, v). (newline (Suc d) @ marshalString k, CHR '' '' # v)) ms)"
      using splitMembers_indented [OF assms(2) False _ spaces_newline spaces_newline] assms(3) by simp
    ultimately show ?thesis
      using v applyMembers_indented [OF assms(1,2) spaces_newline]
      by (simp add: decodeStruct_def indentObject_Cons [OF False] del: applyMembers.simps)
  qed
qed

end
