(* ===== verification/Main_Cli.thy ===== *)
theory Main_Cli
  imports Cli_Raw Go_Duration Wg_Generator Json_Indent
begin

text \<open>
  \<open>main.go\<close>: the dispatch between constrained mode, the listing of regions and the default
  action, and the two ordinary actions with everything they print and write. A run is its
  outcome and its events in order, the lines that \<open>--verbose\<close> adds to the log among them; the
  time stamp of a log line is left out.
\<close>

section \<open>Output\<close>

definition metadataFields :: "metadata \<Rightarrow> raw_fields" where
  "metadataFields m =
     [(''region'', marshalString (mdRegion m)),
      (''port_forward_enabled'', marshalBool (mdPortForwardEnabled m))]
     @ (if mdWireguardConfig m = [] then []
        else [(''wireguard_config'', marshalString (mdWireguardConfig m))])
     @ [(''endpoint_host'', marshalString (mdEndpointHost m)),
        (''endpoint_port'', marshalInt (mdEndpointPort m))]
     @ (if mdPortForwardGateway m = [] then []
        else [(''port_forward_gateway'', marshalString (mdPortForwardGateway m))])"

definition metadataJSON :: "metadata \<Rightarrow> bytes" where
  "metadataJSON m = indentObject 0 (metadataFields m)"

definition regionFields :: "regionInfo \<Rightarrow> raw_fields" where
  "regionFields r =
     [(''id'', marshalString (rgID r)), (''name'', marshalString (rgName r)),
      (''country'', marshalString (rgCountry r)), (''port_forward'', marshalBool (rgPortForward r)),
      (''geo'', marshalBool (rgGeo r)), (''offline'', marshalBool (rgOffline r))]"

definition regionsJSON :: "regionInfo list \<Rightarrow> bytes" where
  "regionsJSON rs = indentArray 0 (map (\<lambda>r. indentObject 1 (regionFields r)) rs)"

definition padRight :: "nat \<Rightarrow> bytes \<Rightarrow> bytes" where
  \<comment> \<open>\<open>%-ns\<close>: padded with spaces to \<open>n\<close> runes\<close>
  "padRight n s = s @ replicate (n - length (runes s)) (CHR '' '')"

definition regionLine :: "regionInfo \<Rightarrow> bytes" where
  "regionLine r =
     padRight 35 (rgID r) @ '' '' @ padRight 35 (rgName r)
     @ '' country='' @ padRight 4 (rgCountry r)
     @ '' port-forward='' @ padRight 5 (marshalBool (rgPortForward r))
     @ '' geo='' @ padRight 5 (marshalBool (rgGeo r))
     @ '' offline='' @ marshalBool (rgOffline r) @ [LF]"

section \<open>The environment and the events\<close>

datatype file_write =
    FileWritten | OpenFileFails os_errno | FileWriteFails nat os_errno | FileCloseFails os_errno

record main_env =
  mePolicy :: policy_env
  meFs :: fs
  meNewFile :: "int \<Rightarrow> fd_input option"
  meWeb :: net_client                     \<comment> \<open>the default client of \<open>net/http\<close>\<close>
  mePia :: pia_env
  meKeys :: wg_keys
  meSort :: "regionInfo slice_sorter"
  meWriteFile :: "bytes \<Rightarrow> file_write"
  meStdout :: "os_errno option"
  meLinux :: bool
  meFds :: fd_table
  meRun :: run_env

datatype main_event =
    MPolicy policy_run            \<comment> \<open>the server list was fetched or read from the cache\<close>
  | MPia pia_event                \<comment> \<open>a request of the registration\<close>
  | MLog bytes                    \<comment> \<open>a log line, on standard error\<close>
  | MStdout bytes                 \<comment> \<open>handed to standard output\<close>
  | MWriteFile bytes bytes        \<comment> \<open>path and bytes written, mode 0644 when created\<close>
  | MConstrained run_event

datatype main_error =
    BadCredentials credential_error | InvalidCacheTTL | InvalidCacheMaxAge
  | ClientFails client_error | GenerateFails generate_error | ListFails list_error
  | WriteFileFails os_errno | StdoutFails os_errno | SocketMarkOutside

datatype main_outcome =
    MainOk | MainFails main_error | MainPanics | MainUsage flag_error | MainHelp
  | MainConstrained constrainedClass

type_synonym main_run = "main_outcome \<times> main_event list"

definition writeFile :: "main_env \<Rightarrow> bytes \<Rightarrow> bytes \<Rightarrow> os_errno option \<times> main_event list" where
  \<comment> \<open>\<open>os.WriteFile\<close>\<close>
  "writeFile env path data =
     (case meWriteFile env path of
        OpenFileFails e \<Rightarrow> (Some e, [])
      | FileWriteFails k e \<Rightarrow> (Some e, [MWriteFile path (take k data)])
      | FileCloseFails e \<Rightarrow> (Some e, [MWriteFile path data])
      | FileWritten \<Rightarrow> (None, [MWriteFile path data]))"

section \<open>The actions\<close>

definition serverListOptionsOf :: "cliContext \<Rightarrow> main_error + serverListOptions" where
  "serverListOptionsOf c =
     (case parseDuration (stringFlag c ''serverlist-cache-ttl'') of
        None \<Rightarrow> Inl InvalidCacheTTL
      | Some ttl \<Rightarrow>
          (case parseDuration (stringFlag c ''serverlist-cache-max-age'') of
             None \<Rightarrow> Inl InvalidCacheMaxAge
           | Some maxAge \<Rightarrow>
               Inr \<lparr>soCachePath = stringFlag c ''serverlist-cache'', soCacheTTL = ttl,
                    soCacheMaxAge = maxAge, soForceRefresh = boolFlag c ''serverlist-force-refresh'',
                    soFetchRetries = intFlag c ''serverlist-fetch-retries''\<rparr>))"

definition listOutput :: "bool \<Rightarrow> regionInfo list \<Rightarrow> main_event list" where
  "listOutput printJSON rs =
     (if printJSON then [MStdout (regionsJSON rs @ [LF])] else map (\<lambda>r. MStdout (regionLine r)) rs)"

definition listRegionsAction :: "main_env \<Rightarrow> cliContext \<Rightarrow> main_run" where
  "listRegionsAction env c =
     (case serverListOptionsOf c of
        Inl e \<Rightarrow> (MainFails e, [])
      | Inr opts \<Rightarrow>
          (let (r, run) = listRegions (meSort env) (mePolicy env) opts (boolFlag c ''verbose'') (meFs env) in
           case r of
             Inl e \<Rightarrow> (MainFails (ListFails e), [MPolicy run])
           | Inr regions \<Rightarrow>
               (let shown = (if boolFlag c ''port-forwarding'' then filter rgPortForward regions else regions)
                in (MainOk, MPolicy run # listOutput (boolFlag c ''json'') shown))))"

definition writeMetadata :: "main_env \<Rightarrow> bytes \<Rightarrow> bytes \<Rightarrow> main_run" where
  "writeMetadata env metadataFile metadataBytes =
     (if metadataFile = [] then (MainOk, [])
      else
        (case writeFile env metadataFile metadataBytes of
           (Some e, evs) \<Rightarrow> (MainFails (WriteFileFails e), evs)
         | (None, evs) \<Rightarrow> (MainOk, evs)))"

definition afterEvents :: "main_event list \<Rightarrow> main_run \<Rightarrow> main_run" where
  "afterEvents evs r = (fst r, evs @ snd r)"

definition printMetadata :: "main_env \<Rightarrow> bool \<Rightarrow> bytes \<Rightarrow> metadata \<Rightarrow> main_run" where
  \<comment> \<open>from \<open>metadataBytes\<close> on\<close>
  "printMetadata env printJSON metadataFile m =
     (if printJSON then
        (case meStdout env of
           Some e \<Rightarrow> (MainFails (StdoutFails e), [])
         | None \<Rightarrow>
             afterEvents [MStdout (metadataJSON m @ [LF])] (writeMetadata env metadataFile (metadataJSON m)))
      else writeMetadata env metadataFile (metadataJSON m))"

definition writeOutputs :: "main_env \<Rightarrow> cliContext \<Rightarrow> bytes \<Rightarrow> metadata \<Rightarrow> main_run" where
  \<comment> \<open>\<open>defaultAction\<close> from \<open>metadata.WireguardConfig = outfile\<close> on\<close>
  "writeOutputs env c config metadata0 =
     (let outfile = stringFlag c ''outfile'';
          printJSON = boolFlag c ''json'';
          m = metadata0\<lparr>mdWireguardConfig := outfile\<rparr>;
          finish = printMetadata env printJSON (stringFlag c ''metadata-file'') m
      in
      if outfile \<noteq> [] then
        (case writeFile env outfile config of
           (Some e, evs) \<Rightarrow> (MainFails (WriteFileFails e), evs)
         | (None, evs) \<Rightarrow> afterEvents evs finish)
      else if \<not> printJSON then afterEvents [MLog (config @ [LF])] finish
      else finish)"

definition verboseLog :: "cliContext \<Rightarrow> bytes \<Rightarrow> main_event list" where
  "verboseLog c t = (if boolFlag c ''verbose'' then [MLog (t @ [LF])] else [])"

definition generatorOf :: "cliContext \<Rightarrow> wgGenerator" where
  "generatorOf c = newPIAWgGenerator
     \<lparr>gcVerbose = boolFlag c ''verbose'', gcServerName = boolFlag c ''server'', gcPrivateKey = [], gcPublicKey = [],
      gcRegion = stringFlag c ''region'', gcPortForwarding = boolFlag c ''port-forwarding''\<rparr>"

definition generateAction :: "main_env \<Rightarrow> cliContext \<Rightarrow> piaClient \<Rightarrow> main_run" where
  \<comment> \<open>\<open>defaultAction\<close> when the client has been created\<close>
  "generateAction env c p =
     afterEvents (verboseLog c ''creating wg config generator'' @ verboseLog c ''Generating wireguard config'')
       (let (r, p1, evs) = generate (meKeys env) (piaApi (meWeb env) (mePia env)) p (generatorOf c) in
        afterEvents (map MPia evs)
          (case r of
             None \<Rightarrow> (MainPanics, [])
           | Some (Inl e) \<Rightarrow> (MainFails (GenerateFails e), [])
           | Some (Inr (config, m)) \<Rightarrow> writeOutputs env c config m))"

definition defaultAction :: "main_env \<Rightarrow> cliContext \<Rightarrow> main_run" where
  "defaultAction env c =
     (case credentialsFromInvocation (meNewFile env) (isSet c ''credentials-fd'')
             (intFlag c ''credentials-fd'') (ctxArgs c) of
        Inl e \<Rightarrow> (MainFails (BadCredentials e), [])
      | Inr creds \<Rightarrow>
          (case serverListOptionsOf c of
             Inl e \<Rightarrow> (MainFails e, [])
           | Inr opts \<Rightarrow>
               (let (r, run) = newPIAClient (mePolicy env) (meFs env) (username creds) (password creds)
                      (stringFlag c ''region'') (boolFlag c ''verbose'') (boolFlag c ''port-forwarding'') opts
                in
                afterEvents (verboseLog c ''Creating PIA client'' @ [MPolicy run])
                  (case r of
                     Inl e \<Rightarrow> (MainFails (ClientFails e), [])
                   | Inr p \<Rightarrow> generateAction env c p))))"

definition constrainedRun :: "constrainedClass option \<times> run_event list \<Rightarrow> main_run" where
  \<comment> \<open>the exit error of the constrained mode ends the process with its status\<close>
  "constrainedRun r =
     (case fst r of None \<Rightarrow> MainOk | Some cls \<Rightarrow> MainConstrained cls, map MConstrained (snd r))"

definition mainAction :: "main_env \<Rightarrow> cliContext \<Rightarrow> main_run" where
  "mainAction env c =
     (if constrainedRequested c
      then constrainedRun (constrainedAction (meLinux env) (meFds env) (meRun env) c)
      else if rejectSocketMarkOutsideConstrainedMode c then (MainFails SocketMarkOutside, [])
      else if boolFlag c ''list-regions'' then listRegionsAction env c
      else defaultAction env c)"

definition mainProgram :: "main_env \<Rightarrow> bytes list \<Rightarrow> main_run" where
  "mainProgram env0 args =
     (let env = env0\<lparr>meRun := (meRun env0)\<lparr>reOsArgs := args\<rparr>\<rparr> in
      if rawConstrainedRequested args
      then constrainedRun (constrainedActionFromRawArgs (meLinux env) (meFds env) (meRun env) args)
      else
        (case cliRun mainFlags args of
           CliUsage e \<Rightarrow> (MainUsage e, [])
         | CliHelp \<Rightarrow> (MainHelp, [])
         | CliAction c \<Rightarrow> mainAction env c))"

section \<open>Constrained mode is separate\<close>

fun isConstrainedEvent :: "main_event \<Rightarrow> bool" where
  "isConstrainedEvent (MConstrained e) = True"
| "isConstrainedEvent _ = False"

lemma constrainedRun_events:
  "constrainedRun r = (outcome, evs) \<Longrightarrow> e \<in> set evs \<Longrightarrow> isConstrainedEvent e"
  by (auto simp: constrainedRun_def)

text \<open>
  C6: the two modes do not mix. As soon as an invocation asks for constrained mode, in the
  raw scan or in the context of the command-line library, everything the process does is
  done by the constrained runner: no cache file, no server list, no ordinary network
  request, no file written by name, nothing on standard output. And outside constrained
  mode a socket mark is refused before anything has happened.
\<close>

theorem constrained_mode_separate:
  assumes "mainProgram env args = (outcome, evs)" and "e \<in> set evs" and "\<not> isConstrainedEvent e"
  shows "\<not> rawConstrainedRequested args
    \<and> (\<exists>c. cliRun mainFlags args = CliAction c \<and> \<not> constrainedRequested c \<and> \<not> isSet c ''socket-mark'')"
proof -
  have raw: "\<not> rawConstrainedRequested args"
    using assms by (auto simp: mainProgram_def Let_def dest: constrainedRun_events)
  then obtain c where c: "cliRun mainFlags args = CliAction c"
      and run: "mainAction (env\<lparr>meRun := (meRun env)\<lparr>reOsArgs := args\<rparr>\<rparr>) c = (outcome, evs)"
    using assms(1,2) by (auto simp: mainProgram_def Let_def split: cli_outcome.splits)
  have "\<not> constrainedRequested c"
    using run assms(2,3) by (auto simp: mainAction_def dest: constrainedRun_events)
  moreover have "\<not> isSet c ''socket-mark''"
    using run assms(2) calculation by (auto simp: mainAction_def rejectSocketMarkOutsideConstrainedMode_def)
  ultimately show ?thesis using raw c by blast
qed

section \<open>What an ordinary run leaves behind\<close>

fun isOutput :: "main_event \<Rightarrow> bool" where
  "isOutput (MLog t) = True"
| "isOutput (MStdout t) = True"
| "isOutput (MWriteFile p t) = True"
| "isOutput _ = False"

lemma writeFile_ok: "writeFile env path data = (None, evs) \<Longrightarrow> evs = [MWriteFile path data]"
  by (auto simp: writeFile_def split: file_write.splits)

lemma writeMetadata_ok:
  "fst (writeMetadata env path data) = MainOk \<Longrightarrow>
     snd (writeMetadata env path data) = (if path = [] then [] else [MWriteFile path data])"
  by (auto simp: writeMetadata_def split: if_splits prod.splits option.splits dest: writeFile_ok)

lemma printMetadata_ok:
  "fst (printMetadata env j path m) = MainOk \<Longrightarrow>
     snd (printMetadata env j path m) = (if j then [MStdout (metadataJSON m @ [LF])] else [])
       @ (if path = [] then [] else [MWriteFile path (metadataJSON m)])"
  using writeMetadata_ok [of env path "metadataJSON m"]
  by (auto simp: printMetadata_def afterEvents_def split: if_splits option.splits)

lemma writeOutputs_ok:
  assumes "writeOutputs env c config m = (MainOk, evs)"
  shows "evs =
    (if stringFlag c ''outfile'' \<noteq> [] then [MWriteFile (stringFlag c ''outfile'') config]
     else if boolFlag c ''json'' then [] else [MLog (config @ [LF])])
    @ (if boolFlag c ''json''
       then [MStdout (metadataJSON (m\<lparr>mdWireguardConfig := stringFlag c ''outfile''\<rparr>) @ [LF])] else [])
    @ (if stringFlag c ''metadata-file'' = [] then []
       else [MWriteFile (stringFlag c ''metadata-file'')
               (metadataJSON (m\<lparr>mdWireguardConfig := stringFlag c ''outfile''\<rparr>))])"
proof -
  let ?m = "m\<lparr>mdWireguardConfig := stringFlag c ''outfile''\<rparr>"
  let ?finish = "printMetadata env (boolFlag c ''json'') (stringFlag c ''metadata-file'') ?m"
  have ok: "fst ?finish = MainOk"
    and evs: "evs = (if stringFlag c ''outfile'' \<noteq> [] then [MWriteFile (stringFlag c ''outfile'') config]
       else if boolFlag c ''json'' then [] else [MLog (config @ [LF])]) @ snd ?finish"
    using assms
    by (auto simp: writeOutputs_def Let_def afterEvents_def split: if_splits prod.splits option.splits
        dest!: writeFile_ok)
  show ?thesis unfolding evs printMetadata_ok [OF ok] ..
qed

lemma afterEvents_iff: "afterEvents es r = (x, evs) \<longleftrightarrow> (\<exists>evs1. r = (x, evs1) \<and> evs = es @ evs1)"
  by (cases r) (auto simp: afterEvents_def)

definition outputsOf :: "cliContext \<Rightarrow> bytes \<Rightarrow> metadata \<Rightarrow> main_event list" where
  \<comment> \<open>the specification: what a successful run leaves behind for a configuration and its metadata\<close>
  "outputsOf c config m =
     (let outfile = stringFlag c ''outfile'';
          metadataFile = stringFlag c ''metadata-file'';
          text = metadataJSON (m\<lparr>mdWireguardConfig := outfile\<rparr>)
      in
      (if outfile \<noteq> [] then [MWriteFile outfile config]
       else if boolFlag c ''json'' then [] else [MLog (config @ [LF])])
      @ (if boolFlag c ''json'' then [MStdout (text @ [LF])] else [])
      @ (if metadataFile = [] then [] else [MWriteFile metadataFile text]))"

text \<open>
  C13: a default run that succeeds has generated one configuration, and afterwards left
  exactly this besides the lines that \<open>--verbose\<close> adds to the log: the configuration in the
  output file, or on the log when there is neither an output file nor \<open>--json\<close>; then the metadata of the same generation on standard output
  with \<open>--json\<close>, and in the metadata file when one is named. But for the cache of the server
  list nothing is written before the generation has succeeded, metadata is only written after the configuration, and the
  configuration, which holds the private key, is never put on standard output.
\<close>

theorem default_run_outputs:
  assumes "defaultAction env c = (MainOk, evs)"
  shows "\<exists>creds opts p run config m p1 reqs.
    credentialsFromInvocation (meNewFile env) (isSet c ''credentials-fd'') (intFlag c ''credentials-fd'')
      (ctxArgs c) = Inr creds
    \<and> serverListOptionsOf c = Inr opts
    \<and> newPIAClient (mePolicy env) (meFs env) (username creds) (password creds) (stringFlag c ''region'')
      (boolFlag c ''verbose'') (boolFlag c ''port-forwarding'') opts = (Inr p, run)
    \<and> generate (meKeys env) (piaApi (meWeb env) (mePia env)) p (generatorOf c)
        = (Some (Inr (config, m)), p1, reqs)
    \<and> evs = verboseLog c ''Creating PIA client'' @ [MPolicy run]
        @ verboseLog c ''creating wg config generator'' @ verboseLog c ''Generating wireguard config''
        @ map MPia reqs @ outputsOf c config m
    \<and> (\<forall>t. MStdout t \<in> set evs \<longrightarrow>
         t = metadataJSON (m\<lparr>mdWireguardConfig := stringFlag c ''outfile''\<rparr>) @ [LF])"
proof -
  obtain creds opts p run evs1
    where opts: "credentialsFromInvocation (meNewFile env) (isSet c ''credentials-fd'')
        (intFlag c ''credentials-fd'') (ctxArgs c) = Inr creds" "serverListOptionsOf c = Inr opts"
      and client: "newPIAClient (mePolicy env) (meFs env) (username creds) (password creds)
        (stringFlag c ''region'') (boolFlag c ''verbose'') (boolFlag c ''port-forwarding'') opts = (Inr p, run)"
      and gen: "generateAction env c p = (MainOk, evs1)"
      and evs: "evs = verboseLog c ''Creating PIA client'' @ MPolicy run # evs1"
    using assms by (auto simp: defaultAction_def afterEvents_iff split: sum.splits prod.splits)
  obtain config m p1 reqs out
    where g: "generate (meKeys env) (piaApi (meWeb env) (mePia env)) p (generatorOf c)
        = (Some (Inr (config, m)), p1, reqs)"
      and w: "writeOutputs env c config m = (MainOk, out)"
      and evs1: "evs1 = (verboseLog c ''creating wg config generator'' @ verboseLog c ''Generating wireguard config'')
        @ map MPia reqs @ out"
    using gen by (auto simp: generateAction_def afterEvents_iff split: sum.splits option.splits prod.splits)
  have "out = outputsOf c config m"
    using writeOutputs_ok [OF w] by (simp add: outputsOf_def Let_def)
  then show ?thesis
    using opts client g evs evs1
    by (intro exI conjI) (auto simp: outputsOf_def Let_def verboseLog_def split: if_splits)
qed

section \<open>The listing\<close>

text \<open>
  C35: a listing that succeeds prints every region of the server list exactly once, or with
  \<open>--port-forwarding\<close> every region that supports it, ordered by country and ID; it uses no
  credentials, contacts nothing but the server list, and writes no file of its own.
\<close>

theorem list_regions_output:
  assumes "slice_sort (meSort env)" and "listRegionsAction env c = (MainOk, evs)"
  shows "\<exists>opts run data sl rs.
    run = fetchServerListWithPolicy (mePolicy env) opts (boolFlag c ''verbose'') (meFs env)
    \<and> prResult run = Inr data \<and> parseServerList data = Inr sl
    \<and> evs = MPolicy run # listOutput (boolFlag c ''json'') rs
    \<and> mset rs = filter_mset (\<lambda>r. boolFlag c ''port-forwarding'' \<longrightarrow> rgPortForward r)
        (mset (map infoOf (elems (slRegions sl))))
    \<and> sorted (map regionKey rs)"
proof -
  obtain opts run data sl
    where run: "run = fetchServerListWithPolicy (mePolicy env) opts (boolFlag c ''verbose'') (meFs env)" "prResult run = Inr data"
      and sl: "parseServerList data = Inr sl"
      and evs: "evs = MPolicy run # listOutput (boolFlag c ''json'')
        (let all = meSort env regionLess (map infoOf (elems (slRegions sl))) in
         if boolFlag c ''port-forwarding'' then filter rgPortForward all else all)"
    using assms(2)
    by (auto simp: listRegionsAction_def listRegions_def listRegionsOf_def Let_def
        split: sum.splits prod.splits if_splits)
  let ?all = "meSort env regionLess (map infoOf (elems (slRegions sl)))"
  have all: "mset ?all = mset (map infoOf (elems (slRegions sl)))"
    using slice_sort.permutes [OF assms(1)] by blast
  have sorted: "sorted (map regionKey ?all)"
    using slice_sort.sorted_keys [OF assms(1) regionLess_weak regionLess_key] by simp
  define rs where "rs = (if boolFlag c ''port-forwarding'' then filter rgPortForward ?all else ?all)"
  have "mset rs = filter_mset (\<lambda>r. boolFlag c ''port-forwarding'' \<longrightarrow> rgPortForward r)
      (mset (map infoOf (elems (slRegions sl))))"
    unfolding all [symmetric] rs_def by simp
  moreover have "sorted (map regionKey rs)"
    unfolding rs_def using sorted by (simp add: sorted_filter)
  moreover have "evs = MPolicy run # listOutput (boolFlag c ''json'') rs"
    unfolding evs rs_def by (simp add: Let_def)
  ultimately show ?thesis using run sl by blast
qed

section \<open>The metadata is readable\<close>

definition metadataDecoders :: "(bytes \<times> metadata field_decoder) list" where
  \<comment> \<open>the struct tags of \<open>Metadata\<close>\<close>
  "metadataDecoders =
     [(''region'', stringField mdRegion mdRegion_update),
      (''port_forward_enabled'', boolField mdPortForwardEnabled mdPortForwardEnabled_update),
      (''wireguard_config'', stringField mdWireguardConfig mdWireguardConfig_update),
      (''endpoint_host'', stringField mdEndpointHost mdEndpointHost_update),
      (''endpoint_port'', subField unmarshalInt mdEndpointPort mdEndpointPort_update),
      (''port_forward_gateway'', stringField mdPortForwardGateway mdPortForwardGateway_update)]"

definition zeroMetadata :: metadata where
  "zeroMetadata = \<lparr>mdRegion = [], mdPortForwardEnabled = False, mdWireguardConfig = [],
     mdEndpointHost = [], mdEndpointPort = 0, mdPortForwardGateway = []\<rparr>"

definition wf_metadata :: "metadata \<Rightarrow> bool" where
  "wf_metadata m \<longleftrightarrow> ascii (mdRegion m) \<and> ascii (mdWireguardConfig m) \<and> ascii (mdEndpointHost m)
     \<and> ascii (mdPortForwardGateway m) \<and> - (2 ^ 63) \<le> mdEndpointPort m \<and> mdEndpointPort m < 2 ^ 63"

lemma skips_space_metadata: "list_all (\<lambda>(n, f). skips_space f) metadataDecoders"
  using skips_space_unmarshal
  by (simp add: metadataDecoders_def stringField_def boolField_def subField_def skips_space_def)

lemma metadataFields_ok: "wf_metadata m \<Longrightarrow> members_ok 0 (metadataFields m)"
  by (simp add: wf_metadata_def metadataFields_def members_ok_def json_text_marshalString
      json_text_marshalBool json_text_marshalInt)

text \<open>
  C34: metadata whose texts are ASCII and whose port is in the range of \<open>int64\<close> (\<open>wf_metadata\<close>) are
  read back from what the program prints and writes: decoding the indented JSON text into the
  struct gives every field of the metadata, the omitted empty ones included. Texts that are not
  ASCII are not covered: one that is not UTF-8, such as the path of \<open>--outfile\<close> may be, is
  written with U+FFFD in place of the bad bytes and does not come back.
\<close>

theorem metadata_roundtrip:
  assumes "wf_metadata m"
  shows "decodeStruct metadataDecoders (metadataJSON m) zeroMetadata = Some m"
proof -
  have "decodeStruct metadataDecoders (metadataJSON m) zeroMetadata
      = applyFields metadataDecoders (metadataFields m) zeroMetadata"
    unfolding metadataJSON_def
    by (rule decodeStruct_indentObject [OF skips_space_metadata metadataFields_ok [OF assms]])
      (simp add: maxNestingDepth_def)
  also have "\<dots> = Some m"
    using assms
    by (auto simp: wf_metadata_def metadataFields_def structField_def metadataDecoders_def stringField_def
        boolField_def subField_def str.dec_enc bool.dec_enc int.dec_enc zeroMetadata_def)
  finally show ?thesis .
qed

definition exampleMetadata :: metadata where
  "exampleMetadata = zeroMetadata\<lparr>mdRegion := ''ca'', mdEndpointPort := 1337\<rparr>"

theorem metadata_roundtrip_witness:
  "decodeStruct metadataDecoders (metadataJSON exampleMetadata) zeroMetadata = Some exampleMetadata"
  by (rule metadata_roundtrip) (simp add: wf_metadata_def exampleMetadata_def zeroMetadata_def)

section \<open>The defaults\<close>

lemma plain_parse:
  assumes "u = [] \<or> hd u \<noteq> CHR ''-''"
  shows "flagParse f (u # rest) = Inr (f, u # rest)"
  using assms by (auto simp: flagParse.simps [of f "u # rest"] parseOne_def)

lemma default_texts:
  "list_all (\<lambda>(n, v). flagString (newFlagSet (mainFlags @ [helpFlag])) n = v)
     [(''outfile'', []), (''region'', ''ca_toronto''), (''metadata-file'', []), (''serverlist-cache'', []),
      (''serverlist-cache-ttl'', ''24h''), (''serverlist-cache-max-age'', ''168h''),
      (''serverlist-force-refresh'', ''false''), (''serverlist-fetch-retries'', ''5''), (''json'', ''false''),
      (''list-regions'', ''false''), (''help'', ''false''), (''h'', ''false'')]"
  by code_simp

lemma default_retries: "parseInt0 ''5'' = Some 5"
  by code_simp

lemma user_password_invocation:
  assumes "u = [] \<or> hd u \<noteq> CHR ''-''" and "u \<noteq> ''help''" and "u \<noteq> ''h''"
    and "rawFlagName p \<notin> set requestNames"
  shows "\<exists>c. mainProgram env [u, p] = defaultAction (env\<lparr>meRun := (meRun env)\<lparr>reOsArgs := [u, p]\<rparr>\<rparr>) c
    \<and> credentialsFromInvocation newFile (isSet c ''credentials-fd'') (intFlag c ''credentials-fd'') (ctxArgs c)
        = Inr \<lparr>username = u, password = p\<rparr>
    \<and> serverListOptionsOf c = Inr \<lparr>soCachePath = [], soCacheTTL = 24 * hour, soCacheMaxAge = 168 * hour,
        soForceRefresh = False, soFetchRetries = 5\<rparr>
    \<and> stringFlag c ''region'' = ''ca_toronto''
    \<and> (\<forall>config m. outputsOf c config m = [MLog (config @ [LF])])"
proof -
  let ?flags = "mainFlags @ [helpFlag]"
  define c where "c = cliContextOf ?flags (newFlagSet ?flags) [u, p]"
  have norm: "normalizeFlags ?flags (newFlagSet ?flags) = Inr (newFlagSet ?flags)"
    unfolding normalizeFlags_def by (rule normalize_loop_id) (simp add: newFlagSet_def)
  note str = default_texts [unfolded list.pred_inject prod.case]
  have set: "\<not> isSet c n" for n
    by (auto simp: c_def cliContextOf_def cliIsSet_def newFlagSet_def list_ex_iff split: option.splits)
  have run: "cliRun mainFlags [u, p] = CliAction c"
    unfolding cliRun_def Let_def plain_parse [OF assms(1)] sum.case prod.case norm
    using assms(2,3) str
    by (simp add: c_def cliContextOf_def flagNames_def helpFlag_def boolFlagDecl_def parseBool_def)
  have "\<not> rawConstrainedRequested [u, p]"
  proof -
    have "rawFlagName u = []" using assms(1) by (cases u) (auto simp: rawFlagName_def hasPrefix_iff)
    then show ?thesis using assms(4) by (auto simp: requestNames_def)
  qed
  moreover have "\<not> constrainedRequested c" using set by (simp add: constrainedRequested_def list_ex_iff)
  moreover have "\<not> boolFlag c ''list-regions''"
    using str by (simp add: c_def cliContextOf_def parseBool_def)
  ultimately have "mainProgram env [u, p] = defaultAction (env\<lparr>meRun := (meRun env)\<lparr>reOsArgs := [u, p]\<rparr>\<rparr>) c"
    using run set by (simp add: mainProgram_def mainAction_def rejectSocketMarkOutsideConstrainedMode_def)
  moreover have "serverListOptionsOf c = Inr \<lparr>soCachePath = [], soCacheTTL = 24 * hour,
      soCacheMaxAge = 168 * hour, soForceRefresh = False, soFetchRetries = 5\<rparr>"
    using default_durations default_retries
    by (simp add: serverListOptionsOf_def c_def cliContextOf_def str parseBool_def hour_def second_def)
  moreover have "outputsOf c config m = [MLog (config @ [LF])]" for config m
    by (simp add: outputsOf_def Let_def c_def cliContextOf_def str parseBool_def)
  moreover have "stringFlag c ''region'' = ''ca_toronto''" by (simp add: c_def cliContextOf_def str)
  moreover have "credentialsFromInvocation newFile (isSet c ''credentials-fd'') (intFlag c ''credentials-fd'')
      (ctxArgs c) = Inr \<lparr>username = u, password = p\<rparr>"
    using set by (simp add: credentialsFromInvocation_def argument_def c_def cliContextOf_def)
  ultimately show ?thesis by blast
qed

text \<open>
  Called with a user name and a password only, the program runs the default action with
  those credentials and the documented defaults: region \<open>ca_toronto\<close>, a server list that is
  fetched without a cache in at most five attempts (with a cache it would be fresh for 24
  hours and usable for 168), and the configuration as the only output.
\<close>

theorem default_invocation:
  assumes "u = [] \<or> hd u \<noteq> CHR ''-''" and "u \<noteq> ''help''" and "u \<noteq> ''h''"
    and "rawFlagName p \<notin> set requestNames"
  shows "\<exists>c. mainProgram env [u, p] = defaultAction (env\<lparr>meRun := (meRun env)\<lparr>reOsArgs := [u, p]\<rparr>\<rparr>) c
    \<and> credentialsFromInvocation newFile (isSet c ''credentials-fd'') (intFlag c ''credentials-fd'') (ctxArgs c)
        = Inr \<lparr>username = u, password = p\<rparr>
    \<and> serverListOptionsOf c = Inr \<lparr>soCachePath = [], soCacheTTL = 24 * hour, soCacheMaxAge = 168 * hour,
        soForceRefresh = False, soFetchRetries = 5\<rparr>
    \<and> stringFlag c ''region'' = ''ca_toronto''
    \<and> (\<forall>config m. outputsOf c config m = [MLog (config @ [LF])])"
  by (rule user_password_invocation [OF assms])

section \<open>Witnesses\<close>

definition exampleMain :: main_env where
  "exampleMain = \<lparr>mePolicy = splitEnv, meFs = emptyFs, meNewFile = Map.empty, meWeb = examplePost,
     mePia = exampleRegionEnv,
     meKeys = \<lparr>wkRandom = Some (replicate 32 (CHR 0x41)), wkScalarMult = id\<rparr>,
     meSort = insertionSort, meWriteFile = (\<lambda>_. FileWritten), meStdout = None, meLinux = True,
     meFds = Map.empty, meRun = exampleEnv\<rparr>"

definition exampleCli :: cliContext where
  \<comment> \<open>\<open>--json -r ca -o wg --serverlist-cache-ttl 0 --serverlist-cache-max-age 0 u p\<close>\<close>
  "exampleCli = \<lparr>isSet = (\<lambda>n. n \<in> {''json'', ''region'', ''outfile''}),
     intFlag = (\<lambda>n. if n = ''serverlist-fetch-retries'' then 5 else - 1),
     stringFlag = (\<lambda>n. if n = ''region'' then ''ca'' else if n = ''outfile'' then ''wg''
        else if n = ''serverlist-cache-ttl'' \<or> n = ''serverlist-cache-max-age'' then ''0'' else []),
     boolFlag = (\<lambda>n. n = ''json''), ctxArgs = [''u'', ''p'']\<rparr>"

definition plainOptions :: serverListOptions where
  "plainOptions = exampleOptions\<lparr>soCachePath := []\<rparr>"

lemma exampleCli_options: "serverListOptionsOf exampleCli = Inr plainOptions"
  by (simp add: serverListOptionsOf_def exampleCli_def plainOptions_def exampleOptions_def parseDuration_def)

lemma exampleCli_credentials:
  "credentialsFromInvocation f (isSet exampleCli ''credentials-fd'') i (ctxArgs exampleCli)
     = Inr \<lparr>username = ''u'', password = ''p''\<rparr>"
  by (simp add: credentialsFromInvocation_def exampleCli_def argument_def)

lemma example_client:
  "\<exists>run. newPIAClient splitEnv emptyFs ''u'' ''p'' ''ca'' False False plainOptions =
     (Inr ((initialClient ''u'' ''p'' ''ca'' False False plainOptions)
        \<lparr>pcMetadataServers := [(''us'', [exampleServer])], pcWireguardServers := [(''ca'', [exampleServer])]\<rparr>), run)"
proof -
  have "withServers (initialClient ''u'' ''p'' ''ca'' False False plainOptions) \<lparr>slRegions = (2, splitList)\<rparr>
      = Inr ((initialClient ''u'' ''p'' ''ca'' False False plainOptions)
        \<lparr>pcMetadataServers := [(''us'', [exampleServer])], pcWireguardServers := [(''ca'', [exampleServer])]\<rparr>)"
    by (simp add: withServers_def generateMetadataServerList_def generateWireguardServerList_def Let_def
        elems_splitList collectServers_def splitList_def metaEntry_def exampleEntry_def elems_def
        nilSlice_def initialClient_def)
  then show ?thesis
    using splitList_fetched by (auto simp: newPIAClient_def Let_def plainOptions_def)
qed

lemma example_keys:
  "\<exists>priv pub. generateKeys (meKeys exampleMain) (generatorOf exampleCli) = (Inr (priv, pub), [])"
  by (auto simp: Let_def logPrint_def exampleCli_def generateKeys_def generatorOf_def newPIAWgGenerator_def exampleMain_def
      GeneratePrivateKey_def GenerateKey_def NewKey_def KeyLen_def split: sum.split)

lemma example_registered:
  assumes "pcWireguardServers p = [(''ca'', [exampleServer])]" and "pcRegion p = ''ca''" and "pcCaCert p = []"
  shows "\<exists>p1 evs. clientAddKey exampleRegionEnv p t pub = (Some (Inr exampleKeyResult), p1, evs)"
  using assms exampleMembers_decode
  by (simp add: clientAddKey_def getWireguardServerForRegion_def firstServer_def executePIARequest_def
      downloadPIACertificate_def exampleRegionEnv_def examplePiaEnv_def answering_ok Let_def)

lemma example_default: "\<exists>evs. defaultAction exampleMain exampleCli = (MainOk, evs)"
proof -
  define p where "p = (initialClient ''u'' ''p'' ''ca'' False False plainOptions)
    \<lparr>pcMetadataServers := [(''us'', [exampleServer])], pcWireguardServers := [(''ca'', [exampleServer])]\<rparr>"
  obtain run where client: "newPIAClient splitEnv emptyFs ''u'' ''p'' ''ca'' False False plainOptions = (Inr p, run)"
    using example_client by (auto simp: p_def)
  obtain priv pub where keys: "generateKeys (meKeys exampleMain) (generatorOf exampleCli) = (Inr (priv, pub), [])"
    using example_keys by blast
  obtain p1 reqs where key: "clientAddKey exampleRegionEnv p ''t'' pub = (Some (Inr exampleKeyResult), p1, reqs)"
    using example_registered [of p "''t''" pub] by (auto simp: p_def initialClient_def)
  have "\<exists>config m. fst (generateOutput (piaApi examplePost exampleRegionEnv) p1 (generatorOf exampleCli)
      exampleKeyResult priv) = Some (Inr (config, m))"
    by (simp add: generateOutput_def generateConfig_def generatorOf_def newPIAWgGenerator_def exampleCli_def
        exampleKeyResult_def elems_def buildMetadata_def)
  then obtain config m p2 evs2 where out: "generateOutput (piaApi examplePost exampleRegionEnv) p1
      (generatorOf exampleCli) exampleKeyResult priv = (Some (Inr (config, m)), p2, evs2)"
    by (metis prod.collapse)
  obtain es where token: "clientGetToken examplePost p = (Inr ''t'', es)"
    using examplePost_token [of p] by (metis prod.collapse)
  obtain reqs2 where gen: "generate (meKeys exampleMain) (piaApi examplePost exampleRegionEnv) p
      (generatorOf exampleCli) = (Some (Inr (config, m)), p2, reqs2)"
    using keys out token key by (auto simp: generate_def generateRegistered_def Let_def prefixEvents_def)
  have "\<exists>evs. writeOutputs exampleMain exampleCli config m = (MainOk, evs)"
    by (simp add: writeOutputs_def Let_def writeFile_def exampleMain_def exampleCli_def printMetadata_def
        writeMetadata_def afterEvents_def)
  then have "\<exists>evs. generateAction exampleMain exampleCli p = (MainOk, evs)"
    using gen by (auto simp: generateAction_def afterEvents_def exampleMain_def)
  then show ?thesis
    unfolding defaultAction_def exampleCli_credentials exampleCli_options sum.case
    using client by (auto simp: exampleMain_def exampleCli_def afterEvents_def)
qed

theorem default_run_outputs_witness:
  "\<exists>evs m. defaultAction exampleMain exampleCli = (MainOk, evs)
     \<and> (\<forall>t. MStdout t \<in> set evs \<longrightarrow> t = metadataJSON (m\<lparr>mdWireguardConfig := ''wg''\<rparr>) @ [LF])"
proof -
  obtain evs where run: "defaultAction exampleMain exampleCli = (MainOk, evs)"
    using example_default by blast
  have "stringFlag exampleCli ''outfile'' = ''wg''" by (simp add: exampleCli_def)
  with default_run_outputs [OF run] run show ?thesis by metis
qed

theorem default_invocation_witness:
  "\<exists>c. mainProgram exampleMain [''u'', ''p''] =
       defaultAction (exampleMain\<lparr>meRun := exampleEnv\<lparr>reOsArgs := [''u'', ''p'']\<rparr>\<rparr>) c
     \<and> stringFlag c ''region'' = ''ca_toronto''"
proof -
  have "rawFlagName ''p'' \<notin> set requestNames" by (simp add: rawFlagName_def requestNames_def)
  moreover have "meRun exampleMain = exampleEnv" by (simp add: exampleMain_def)
  ultimately show ?thesis
    using default_invocation [of "''u''" "''p''" exampleMain Map.empty] by auto
qed

lemma example_main_event: "\<exists>outcome evs run. mainProgram exampleMain [''u'', ''p''] = (outcome, evs) \<and> MPolicy run \<in> set evs"
proof -
  have "rawFlagName ''p'' \<notin> set requestNames" by (simp add: rawFlagName_def requestNames_def)
  then obtain c opts where m: "mainProgram exampleMain [''u'', ''p''] =
      defaultAction (exampleMain\<lparr>meRun := (meRun exampleMain)\<lparr>reOsArgs := [''u'', ''p'']\<rparr>\<rparr>) c"
    and c: "credentialsFromInvocation (meNewFile exampleMain) (isSet c ''credentials-fd'')
        (intFlag c ''credentials-fd'') (ctxArgs c) = Inr \<lparr>username = ''u'', password = ''p''\<rparr>"
      "serverListOptionsOf c = Inr opts"
    using user_password_invocation [of "''u''" "''p''" exampleMain "meNewFile exampleMain"] by fastforce
  show ?thesis
    unfolding m using c
    by (auto simp: defaultAction_def afterEvents_def prod_eq_iff split: prod.split sum.split)
qed

theorem constrained_mode_separate_witness:
  "\<not> rawConstrainedRequested [''u'', ''p'']
     \<and> (\<exists>c. cliRun mainFlags [''u'', ''p''] = CliAction c \<and> \<not> constrainedRequested c)"
proof -
  obtain outcome evs run where run: "mainProgram exampleMain [''u'', ''p''] = (outcome, evs)"
      "MPolicy run \<in> set evs"
    using example_main_event by blast
  from constrained_mode_separate [OF run] show ?thesis by auto
qed

theorem list_regions_output_witness:
  "\<exists>evs run rs. listRegionsAction exampleMain exampleCli = (MainOk, evs)
     \<and> evs = MPolicy run # listOutput True rs
     \<and> sorted (map regionKey rs)"
proof -
  obtain data where run: "prResult (fetchServerListWithPolicy splitEnv plainOptions False emptyFs) = Inr data"
    and data: "parseServerList data = Inr \<lparr>slRegions = (2, splitList)\<rparr>"
    using splitList_fetched [of False] by (auto simp: getServerList_def plainOptions_def split: sum.splits)
  have "\<exists>evs. listRegionsAction exampleMain exampleCli = (MainOk, evs)"
    unfolding listRegionsAction_def exampleCli_options sum.case
    using run data
    by (simp add: exampleMain_def exampleCli_def listRegions_def listRegionsOf_def Let_def)
  then obtain evs where l: "listRegionsAction exampleMain exampleCli = (MainOk, evs)" by blast
  have s: "slice_sort (meSort exampleMain)"
    using insertion.slice_sort_axioms by (simp add: exampleMain_def)
  have "boolFlag exampleCli ''json''" by (simp add: exampleCli_def)
  with list_regions_output [OF s l] l show ?thesis by auto
qed

end
