(* ===== verification/Constrained_Delivery.thy ===== *)
theory Constrained_Delivery
  imports Constrained_Runs
begin

text \<open>
  The socket mark on every connection of a run, and the one document that the result descriptor
  carries when \<open>constrainedAction\<close> has returned.
\<close>

section \<open>The socket mark of a run\<close>

fun marked :: "32 word \<Rightarrow> bool \<Rightarrow> net_event list \<Rightarrow> bool" where
  \<comment> \<open>every connection attempt directly follows the setting of this mark\<close>
  "marked m ok [] = True"
| "marked m ok (EvSockopt (fd, level, opt, v) # evs) =
     marked m (level = SOL_SOCKET \<and> opt = SO_MARK \<and> v = uint m) evs"
| "marked m ok (EvConnect a # evs) = (ok \<and> marked m False evs)"
| "marked m ok (EvSend r # evs) = marked m False evs"

lemma marked_mono: "marked m False evs \<Longrightarrow> marked m ok evs"
proof (cases evs)
  case (Cons e more)
  then show "marked m False evs \<Longrightarrow> marked m ok evs" by (cases e) auto
qed simp

lemma marked_append: "marked m ok evs \<Longrightarrow> marked m False evs' \<Longrightarrow> marked m ok (evs @ evs')"
  by (induction m ok evs rule: marked.induct) (auto intro: marked_mono)

lemma marked_sockopts: "marked m ok (map EvSockopt socks)"
proof (induction socks arbitrary: ok)
  case (Cons a socks)
  then show ?case by (cases a) simp
qed simp

lemma dial_shape_marked_trace:
  assumes "dial_shape c req evs" and "hcControl c = Some (socketMarkControl supported setopt m)"
  shows "marked m False evs"
proof (cases "connects evs = []")
  case True
  then show ?thesis
    using assms(1) marked_sockopts by (auto simp: dial_shape_def split: if_splits)
next
  case False
  then obtain conn socks where r: "socketMarkControl supported setopt m conn = (socks, None)"
    and e: "evs = map EvSockopt socks @ [EvConnect (dialAddress c)]
      \<or> evs = map EvSockopt socks @ [EvConnect (dialAddress c), EvSend req]"
    using assms by (auto simp: dial_shape_def runControl_def split: if_splits)
  obtain fd where "socks = [(fd, SOL_SOCKET, SO_MARK, uint m)]"
    using socketMarkControl_ok [OF r] by blast
  then show ?thesis using e by auto
qed

lemma tokenRequest_marked:
  assumes "constrainedTokenRequest x env ip creds roots (Some (socketMarkControl can setopt m)) = ((t, f), evs)"
  shows "marked m False evs"
  using tokenRequest_cases [OF assms]
proof
  assume "\<exists>res. clientDo x (tokenClient ip roots (Some (socketMarkControl can setopt m)))
      (tokenRequest creds) 0 (neRounds env) = (res, evs)
    \<and> (f = None \<longrightarrow> (\<exists>status body. res = Inr (status, body) \<and> tokenResponse status body = (t, None)))"
  then have "dial_shape (tokenClient ip roots (Some (socketMarkControl can setopt m))) (tokenRequest creds) evs"
    using clientDo_shape by blast
  then show ?thesis
    by (rule dial_shape_marked_trace) (simp add: tokenClient_def constrainedHTTPClient_def)
qed simp

lemma addKeyRequest_marked:
  assumes "constrainedAddKeyRequest x env cand t pk roots (Some (socketMarkControl can setopt m)) = ((r, f), evs)"
  shows "marked m False evs"
  using addKeyRequest_cases [OF assms]
proof
  assume "\<exists>res. clientDo x (addKeyClient cand roots (Some (socketMarkControl can setopt m)))
      (addKeyRequest cand t pk) 0 (neRounds env) = (res, evs)
    \<and> (f = None \<longrightarrow> (\<exists>status body. res = Inr (status, body) \<and> addKeyResponse status body = (r, None)))"
  then have "dial_shape (addKeyClient cand roots (Some (socketMarkControl can setopt m)))
      (addKeyRequest cand t pk) evs"
    using clientDo_shape by blast
  then show ?thesis
    by (rule dial_shape_marked_trace) (simp add: addKeyClient_def constrainedHTTPClient_def)
qed simp

lemma executeNetwork_marked:
  assumes "executeNetwork env i = (r, evs)" and "riControl i = Some (socketMarkControl can setopt m)"
  shows "marked m False (netEvents evs)"
proof (cases "admit env 1 45")
  case False
  then show ?thesis using assms(1) by (auto simp: executeNetwork_def)
next
  case True
  obtain token failure net where q: "constrainedTokenRequest (rePki env) (reTokenNet env)
      (cpTokenDestinationIPv4 (riPlan i)) (riCreds i) (riPublic i) (riControl i) = ((token, failure), net)"
    by (metis surj_pair)
  have first: "marked m False net" using tokenRequest_marked q assms(2) by metis
  have second: "marked m False (netEvents (snd (executeAddKey env i t k)))" for t k
  proof -
    obtain res f net2 where "constrainedAddKeyRequest (rePki env) (reAddKeyNet env)
        (cpRegistrationCandidate (riPlan i)) t (keyString (PublicKey (reScalarMult env) k))
        (riRegional i) (riControl i) = ((res, f), net2)"
      by (metis surj_pair)
    then show ?thesis
      using addKeyRequest_marked assms(2) by (simp add: executeAddKey_def Let_def)
  qed
  show ?thesis
    using assms(1) True q first second
    by (auto simp: executeNetwork_def after_eq_iff marked_append split: if_splits sum.splits)
qed

text \<open>
  C10: in a run with \<open>--socket-mark\<close> every connection attempt of the whole trace, to the token
  server and to the registration server alike, directly follows the setting of that mark on
  the socket.
\<close>

theorem execute_marked:
  assumes "execute env files c = (failure, evs)" and "isSet c ''socket-mark''"
    and "netEvents evs \<noteq> []"
  shows "\<exists>m. parseSocketMark (stringFlag c ''socket-mark'') = Inr m \<and> marked m False (netEvents evs)"
proof -
  have net: "\<exists>m. parseSocketMark (stringFlag c ''socket-mark'') = Inr m \<and> marked m False (netEvents evs2)"
    if "executeInputs env files c = (Inr i, evs1)" "executeNetwork env i = (r2, evs2)" for i evs1 r2 evs2
  proof -
    have "inputs_valid env files c i" using executeInputs_ok [OF that(1)] by blast
    then have "constrainedSocketControl (reSupported env) (reSetsockopt env) c = (riControl i, None)"
      by (simp add: inputs_valid_def)
    then obtain m where "parseSocketMark (stringFlag c ''socket-mark'') = Inr m"
        "riControl i = Some (socketMarkControl (reSupported env) (reSetsockopt env) m)"
      using constrainedSocketControl_ok assms(2) by metis
    then show ?thesis using executeNetwork_marked [OF that(2)] by blast
  qed
  show ?thesis
    using assms(1)
  proof (cases rule: execute_cases)
    case (early evs1)
    then show ?thesis using executeInputs_ok [OF early(1)] assms(3) by (simp add: only_reads_def)
  next
    case (network i evs1 evs2)
    then show ?thesis
      using executeInputs_ok [OF network(1)] net [OF network(1,2)] by (simp add: only_reads_def)
  next
    case (full i evs1 evs2 priv r evs3)
    then show ?thesis
      using executeInputs_ok [OF full(1)] executeOutput_net [OF full(3)] net [OF full(1,2)]
      by (simp add: only_reads_def)
  qed
qed

section \<open>One document per run\<close>

lemma successLine_fits:
  "wf_plan plan \<Longrightarrow> validateConstrainedAddKey plan r pk = None \<Longrightarrow>
     length (successLine plan r) \<le> maxConstrainedResultSize"
  using success_fits [OF successOf_wf] by (simp add: successLine_def)

lemma executeResult_accepting:
  assumes "executeResult env files plan r = (Some f, evs)"
    and "cfResultWriter files = Some w" "writerAccepts (fiFile w)"
    and "length (successLine plan r) \<le> maxConstrainedResultSize"
  shows "resultWrites evs = []"
  using assms
  by (auto simp: executeResult_def writeFD_def writerAccepts_write split: if_splits)

lemma executeOutput_accepting:
  assumes "executeOutput env files plan priv r = (Some f, evs)"
    and "cfResultWriter files = Some w" "writerAccepts (fiFile w)"
    and "length (successLine plan r) \<le> maxConstrainedResultSize"
  shows "resultWrites evs = []"
proof -
  obtain x evs' where r: "executeResult env files plan r = (x, evs')" by fastforce
  show ?thesis
    using assms(1) executeResult_accepting [of env files plan r f evs' w] assms(2-4) r
    by (auto simp: executeOutput_def Let_def split: if_splits prod.splits option.splits)
qed

lemma execute_failure_quiet:
  assumes "execute env files c = (Some f, evs)"
    and "cfResultWriter files = Some w" "writerAccepts (fiFile w)"
  shows "resultWrites evs = [] \<and> good_failure (Some f)"
  using assms(1)
proof (cases rule: execute_cases)
  case (early evs1)
  then show ?thesis
    using executeInputs_ok [OF early(1)] good_inputs [OF early(1)] by (simp add: only_reads_def)
next
  case (network i evs1 evs2)
  then show ?thesis
    using executeInputs_ok [OF network(1)] executeNetwork_ok [OF network(2)] good_network [OF network(2)]
    by (simp add: only_reads_def)
next
  case (full i evs1 evs2 priv r evs3)
  have wf: "wf_plan (riPlan i)" using executeInputs_ok [OF full(1)] wf_plan_of_inputs by blast
  obtain k where v:
      "validateConstrainedAddKey (riPlan i) r (keyString (PublicKey (reScalarMult env) k)) = None"
      "resultWrites evs2 = []"
    using executeNetwork_done [OF full(2)] .
  have "resultWrites evs3 = []"
    using executeOutput_accepting [OF full(3) assms(2,3)] successLine_fits [OF wf v(1)] by blast
  moreover have "good_failure (Some f)"
    using full(3)
  proof (cases rule: executeOutput_cases)
    case (both m)
    then show ?thesis using good_built(1) [of ClassResultWriteFailed] by simp
  qed simp_all
  ultimately show ?thesis
    using executeInputs_ok [OF full(1)] v(2) full(4) by (simp add: only_reads_def)
qed

lemma failureLine_fits:
  assumes "validConstrainedFailureDetail d = d"
  shows "length (marshalFailure cls d @ [LF]) \<le> maxConstrainedResultSize"
  using length_marshalFailure [of d cls] detail_bytes [OF assms]
  by (simp add: maxConstrainedResultSize_def)

text \<open>
  Once the descriptors are open and as long as the reader of the result descriptor takes
  what is written, every run, whatever its inputs, the network and the clock do, leaves
  exactly one line on that descriptor: the success document when the process exits with
  status 0, and otherwise a failure document whose class is the one of the exit error and
  whose detail is clean.
\<close>

theorem constrainedAction_one_document:
  assumes "openConstrainedFiles linux tbl c = (Inr files, closed)"
    and "cfResultWriter files = Some w" and "writerAccepts (fiFile w)"
    and "constrainedAction linux tbl env c = (outcome, evs)"
  shows "case outcome of
      None \<Rightarrow> \<exists>plan r config. resultWrites evs = [successLine plan r] \<and> configWrites evs = [config]
    | Some cls \<Rightarrow> \<exists>detail. validConstrainedFailureDetail detail = detail
        \<and> resultWrites evs = [marshalFailure cls detail @ [LF]]"
proof -
  obtain failure evs1 where x: "execute env files c = (failure, evs1)" by fastforce
  show ?thesis
  proof (cases failure)
    case None
    then have "outcome = None" "evs = evs1"
      using assms(1,4) x by (simp_all add: constrainedAction_def)
    then show ?thesis using execute_ok [of env files c evs1] x None by auto
  next
    case (Some f)
    note quiet = execute_failure_quiet [OF x [unfolded Some] assms(2,3)]
    have d: "validConstrainedFailureDetail (frDetail f) = frDetail f"
      using quiet by (simp add: good_failure_def)
    then have "writeFailure files f
        = (frClass f, [EvResult (marshalFailure (frClass f) (frDetail f) @ [LF])])"
      using assms(2) writerAccepts_write [OF assms(3) failureLine_fits]
      by (simp add: writeFailure_def)
    then have "outcome = Some (frClass f)"
      "evs = evs1 @ [EvResult (marshalFailure (frClass f) (frDetail f) @ [LF])]"
      using assms(1,4) x Some by (simp_all add: constrainedAction_def)
    then show ?thesis using quiet d by auto
  qed
qed

section \<open>A marked run\<close>

lemma example_flags:
  "list_all (isSet exampleContext) fdNames \<and> map (intFlag exampleContext) fdNames = [3, 4, 5, 6, 7, 8]"
  by code_simp

lemma example_valid_pipes:
  "validateConstrainedDescriptor True (exampleInput body) FDRead = None"
  "validateConstrainedDescriptor True (examplePipe 1) FDWrite = None"
  by (simp_all add: validateConstrainedDescriptor_def validateDescriptorLinux_def exampleInput_def
      examplePipe_def exampleFile_def Let_def O_ACCMODE_def O_RDONLY_def O_WRONLY_def O_RDWR_def
      setConstrainedReadDeadline_def setConstrainedWriteDeadline_def unsupportedDeadline_def)

lemma example_open_files: "openConstrainedFiles True runTable exampleContext = (Inr runFiles, [])"
  using example_flags
  by (simp add: openConstrainedFiles_def fdSpecs_def fdNames_def runFiles_def noFiles_def runTable_def
      example_valid_pipes assignFile_def)

theorem constrainedAction_one_document_witness:
  "\<exists>line. resultWrites (snd (constrainedAction True runTable exampleEnv exampleContext)) = [line]"
  using constrainedAction_one_document [OF example_open_files example_writers(2)
      writerAccepts_example surjective_pairing, of exampleEnv]
  by (auto split: option.splits)

definition markedContext :: cliContext where
  "markedContext = exampleContext\<lparr>isSet := (\<lambda>n. n = ''socket-mark'' \<or> isSet exampleContext n),
     stringFlag := (\<lambda>_. ''0x51'')\<rparr>"

definition partialEnv :: run_env where
  \<comment> \<open>the registration server is never reached\<close>
  "partialEnv = exampleEnv\<lparr>reAddKeyNet := (exampleNet [] [])\<lparr>neRounds := []\<rparr>\<rparr>"

lemma partial_run: "length (connects (netEvents (snd (execute partialEnv runFiles markedContext)))) = 1"
  by code_simp

theorem execute_marked_witness:
  "marked 0x51 False (netEvents (snd (execute partialEnv runFiles markedContext)))"
proof -
  have "isSet markedContext ''socket-mark''" by (simp add: markedContext_def)
  moreover have "netEvents (snd (execute partialEnv runFiles markedContext)) \<noteq> []"
    using partial_run by auto
  ultimately obtain m where m: "parseSocketMark (stringFlag markedContext ''socket-mark'') = Inr m"
      "marked m False (netEvents (snd (execute partialEnv runFiles markedContext)))"
    using execute_marked [OF surjective_pairing] by blast
  have "parseSocketMark ''0x51'' = Inr 0x51" by code_simp
  then show ?thesis using m by (simp add: markedContext_def)
qed

end
