(* ===== verification/Main_Exit.thy ===== *)
theory Main_Exit
  imports Main_Cli Constrained_Delivery
begin

text \<open>
  How a process ends: the exit status of an outcome of \<open>main\<close> and the line it leaves on
  standard error, and, over them, what the caller of a constrained invocation can rely on. The
  errors of the ordinary modes end in \<open>log.Fatal\<close>, whose line carries a time stamp and the
  wrapped text of the error; only that it is printed is modelled of it, by the status.
\<close>

section \<open>Status and standard error\<close>

definition constrainedExit :: "constrainedClass \<Rightarrow> bytes \<times> int" where
  \<comment> \<open>message and code of the \<open>cli.ExitCoder\<close>\<close>
  "constrainedExit cls = (classString cls, 1)"

definition socketMarkExit :: "bytes \<times> int" where
  "socketMarkExit = (''--socket-mark is only supported with the constrained descriptor flags'', 1)"

fun exitCoder :: "main_outcome \<Rightarrow> (bytes \<times> int) option" where
  \<comment> \<open>the outcomes that are an error with an exit code of its own\<close>
  "exitCoder (MainConstrained cls) = Some (constrainedExit cls)"
| "exitCoder (MainFails SocketMarkOutside) = Some socketMarkExit"
| "exitCoder _ = None"

definition exitStatus :: "main_outcome \<Rightarrow> int" where
  \<comment> \<open>\<open>log.Fatal\<close> exits with 1, a panic that nothing recovers with 2\<close>
  "exitStatus outcome =
     (case exitCoder outcome of
        Some (_, code) \<Rightarrow> code
      | None \<Rightarrow> if outcome = MainOk \<or> outcome = MainHelp then 0 else if outcome = MainPanics then 2 else 1)"

definition exitLine :: "main_outcome \<Rightarrow> bytes option" where
  \<comment> \<open>\<open>fmt.Fprintln(os.Stderr, err.Error())\<close>\<close>
  "exitLine outcome = map_option (\<lambda>(message, _). message @ [LF]) (exitCoder outcome)"

fun runEventOf :: "main_event \<Rightarrow> run_event option" where
  "runEventOf (MConstrained e) = Some e"
| "runEventOf _ = None"

definition runEvents :: "main_event list \<Rightarrow> run_event list" where
  "runEvents evs = List.map_filter runEventOf evs"

lemma runEvents_constrained [simp]: "runEvents (map MConstrained evs) = evs"
  by (induction evs) (simp_all add: runEvents_def map_filter_simps)

section \<open>The result descriptor survives a failed opening\<close>

lemma open_loop_closed:
  assumes "open_loop linux tbl c seen files (specs @ [(name, mode)]) = (Inl e, closed)"
    and "fd \<notin> set (cfCloseOnReturn files)" and "list_all (\<lambda>(n, m). intFlag c n \<noteq> fd) specs"
    and "intFlag c name = fd" and "tbl fd = Some w" and "validateConstrainedDescriptor linux w mode = None"
  shows "fd \<notin> set closed"
  using assms(1-3)
proof (induction specs arbitrary: seen files)
  case Nil
  then show ?case using assms(4-6) by (auto simp: Let_def split: if_splits)
next
  case (Cons spec specs)
  obtain n m where spec: "spec = (n, m)" by fastforce
  have fd: "intFlag c n \<noteq> fd" using Cons.prems(3) spec by simp
  have "cfCloseOnReturn (assignFile n f (files\<lparr>cfCloseOnReturn := cfCloseOnReturn files @ [intFlag c n]\<rparr>))
      = cfCloseOnReturn files @ [intFlag c n]" for f
    by (simp add: assignFile_def)
  then show ?case
    using Cons.prems Cons.IH fd unfolding spec
    by (auto simp: Let_def split: if_splits option.splits)
qed

lemma openConstrainedFiles_closed:
  assumes "openConstrainedFiles linux tbl c = (Inl e, closed)"
    and "\<And>n. n \<in> set fdNames \<Longrightarrow> n \<noteq> ''result-fd'' \<Longrightarrow> intFlag c n \<noteq> fd"
    and "intFlag c ''result-fd'' = fd" and "tbl fd = Some w"
    and "validateConstrainedDescriptor linux w FDWrite = None"
  shows "afterClose tbl closed fd = tbl fd"
proof -
  have specs: "fdSpecs = butlast fdSpecs @ [(''result-fd'', FDWrite)]" by (simp add: fdSpecs_def)
  have "list_all (\<lambda>(n, m). intFlag c n \<noteq> fd) (butlast fdSpecs)"
    using assms(2) by (simp add: fdSpecs_def fdNames_def)
  then have "fd \<notin> set closed"
    using open_loop_closed [where specs = "butlast fdSpecs" and fd = fd and w = w and c = c and tbl = tbl] assms(1,3-5) unfolding openConstrainedFiles_def
    by (metis specs noFiles_def constrainedFiles.select_convs(7) empty_iff empty_set)
  then show ?thesis by (simp add: afterClose_def)
qed

lemma reportInvalid_written:
  assumes "3 \<le> fd" and "tbl fd = Some w" and "validateConstrainedDescriptor linux w FDWrite = None"
    and "writerAccepts (fiFile w)"
  shows "reportInvalid linux tbl fd
    = (Some ClassInvalidInvocation, [EvResult (marshalFailure ClassInvalidInvocation [] @ [LF])])"
proof -
  have "writeLimitedFile (fiFile w) invalidInvocationDocument maxConstrainedResultSize
      = (None, invalidInvocationDocument)"
    using writerAccepts_write [OF assms(4) failureLine_fits [of "[]" ClassInvalidInvocation]]
    by (simp add: invalidInvocationDocument_def)
  then show ?thesis
    using assms(1-3)
    by (simp add: reportInvalid_def writeInvalidInvocationFailureFD_def invalidInvocationDocument_def)
qed

section \<open>What the caller of constrained mode sees\<close>

definition reported :: "constrainedClass option \<Rightarrow> run_event list \<Rightarrow> bool" where
  \<comment> \<open>exactly one document, of the outcome's kind\<close>
  "reported outcome evs \<longleftrightarrow>
     (case outcome of
        None \<Rightarrow> \<exists>plan r config. resultWrites evs = [successLine plan r] \<and> configWrites evs = [config]
      | Some cls \<Rightarrow> \<exists>detail. validConstrainedFailureDetail detail = detail
          \<and> resultWrites evs = [marshalFailure cls detail @ [LF]])"

lemma reported_invalid:
  "reported (Some ClassInvalidInvocation) [EvResult (marshalFailure ClassInvalidInvocation [] @ [LF])]"
  by (auto simp: reported_def intro: exI [of _ "[]"])

lemma constrainedAction_reported:
  assumes "intFlag c ''result-fd'' = fd" and "3 \<le> fd"
    and "\<And>n. n \<in> set fdNames \<Longrightarrow> n \<noteq> ''result-fd'' \<Longrightarrow> intFlag c n \<noteq> fd"
    and "tbl fd = Some w" and "validateConstrainedDescriptor linux w FDWrite = None"
    and "writerAccepts (fiFile w)" and "constrainedAction linux tbl env c = (outcome, evs)"
  shows "reported outcome evs"
proof (cases "openConstrainedFiles linux tbl c")
  case (Pair r closed)
  show ?thesis
  proof (cases r)
    case (Inl e)
    then have "openConstrainedFiles linux tbl c = (Inl e, closed)" using Pair by simp
    then have "afterClose tbl closed fd = Some w"
      using openConstrainedFiles_closed [where fd = fd and w = w and tbl = tbl] assms(1,3-5) by simp
    then have "constrainedAction linux tbl env c
        = (Some ClassInvalidInvocation, [EvResult (marshalFailure ClassInvalidInvocation [] @ [LF])])"
      using Pair Inl assms(1) reportInvalid_written [of fd "afterClose tbl closed" w linux] assms(2,5,6)
      by (simp add: constrainedAction_def)
    then show ?thesis using assms(7) reported_invalid by simp
  next
    case (Inr files)
    then have opened: "openConstrainedFiles linux tbl c = (Inr files, closed)" using Pair by simp
    then have "cfResultWriter files = Some w" using openConstrainedFiles_ok [OF opened] assms(1,4) by simp
    then show ?thesis
      using constrainedAction_one_document [OF opened _ assms(6,7)] by (simp add: reported_def)
  qed
qed

lemma contextFromValues_ints:
  "n \<in> set fdNames \<Longrightarrow> intFlag (constrainedContextFromValues ints strs) n
     = (case ints n of None \<Rightarrow> 0 | Some i \<Rightarrow> i)"
  by (auto simp: constrainedContextFromValues_def fdNames_def intNames_def)

lemma rawArgs_reported:
  assumes "parseRawConstrainedArgs args = (err, ints, strs)" and "ints ''result-fd'' = Some fd" and "3 \<le> fd"
    and "\<And>n. n \<in> set fdNames \<Longrightarrow> n \<noteq> ''result-fd'' \<Longrightarrow> ints n \<noteq> Some fd"
    and "tbl fd = Some w" and "validateConstrainedDescriptor linux w FDWrite = None"
    and "writerAccepts (fiFile w)" and "constrainedActionFromRawArgs linux tbl env args = (outcome, evs)"
  shows "reported outcome evs"
proof (cases err)
  case (Some e)
  then have "constrainedActionFromRawArgs linux tbl env args = reportInvalid linux tbl fd"
    using assms(1,2) by (simp add: constrainedActionFromRawArgs_def)
  then show ?thesis
    using assms(8) reportInvalid_written [of fd tbl w linux] assms(3,5-7) reported_invalid by simp
next
  case None
  let ?c = "constrainedContextFromValues ints strs"
  have result: "intFlag ?c ''result-fd'' = fd"
    using contextFromValues_ints [of "''result-fd''"] assms(2) by (simp add: fdNames_def)
  have others: "intFlag ?c n \<noteq> fd" if "n \<in> set fdNames" "n \<noteq> ''result-fd''" for n
    using contextFromValues_ints [OF that(1)] assms(3) assms(4) [OF that] by (auto split: option.split)
  have run: "constrainedAction linux tbl env ?c = (outcome, evs)"
    using None assms(1,8) by (simp add: constrainedActionFromRawArgs_def)
  show ?thesis
    by (rule constrainedAction_reported [OF result assms(3) others assms(5-7) run])
qed

text \<open>
  C5: whatever goes wrong, the caller of constrained mode is told, once. Let an invocation ask
  for it, let the scan of the arguments have seen a result descriptor that no other flag
  names, and let that descriptor be a pipe whose reader takes what is written. Then either the
  process exits with status 0, and the result descriptor carries one line, the success
  document, after one configuration was written; or it exits with status 1, its error line is
  the failure class, and the result descriptor carries one line, the failure document of the
  same class with a clean detail. That covers arguments that do not parse, descriptors that
  cannot be opened, and every failure of a run.
\<close>

theorem constrained_invocation_reported:
  assumes "rawConstrainedRequested args" and "parseRawConstrainedArgs args = (err, ints, strs)"
    and "ints ''result-fd'' = Some fd" and "3 \<le> fd"
    and "\<And>n. n \<in> set fdNames \<Longrightarrow> n \<noteq> ''result-fd'' \<Longrightarrow> ints n \<noteq> Some fd"
    and "meFds env fd = Some w" and "validateConstrainedDescriptor (meLinux env) w FDWrite = None"
    and "writerAccepts (fiFile w)" and "mainProgram env args = (outcome, evs)"
  shows "outcome = MainOk \<and> exitStatus outcome = 0
      \<and> (\<exists>plan r config. resultWrites (runEvents evs) = [successLine plan r]
           \<and> configWrites (runEvents evs) = [config])
    \<or> (\<exists>cls detail. exitStatus outcome = 1 \<and> exitLine outcome = Some (classString cls @ [LF])
           \<and> validConstrainedFailureDetail detail = detail
           \<and> resultWrites (runEvents evs) = [marshalFailure cls detail @ [LF]])"
proof -
  obtain cls evs1 where run: "constrainedActionFromRawArgs (meLinux env) (meFds env)
      ((meRun env)\<lparr>reOsArgs := args\<rparr>) args = (cls, evs1)"
    by fastforce
  then have "outcome = (case cls of None \<Rightarrow> MainOk | Some c \<Rightarrow> MainConstrained c)"
    and "evs = map MConstrained evs1"
    using assms(1,9) by (auto simp: mainProgram_def constrainedRun_def)
  moreover have "reported cls evs1" by (rule rawArgs_reported [OF assms(2-8) run])
  ultimately show ?thesis
    by (cases cls) (auto simp: reported_def exitStatus_def exitLine_def constrainedExit_def)
qed

section \<open>A descriptor given twice\<close>

text \<open>
  The condition on the result descriptor is needed: when the plan flag names it too, opening
  it for reading fails, the opening closes it, and the failure document is not written.
\<close>

lemma shared_descriptor_unreported:
  assumes "isSet c ''constrained-plan-fd''" and "intFlag c ''constrained-plan-fd'' = fd"
    and "intFlag c ''result-fd'' = fd" and "3 \<le> fd" and "tbl fd = Some w"
    and "validateConstrainedDescriptor linux w FDRead \<noteq> None"
  shows "constrainedAction linux tbl env c = (Some ClassInvalidInvocation, [])"
proof -
  have "openConstrainedFiles linux tbl c = (Inl (InvalidFD ''constrained-plan-fd''), [fd])"
    using assms by (simp add: openConstrainedFiles_def fdSpecs_def noFiles_def Let_def)
  then show ?thesis
    using assms(3-5)
    by (simp add: constrainedAction_def reportInvalid_def writeInvalidInvocationFailureFD_def afterClose_def
        validateConstrainedDescriptor_def validateDescriptorLinux_def)
qed

section \<open>Witnesses\<close>

definition constrainedMain :: main_env where
  "constrainedMain = exampleMain\<lparr>meFds := runTable\<rparr>"

lemma example_requested: "rawConstrainedRequested exampleArgs"
  by code_simp

lemma example_parsed:
  "parseRawConstrainedArgs exampleArgs = (None, itemValues exampleItems, itemStrings exampleItems)"
  using exampleItems_ok by (auto simp: accepted_items exampleArgs_items list_all_iff plainItem_def)

lemma example_ints:
  "map (itemValues exampleItems) fdNames = [Some 3, Some 4, Some 5, Some 6, Some 7, Some 8]"
  by code_simp

theorem constrained_invocation_reported_witness:
  "\<exists>line. resultWrites (runEvents (snd (mainProgram constrainedMain exampleArgs))) = [line]"
proof -
  obtain outcome evs where run: "mainProgram constrainedMain exampleArgs = (outcome, evs)" by fastforce
  have fd: "meFds constrainedMain 8 = Some (examplePipe 1)" by (simp add: constrainedMain_def runTable_def)
  have v: "validateConstrainedDescriptor (meLinux constrainedMain) (examplePipe 1) FDWrite = None"
    using example_valid_pipes(2) by (simp add: constrainedMain_def exampleMain_def)
  note ints = example_ints [unfolded fdNames_def list.map list.inject]
  have result: "itemValues exampleItems ''result-fd'' = Some 8" using ints by blast
  have others: "itemValues exampleItems n \<noteq> Some 8" if "n \<in> set fdNames" "n \<noteq> ''result-fd''" for n
    using ints that by (auto simp: fdNames_def)
  have "(3::int) \<le> 8" by simp
  from constrained_invocation_reported [OF example_requested example_parsed result this others fd v
      writerAccepts_example run]
  show ?thesis using run by auto
qed

end
