(* ===== verification/Spec2Isabelle.thy ===== *)
theory Spec2Isabelle
  imports Json_Codec Json_Object Constrained_Protocol Dns_Session Main_Exit
begin

text \<open>
  A verification library for \<open>pia-wg-config\<close>, a command-line generator of WireGuard
  configurations for Private Internet Access, written in Go.

  \<^bold>\<open>The program.\<close> \<open>main.go\<close> decides between three modes. \<^emph>\<open>Constrained mode\<close>
  (\<open>constrained.go\<close>, \<open>socket_mark*.go\<close>, \<open>constrained_descriptor_*.go\<close>) is run by a supervisor: six
  inherited descriptors carry a plan, credentials and two CA bundles in, and the configuration
  and one line of JSON out; two requests are sent, with pinned trust and an optional socket
  mark. The \<^emph>\<open>default action\<close> fetches the server list (\<open>pia/serverlist.go\<close>: retries and a cache
  file), builds a client for a region (\<open>pia/pia.go\<close>), obtains a token, registers a key and renders
  the configuration and its metadata (\<open>pia/wg.go\<close>, \<open>pia/metadata.go\<close>). The \<^emph>\<open>listing\<close> prints the
  regions of the server list.

  \<^bold>\<open>How the code is modelled.\<close> A byte string is a list of \<open>char\<close>; a Go \<open>int\<close> is an \<open>int\<close>, with its
  64-bit range written out where a conversion can leave it; the socket mark is a \<open>32 word\<close>. A
  struct is a record, an error a constructor of a datatype in a sum, a loop a recursive function
  with a measure, so that every function is total and termination is part of the definition. An
  index out of range, which panics in Go, is \<open>None\<close>. Effects are explicit: a run returns its
  outcome and the events it caused, in order, requests, writes and log lines; the file system is a map from paths to files. What
  the program cannot know is an argument: what the network answers, what a descriptor delivers
  or accepts, the result of each system call, the clock, random bytes, the multiplication on
  Curve25519, \<open>encoding/pem\<close> and \<open>crypto/x509\<close> (the record \<open>pki\<close>), and the HTTP client (the
  rounds it attempts in constrained mode; for the token request and the registration of the
  default action, what each server answers to each request; one answer for the server list and
  for the certificate, which are public, redirects included).

  \<^bold>\<open>Theories, in the order of their imports.\<close>

  \<^item> \<open>Prelude\<close>, \<open>Utf8\<close>: the parts of \<open>strings\<close>, \<open>strconv\<close> and \<open>unicode/utf8\<close> in use.
  \<^item> \<open>Json_Scan\<close>, \<open>Json_Decoder\<close>, \<open>Json_Encode\<close>, \<open>Json_Codec\<close>, \<open>Json_Object\<close>, \<open>Json_Struct\<close>,
    \<open>Json_Indent\<close>: \<open>encoding/json\<close>: the byte scanner, the streaming decoder, the encoder, structs
    and slices, indentation; \<open>Json_Decoder\<close> also has \<open>strictJSONObject\<close>. The locale \<open>json_codec\<close>
    is the contract of a round trip, interpreted for strings, integers and booleans.
  \<^item> \<open>Net_IP\<close>, \<open>Constrained_Validate\<close>: \<open>net.ParseIP\<close> and \<open>net.ParseCIDR\<close>; the field validators.
  \<^item> \<open>Constrained_Failure\<close>, \<open>Constrained_Plan\<close>: the two result documents, the plan.
  \<^item> \<open>Cli_Context\<close>, \<open>Raw_Args\<close>, \<open>Socket_Mark\<close>: the invocation of constrained mode; the mark and
    its control function.
  \<^item> \<open>Byte_Stream\<close>, \<open>Credentials\<close>, \<open>Constrained_Files\<close>: limited reading and writing, the credential
    reader, opening and checking the descriptors.
  \<^item> \<open>Wgtypes\<close>, \<open>Constrained_AddKey\<close>, \<open>Constrained_CA\<close>: keys (vendored \<open>wgtypes\<close>), the registration
    response and the rendered configuration, CA bundles.
  \<^item> \<open>Constrained_Http\<close>, \<open>Constrained_Request\<close>, \<open>Constrained_Runner\<close>: the client with its dial and
    TLS functions, the two requests, \<open>execute\<close> in the phases of the source with the two actions.
  \<^item> \<open>Constrained_Output\<close>, \<open>Constrained_Runs\<close>, \<open>Constrained_Delivery\<close>, \<open>Constrained_Protocol\<close>: what a
    run writes, shows and leaves on the result descriptor; and the abstract protocol of a run, a
    transition system with the checks and the time budget of each stage, which \<open>execute\<close> refines.
  \<^item> \<open>Server_Fetch\<close>, \<open>Server_Cache\<close>, \<open>Server_Cache_Steps\<close>, \<open>Server_Policy\<close>, \<open>Server_Regions\<close>:
    \<open>pia/serverlist.go\<close>: one fetch and the retry loop, the cache file as a function of the results
    of its system calls and as a transition system of concurrent writers, the cache policy, the
    parsed list and \<open>ListRegions\<close> over the locale \<open>slice_sort\<close>, the contract of \<open>sort.Slice\<close>.
  \<^item> \<open>Dns_Name\<close>, \<open>Dns_Name_Codec\<close>, \<open>Dns_Message\<close>, \<open>Dns_Message_Codec\<close>: messages of the vendored
    \<open>benburkert/dns\<close>, with which \<open>executePIARequest\<close> resolves the server: names with compression
    pointers, the record types, whole messages; the locale \<open>wire_item\<close> is the contract of one item of
    a section, interpreted for questions and for resources.
  \<^item> \<open>Commuting\<close>, \<open>Dns_Handler\<close>, \<open>Dns_Mux\<close>, \<open>Dns_Mux_Run\<close>, \<open>Dns_Client\<close>: its handlers; the goroutines
    of \<open>ResolveMux.ServeDNS\<close> as a transition system whose steps commute (the locale \<open>commuting\<close>),
    against a sequential reference; the client with the resolver for one server. \<open>Dns_Session\<close>
    has the rest of a session: message numbers, streams, and replies that do not fit.
  \<^item> \<open>Http_Redirect\<close>: \<open>Client.Do\<close> of \<open>net/http\<close> with the redirects it follows, for the requests of
    \<open>pia/pia.go\<close>; the relation \<open>leadsTo\<close> says which requests the servers can lead a client to.
  \<^item> \<open>Pia_Client\<close>, \<open>Wg_Generator\<close>: \<open>pia/pia.go\<close>, \<open>pia/wg.go\<close> and \<open>pia/metadata.go\<close>; the interface
    \<open>PIAWgClient\<close> is the record \<open>wg_api\<close> with the locale \<open>wg_client\<close>, interpreted for \<open>PIAClient\<close>.
  \<^item> \<open>Go_Flag\<close>, \<open>Go_Duration\<close>, \<open>Cli_App\<close>: \<open>FlagSet.Parse\<close> and \<open>strconv\<close> with base 0,
    \<open>time.ParseDuration\<close> with its floating-point fractions, and what \<open>urfave/cli\<close> makes of the
    flags \<open>main\<close> declares.
  \<^item> \<open>Cli_Raw\<close>, \<open>Main_Cli\<close>, \<open>Main_Exit\<close>: the raw parser against the library; \<open>main.go\<close>; the exit
    status and the last line on standard error, and what the caller of constrained mode is told.

  \<^bold>\<open>What the theorems show.\<close> For constrained mode: nothing is sent before
  every input has been read and validated, and at most two requests are sent, each on one
  connection that was marked before it connected; every run follows the protocol, and no stage of
  it starts without its time; a run that succeeds has written a configuration of exactly the
  validated registration, before the one success line, and every other invocation, down to
  arguments that do not parse, ends in one failure line, exit status 1 and the same class on
  standard error; plans, marks, credentials, CA bundles and argument vectors are accepted exactly when they
  have the documented form. For the server list: what the policy returns comes from a request of
  this run or from a cache file that is young enough, the retry loop ends and its trace is given
  exactly, and the cache file is atomic under concurrent writers, of whose system the real write
  is shown to be a run. For the resolver: a message that is packed is read back, every schedule of
  the goroutines answers a query with what the questions in their order give, and a registration
  asks no name server and is given the address of the server list. For the client and the
  generator: where the credentials, the token and the keys go, through redirects, the log and the
  error of a registration that cannot connect; which lines a generated configuration and its metadata
  are made of; and the exact conditions under which they panic. For \<open>main\<close>: the two modes do
  not mix, no constrained invocation gets past the raw scan but for two spellings, the raw parser
  reads what it accepts as the library would, and a successful default run leaves exactly its
  outputs behind.

  \<^bold>\<open>Bounds.\<close> No function uses fuel. The size limits of the source are definitions
  (\<open>maxConstrainedPlanSize\<close> and the others), the nesting limit of the JSON scanner is 10000 as in the
  standard library, durations are nanoseconds in the range of \<open>int64\<close>.

  \<^bold>\<open>Not modelled.\<close> The time stamps of the log, the layout of the lines about the server list,
  which are values with what the code formats into them, and the texts of wrapped errors, which
  are constructors here, with the URL that a failed request names, so of a line of \<open>log.Fatal\<close>
  only the exit status and the error it is made of; usage and help texts;
  the signal handler and the timers of the context, whose effect is observed through the admission
  checks, and the time that passes between two of them; the inside of the HTTP client, but for
  its redirects, and of TLS; which part of its input \<open>pem.Decode\<close> skips; the sharing of a backing
  array between slices, which are immutable lists here, in \<open>ResolveMux\<close> too; of \<open>benburkert/dns\<close>, the connections to name
  servers, to which a registration sends nothing, and the server side; certificate chains; the rest
  of the vendored packages. A write to standard output counts as complete when the code does not
  look at its result.
\<close>

end
